(* ===== verification/Prelude.thy ===== *)
theory Prelude
  imports Complex_Main "HOL-Library.AList" "HOL-Library.Char_ord" "HOL-Library.List_Lexorder"
    "HOL-Library.Code_Target_Numeral"
begin

text \<open>
  Shared vocabulary of the development: exceptions as values, Python values and their
  textual forms, dictionaries as association lists in insertion order, and the few generic
  lemmas on lists, maps and strings that the component theories use.

  Strings are \<^typ>\<open>string\<close>, one \<^typ>\<open>char\<close> per code point, so the model covers code points
  below 256. Python integers are \<^typ>\<open>int\<close>. A dictionary is a list of key-value pairs whose
  order is the insertion order; \<open>AList.update\<close> is Python's item assignment (the position of
  an existing key is kept, a new key goes last).
\<close>

section \<open>Proof collections\<close>

named_theorems policy_simps \<open>equations of the policy checks\<close>
named_theorems audit_simps \<open>equations of the audit log\<close>
named_theorems breaker_simps \<open>equations of the circuit breaker\<close>
named_theorems intercept_simps \<open>equations of the interceptor stages\<close>


section \<open>Exceptions as values\<close>

text \<open>
  An exception is its class and its message (\<open>str(exc)\<close>). \<open>CancelledError\<close> stands for
  the exceptions that derive from \<open>BaseException\<close> only: a clause \<open>except Exception\<close> does not
  catch them.
\<close>

datatype exn_class =
    ValueError | TypeError | KeyError | ZeroDivisionError | OSError | TimeoutError | ReError
  | FileNotFoundError | ValidationError | PolicyEvaluationError | GuardrailViolation
  | GatewayAuthError | OtherException string | CancelledError

datatype exn = Exn (exn_class: exn_class) (exn_str: string)

definition is_Exception :: "exn \<Rightarrow> bool" where
  "is_Exception e \<longleftrightarrow> exn_class e \<noteq> CancelledError"

type_synonym 'a result = "exn + 'a"

text \<open>An awaited call is the time it spends suspended together with its outcome.\<close>

type_synonym 'a awaited = "rat \<times> 'a result"

text \<open>
  \<open>asyncio.wait_for\<close>: with a limit of zero or less the coroutine is cancelled before it
  starts; otherwise it is cancelled once it has been suspended for longer than the limit.
\<close>

definition wait_for :: "rat \<Rightarrow> 'a awaited \<Rightarrow> 'a result" where
  "wait_for limit call =
     (if limit \<le> 0 \<or> limit < fst call then Inl (Exn TimeoutError '''') else snd call)"


section \<open>Text\<close>

definition digit_char :: "nat \<Rightarrow> char" where
  "digit_char d = char_of (48 + d)"

fun str_nat :: "nat \<Rightarrow> string" where
  "str_nat n = (if n < 10 then [digit_char n] else str_nat (n div 10) @ [digit_char (n mod 10)])"

declare str_nat.simps [simp del]

definition str_int :: "int \<Rightarrow> string" where
  "str_int i = (if i < 0 then CHR ''-'' # str_nat (nat (- i)) else str_nat (nat i))"

fun join :: "string \<Rightarrow> string list \<Rightarrow> string" where
  "join sep [] = []"
| "join sep [x] = x"
| "join sep (x # y # xs) = x @ sep @ join sep (y # xs)"

text \<open>\<open>str.partition(c)\<close> without the separator: the text before and after the first \<open>c\<close>.\<close>

definition partition_at :: "char \<Rightarrow> string \<Rightarrow> string \<times> string" where
  "partition_at c s = (takeWhile (\<lambda>x. x \<noteq> c) s, tl (dropWhile (\<lambda>x. x \<noteq> c) s))"

text \<open>White space as \<open>str.strip()\<close> sees it, below code point 256.\<close>

definition is_space :: "char \<Rightarrow> bool" where
  "is_space c \<longleftrightarrow>
     (let n = (of_char c :: nat) in
        (9 \<le> n \<and> n \<le> 13) \<or> (28 \<le> n \<and> n \<le> 32) \<or> n = 133 \<or> n = 160)"

definition strip :: "string \<Rightarrow> string" where
  "strip s = rev (dropWhile is_space (rev (dropWhile is_space s)))"

definition is_digit :: "char \<Rightarrow> bool" where
  "is_digit c \<longleftrightarrow> 48 \<le> (of_char c :: nat) \<and> (of_char c :: nat) \<le> 57"

definition digit_val :: "char \<Rightarrow> nat" where
  "digit_val c = of_char c - 48"

text \<open>
  \<open>int(text)\<close>: white space around, an optional sign, then digits in which single
  underscores may separate digits. \<open>None\<close> is the \<open>ValueError\<close>.
\<close>

fun digits_val :: "nat \<Rightarrow> string \<Rightarrow> nat option" where
  "digits_val acc [] = None"
| "digits_val acc [c] = (if is_digit c then Some (10 * acc + digit_val c) else None)"
| "digits_val acc (c # d # cs) =
     (if is_digit c then
        (if d = CHR ''_'' then digits_val (10 * acc + digit_val c) cs
         else digits_val (10 * acc + digit_val c) (d # cs))
      else None)"

definition py_int :: "string \<Rightarrow> int option" where
  "py_int s =
     (case strip s of
        [] \<Rightarrow> None
      | c # cs \<Rightarrow>
          (if c = CHR ''-'' then map_option (\<lambda>n. - int n) (digits_val 0 cs)
           else if c = CHR ''+'' then map_option int (digits_val 0 cs)
           else map_option int (digits_val 0 (c # cs))))"

text \<open>\<open>repr\<close> of a string: single quotes unless only double quotes avoid an escape.\<close>

definition hex_char :: "nat \<Rightarrow> char" where
  "hex_char d = (if d < 10 then char_of (48 + d) else char_of (87 + d))"

definition hex2 :: "nat \<Rightarrow> string" where
  "hex2 n = [hex_char (n div 16 mod 16), hex_char (n mod 16)]"

definition repr_char :: "char \<Rightarrow> char \<Rightarrow> string" where
  "repr_char q c =
     (let n = (of_char c :: nat) in
      if c = q \<or> c = CHR 0x5C then [CHR 0x5C, c]
      else if c = CHR 0x0A then [CHR 0x5C, CHR ''n'']
      else if c = CHR 0x0D then [CHR 0x5C, CHR ''r'']
      else if c = CHR 0x09 then [CHR 0x5C, CHR ''t'']
      else if n < 32 \<or> (127 \<le> n \<and> n \<le> 160) \<or> n = 173 then CHR 0x5C # CHR ''x'' # hex2 n
      else [c])"

definition quote_for :: "string \<Rightarrow> char" where
  "quote_for s =
     (if CHR 0x27 \<in> set s \<and> CHR 0x22 \<notin> set s
      then CHR 0x22 else CHR 0x27)"

definition repr_str :: "string \<Rightarrow> string" where
  "repr_str s = (let q = quote_for s in [q] @ concat (map (repr_char q) s) @ [q])"

text \<open>A list of strings inside an f-string is printed with \<open>repr\<close> of its elements.\<close>

definition str_list :: "string list \<Rightarrow> string" where
  "str_list xs = ''['' @ join '', '' (map repr_str xs) @ '']''"


text \<open>\<open>'text'\<close> in an f-string: the text between single quotes, as written.\<close>

definition squote :: "string \<Rightarrow> string" where
  "squote s = CHR 0x27 # s @ [CHR 0x27]"


section \<open>Dictionaries\<close>

type_synonym 'v dict = "(string \<times> 'v) list"

text \<open>\<open>d.setdefault(k, []).append(v)\<close>\<close>

definition dict_append :: "string \<Rightarrow> 'v \<Rightarrow> 'v list dict \<Rightarrow> 'v list dict" where
  "dict_append k v d =
     AList.update k ((case map_of d k of None \<Rightarrow> [] | Some vs \<Rightarrow> vs) @ [v]) d"

lemma map_of_dict_append:
  "map_of (dict_append k v d) =
     (map_of d)(k \<mapsto> (case map_of d k of None \<Rightarrow> [] | Some vs \<Rightarrow> vs) @ [v])"
  by (simp add: dict_append_def update_conv')

lemma distinct_dict_append [simp]:
  "distinct (map fst d) \<Longrightarrow> distinct (map fst (dict_append k v d))"
  by (simp add: dict_append_def distinct_update)


section \<open>Generic lemmas\<close>

lemma list_ex_set_iff: "list_ex (\<lambda>r. r \<in> set ys) xs \<longleftrightarrow> set xs \<inter> set ys \<noteq> {}"
  by (auto simp: list_ex_iff)

lemma find_None_ball: "find P xs = None \<longleftrightarrow> (\<forall>x \<in> set xs. \<not> P x)"
  by (induction xs) auto

lemma takeWhile_sep: "c \<notin> set a \<Longrightarrow> takeWhile (\<lambda>x. x \<noteq> c) (a @ c # b) = a"
  by (induction a) auto

lemma dropWhile_sep: "c \<notin> set a \<Longrightarrow> dropWhile (\<lambda>x. x \<noteq> c) (a @ c # b) = c # b"
  by (induction a) auto

lemma partition_at_first: "c \<notin> set a \<Longrightarrow> partition_at c (a @ c # b) = (a, b)"
  by (simp add: partition_at_def takeWhile_sep dropWhile_sep)

lemma partition_at_none: "c \<notin> set a \<Longrightarrow> partition_at c a = (a, '''')"
  by (induction a) (auto simp: partition_at_def)

text \<open>Text joined by a separator is decomposed uniquely when the left part avoids it.\<close>

lemma append_sep_inject:
  assumes "c \<notin> set a" and "c \<notin> set a'" and "a @ c # b = a' @ c # b'"
  shows "a = a' \<and> b = b'"
proof -
  have "takeWhile (\<lambda>x. x \<noteq> c) (a @ c # b) = takeWhile (\<lambda>x. x \<noteq> c) (a' @ c # b')"
    using assms(3) by simp
  then have "a = a'"
    using assms(1,2) by (simp only: takeWhile_sep not_False_eq_True)
  with assms(3) show ?thesis by simp
qed

end
