(* ===== verification/PyFloat.thy ===== *)
theory PyFloat
  imports Prelude "HOL-Library.Log_Nat"
begin

text \<open>
  Python floats. A finite float is the rational number it denotes; every arithmetic
  operation of the source that yields a float is the exact rational operation followed by
  \<open>fl\<close>, the rounding of IEEE binary64 (nearest, ties to even, 53 significant bits, least
  exponent \<open>-1074\<close>). Overflow to infinity, NaN and the sign of zero are outside the model:
  clocks, limits and ratios of counts stay finite. The theory shows that \<open>fl\<close> is monotone
  and keeps 0 and 1, which is all that bounds on scores and comparisons of clocks need; the
  locale \<open>rounding\<close> states that interface.
\<close>

type_synonym pyfloat = rat

section \<open>Rounding to binary64\<close>

definition round_half_even :: "rat \<Rightarrow> int" where
  "round_half_even x =
     (let f = \<lfloor>x\<rfloor>; r = x - of_int f in
      if r < 1 / 2 then f else if 1 / 2 < r then f + 1 else if even f then f else f + 1)"

definition pow2 :: "int \<Rightarrow> rat" where
  "pow2 k = (if 0 \<le> k then 2 ^ nat k else 1 / 2 ^ nat (- k))"

text \<open>The exponent of the leading bit of a positive rational.\<close>

definition ilog2 :: "rat \<Rightarrow> int" where
  "ilog2 x =
     (let (p, q) = quotient_of x; k = bitlen p - bitlen q in if pow2 k \<le> x then k else k - 1)"

definition fl_exp :: "rat \<Rightarrow> int" where
  "fl_exp x = max (- 1074) (ilog2 x - 52)"

definition fl_pos :: "rat \<Rightarrow> pyfloat" where
  "fl_pos x = of_int (round_half_even (x / pow2 (fl_exp x))) * pow2 (fl_exp x)"

definition fl :: "rat \<Rightarrow> pyfloat" where
  "fl x = (if x = 0 then 0 else if x < 0 then - fl_pos (- x) else fl_pos x)"

definition fadd :: "pyfloat \<Rightarrow> pyfloat \<Rightarrow> pyfloat" where "fadd x y = fl (x + y)"
definition fsub :: "pyfloat \<Rightarrow> pyfloat \<Rightarrow> pyfloat" where "fsub x y = fl (x - y)"
definition fmul :: "pyfloat \<Rightarrow> pyfloat \<Rightarrow> pyfloat" where "fmul x y = fl (x * y)"

text \<open>\<open>int(x)\<close> of a float drops the fraction.\<close>

definition py_trunc :: "pyfloat \<Rightarrow> int" where
  "py_trunc x = (if x < 0 then - \<lfloor>- x\<rfloor> else \<lfloor>x\<rfloor>)"

text \<open>True division of two Python integers, correctly rounded; the divisor is not zero.\<close>

definition int_div :: "nat \<Rightarrow> nat \<Rightarrow> pyfloat" where
  "int_div a b = fl (of_nat a / of_nat b)"


section \<open>Rounding to an integer\<close>

lemma round_half_even_ge_floor: "\<lfloor>x\<rfloor> \<le> round_half_even x"
  by (simp add: round_half_even_def Let_def)

lemma round_half_even_le_floor: "round_half_even x \<le> \<lfloor>x\<rfloor> + 1"
  by (simp add: round_half_even_def Let_def)

lemma round_half_even_of_int [simp]: "round_half_even (of_int n) = n"
  by (simp add: round_half_even_def)

lemma round_half_even_mono: "x \<le> y \<Longrightarrow> round_half_even x \<le> round_half_even y"
proof (cases "\<lfloor>x\<rfloor> = \<lfloor>y\<rfloor>")
  case True
  assume "x \<le> y"
  with True show ?thesis by (auto simp: round_half_even_def Let_def)
next
  case False
  assume "x \<le> y"
  with False have "\<lfloor>x\<rfloor> + 1 \<le> \<lfloor>y\<rfloor>" using floor_mono [of x y] by linarith
  then show ?thesis
    using round_half_even_le_floor [of x] round_half_even_ge_floor [of y] by linarith
qed

lemma round_half_even_le: "x \<le> of_int n \<Longrightarrow> round_half_even x \<le> n"
  using round_half_even_mono [of x "of_int n"] by simp

lemma round_half_even_ge: "of_int n \<le> x \<Longrightarrow> n \<le> round_half_even x"
  using round_half_even_mono [of "of_int n" x] by simp


section \<open>Powers of two and the leading bit\<close>

lemma pow2_powi: "pow2 k = 2 powi k"
  unfolding pow2_def power_int_def by (simp add: power_one_over)

lemma pow2_pos [simp]: "0 < pow2 k"
  by (simp add: pow2_def)

lemma pow2_nonneg [simp]: "0 \<le> pow2 k" and pow2_nonzero [simp]: "pow2 k \<noteq> 0"
  using pow2_pos [of k] by linarith+

lemma pow2_add: "pow2 (j + k) = pow2 j * pow2 k"
  by (simp add: pow2_powi power_int_add)

lemma pow2_mono: "j \<le> k \<Longrightarrow> pow2 j \<le> pow2 k"
  by (simp add: pow2_powi power_int_increasing)

lemma pow2_less_cancel: "pow2 j < pow2 k \<Longrightarrow> j < k"
  using pow2_mono [of k j] by (cases "j < k") (auto simp: not_less)

lemma pow2_nat: "pow2 (int n) = 2 ^ n"
  by (simp add: pow2_def)

lemma bitlen_pow2_bounds:
  assumes "0 < (p :: int)"
  shows "pow2 (bitlen p - 1) \<le> of_int p" and "of_int p < pow2 (bitlen p)"
proof -
  from assms have b: "2 ^ nat (bitlen p - 1) \<le> p \<and> p < 2 ^ nat (bitlen p)"
    by (rule bitlen_bounds)
  have pos: "1 \<le> bitlen p" using bitlen_ge_iff_power [of 1 p] assms by simp
  from b have "(of_int (2 ^ nat (bitlen p - 1)) :: rat) \<le> of_int p" by (simp only: of_int_le_iff)
  with pos show "pow2 (bitlen p - 1) \<le> of_int p" by (simp add: pow2_def)
  from b have "(of_int p :: rat) < of_int (2 ^ nat (bitlen p))" by (simp only: of_int_less_iff)
  with pos show "of_int p < pow2 (bitlen p)" by (simp add: pow2_def)
qed

lemma quotient_of_div_pos:
  assumes "0 < x" and "quotient_of x = (p, q)"
  shows "0 < p" and "0 < q" and "x = of_int p / of_int q"
proof -
  show "0 < q" using quotient_of_denom_pos [OF assms(2)] .
  show x: "x = of_int p / of_int q" using quotient_of_div [OF assms(2)] .
  with assms(1) \<open>0 < q\<close> show "0 < p" by (simp add: zero_less_divide_iff)
qed

lemma ilog2_bounds:
  assumes "0 < x"
  shows "pow2 (ilog2 x) \<le> x" and "x < pow2 (ilog2 x + 1)"
proof -
  obtain p q where pq: "quotient_of x = (p, q)" by force
  note * = quotient_of_div_pos [OF assms pq]
  let ?k = "bitlen p - bitlen q"
  have q: "pow2 (bitlen q - 1) \<le> of_int q" "of_int q < pow2 (bitlen q)"
    using bitlen_pow2_bounds [OF *(2)] by auto
  have p: "pow2 (bitlen p - 1) \<le> of_int p" "of_int p < pow2 (bitlen p)"
    using bitlen_pow2_bounds [OF *(1)] by auto
  have "pow2 (?k - 1) * of_int q \<le> pow2 (?k - 1) * pow2 (bitlen q)"
    using q(2) by simp
  also have "\<dots> = pow2 (bitlen p - 1)" by (simp flip: pow2_add)
  finally have "pow2 (?k - 1) * of_int q \<le> of_int p" using p(1) by linarith
  then have lo: "pow2 (?k - 1) \<le> x" using *(2) by (simp add: *(3) pos_le_divide_eq)
  have "of_int p < pow2 (?k + 1) * pow2 (bitlen q - 1)"
    using p(2) by (simp flip: pow2_add)
  also have "\<dots> \<le> pow2 (?k + 1) * of_int q" using q(1) by simp
  finally have hi: "x < pow2 (?k + 1)" using *(2) by (simp add: *(3) pos_divide_less_eq)
  show "pow2 (ilog2 x) \<le> x" "x < pow2 (ilog2 x + 1)"
    using lo hi by (auto simp: ilog2_def pq Let_def)
qed

lemma ilog2_mono:
  assumes "0 < x" and "x \<le> y"
  shows "ilog2 x \<le> ilog2 y"
proof -
  have "pow2 (ilog2 x) \<le> x" "y < pow2 (ilog2 y + 1)"
    using ilog2_bounds [of x] ilog2_bounds [of y] assms by auto
  with assms(2) have "pow2 (ilog2 x) < pow2 (ilog2 y + 1)" by linarith
  from pow2_less_cancel [OF this] show ?thesis by linarith
qed


section \<open>Properties of the rounding\<close>

lemma fl_exp_mono: "0 < x \<Longrightarrow> x \<le> y \<Longrightarrow> fl_exp x \<le> fl_exp y"
  using ilog2_mono [of x y] by (auto simp: fl_exp_def)

lemma fl_pos_upper:
  assumes "0 < x"
  shows "fl_pos x \<le> pow2 (fl_exp x + 53)"
proof -
  have "x < pow2 (ilog2 x + 1)" using ilog2_bounds [OF assms] by simp
  also have "\<dots> \<le> pow2 (53 + fl_exp x)" by (rule pow2_mono) (simp add: fl_exp_def)
  also have "\<dots> = of_int (2 ^ 53) * pow2 (fl_exp x)" by (simp add: pow2_add pow2_def [of 53])
  finally have "x / pow2 (fl_exp x) \<le> of_int (2 ^ 53)" by (simp add: pos_divide_le_eq)
  then have "round_half_even (x / pow2 (fl_exp x)) \<le> 2 ^ 53" by (rule round_half_even_le)
  then have "of_int (round_half_even (x / pow2 (fl_exp x))) \<le> (of_int (2 ^ 53) :: rat)"
    by (simp only: of_int_le_iff)
  then have "fl_pos x \<le> of_int (2 ^ 53) * pow2 (fl_exp x)" by (simp add: fl_pos_def)
  then show ?thesis by (simp add: pow2_add pow2_def [of 53] mult.commute)
qed

lemma fl_pos_lower:
  assumes "0 < y" and "- 1074 < fl_exp y"
  shows "pow2 (fl_exp y + 52) \<le> fl_pos y"
proof -
  have e: "fl_exp y + 52 = ilog2 y" using assms(2) by (auto simp: fl_exp_def)
  have "of_int (2 ^ 52) * pow2 (fl_exp y) = pow2 (ilog2 y)"
    by (simp add: pow2_def [of 52] pow2_add mult.commute flip: e)
  also have "\<dots> \<le> y" using ilog2_bounds [OF assms(1)] by simp
  finally have "of_int (2 ^ 52) \<le> y / pow2 (fl_exp y)" by (simp add: pos_le_divide_eq)
  then have "2 ^ 52 \<le> round_half_even (y / pow2 (fl_exp y))" by (rule round_half_even_ge)
  then have "(of_int (2 ^ 52) :: rat) \<le> of_int (round_half_even (y / pow2 (fl_exp y)))"
    by (simp only: of_int_le_iff)
  then have "of_int (2 ^ 52) * pow2 (fl_exp y) \<le> fl_pos y" by (simp add: fl_pos_def)
  then show ?thesis by (simp add: pow2_add pow2_def [of 52] mult.commute)
qed

lemma fl_pos_mono:
  assumes "0 < x" and "x \<le> y"
  shows "fl_pos x \<le> fl_pos y"
proof (cases "fl_exp x = fl_exp y")
  case True
  have "x / pow2 (fl_exp y) \<le> y / pow2 (fl_exp y)"
    using assms(2) by (simp add: divide_right_mono)
  from round_half_even_mono [OF this] show ?thesis by (simp add: fl_pos_def True)
next
  case False
  with fl_exp_mono [OF assms] have less: "fl_exp x < fl_exp y" by simp
  then have "- 1074 < fl_exp y" by (simp add: fl_exp_def)
  with assms have "pow2 (fl_exp y + 52) \<le> fl_pos y" by (intro fl_pos_lower) auto
  moreover have "pow2 (fl_exp x + 53) \<le> pow2 (fl_exp y + 52)"
    using less by (intro pow2_mono) simp
  ultimately show ?thesis using fl_pos_upper [OF assms(1)] by linarith
qed

lemma fl_pos_nonneg: "0 < x \<Longrightarrow> 0 \<le> fl_pos x"
  using round_half_even_ge [of 0 "x / pow2 (fl_exp x)"] by (simp add: fl_pos_def zero_le_divide_iff)

lemma fl_mono:
  assumes "x \<le> y"
  shows "fl x \<le> fl y"
proof -
  consider "0 < x" | "y < 0" | "x \<le> 0" "0 \<le> y" by linarith
  then show ?thesis
  proof cases
    case 1
    with assms show ?thesis using fl_pos_mono [of x y] by (simp add: fl_def)
  next
    case 2
    with assms show ?thesis using fl_pos_mono [of "- y" "- x"] by (simp add: fl_def)
  next
    case 3
    have "fl x \<le> 0" using 3(1) fl_pos_nonneg [of "- x"] by (simp add: fl_def)
    moreover have "0 \<le> fl y" using 3(2) fl_pos_nonneg [of y] by (simp add: fl_def)
    ultimately show ?thesis by linarith
  qed
qed

lemma fl_0 [simp]: "fl 0 = 0"
  by (simp add: fl_def)

text \<open>Numbers with at most 53 significant bits are floats, and \<open>fl\<close> keeps them.\<close>

lemma fl_pos_exact:
  assumes "0 < m" and "m < 2 ^ 53" and "- 1074 \<le> e" and x: "x = of_int m * pow2 e"
  shows "fl_pos x = x"
proof -
  have pos: "0 < x" using assms by simp
  have "(of_int m :: rat) < of_int (2 ^ 53)" using assms(2) by (simp only: of_int_less_iff)
  then have "x < pow2 (53 + e)" by (simp add: x pow2_add pow2_def [of 53])
  then have "pow2 (ilog2 x) < pow2 (53 + e)" using ilog2_bounds [OF pos] by linarith
  from pow2_less_cancel [OF this] have le: "fl_exp x \<le> e" using assms(3) by (simp add: fl_exp_def)
  define d where "d = nat (e - fl_exp x)"
  have "pow2 e = pow2 (int d + fl_exp x)" using le by (simp add: d_def)
  then have split: "x = of_int (m * 2 ^ d) * pow2 (fl_exp x)"
    by (subst x) (simp add: pow2_add pow2_nat)
  then have "x / pow2 (fl_exp x) = of_int (m * 2 ^ d)"
    by (metis nonzero_mult_div_cancel_right pow2_nonzero)
  then have "fl_pos x = of_int (m * 2 ^ d) * pow2 (fl_exp x)"
    unfolding fl_pos_def by (simp only: round_half_even_of_int)
  also have "\<dots> = x" by (simp only: split [symmetric])
  finally show ?thesis .
qed

lemma fl_of_nat:
  assumes "n < 2 ^ 53"
  shows "fl (of_nat n) = of_nat n"
proof (cases "n = 0")
  case False
  moreover have "int n < 2 ^ 53" using assms by simp
  ultimately show ?thesis
    using fl_pos_exact [of "int n" 0 "of_nat n"] by (simp add: fl_def pow2_def)
qed simp

lemma fl_1 [simp]: "fl 1 = 1"
  using fl_of_nat [of 1] by simp

text \<open>What \<open>fl\<close> yields is a float: rounding again changes nothing.\<close>

lemma fl_pos_idem:
  assumes "0 < x"
  shows "fl (fl_pos x) = fl_pos x"
proof -
  define k where "k = round_half_even (x / pow2 (fl_exp x))"
  have val: "fl_pos x = of_int k * pow2 (fl_exp x)" by (simp add: fl_pos_def k_def)
  have "0 \<le> fl_pos x" using fl_pos_nonneg [OF assms] .
  then have "0 \<le> k" using pow2_pos [of "fl_exp x"] by (auto simp: val zero_le_mult_iff simp del: pow2_pos)
  have "of_int k * pow2 (fl_exp x) \<le> pow2 53 * pow2 (fl_exp x)"
    using fl_pos_upper [OF assms] by (simp only: val pow2_add mult.commute)
  then have "(of_int k :: rat) \<le> pow2 53" by (rule mult_right_le_imp_le) simp
  then have "(of_int k :: rat) \<le> of_int (2 ^ 53)" by (simp add: pow2_def [of 53])
  then have "k \<le> 2 ^ 53" by (simp only: of_int_le_iff)
  then consider "k = 0" | "0 < k" "k < 2 ^ 53" | "k = 2 ^ 53" using \<open>0 \<le> k\<close> by linarith
  then show ?thesis
  proof cases
    case 1
    then show ?thesis by (simp add: val)
  next
    case 2
    have "- 1074 \<le> fl_exp x" by (simp add: fl_exp_def)
    from fl_pos_exact [OF 2 this val] have "fl_pos (fl_pos x) = fl_pos x" .
    moreover have "0 < fl_pos x" unfolding val using 2 by simp
    ultimately show ?thesis by (simp add: fl_def)
  next
    case 3
    have "pow2 (fl_exp x + 1) = 2 * pow2 (fl_exp x)" by (simp add: pow2_add pow2_def [of 1])
    then have half: "fl_pos x = of_int (2 ^ 52) * pow2 (fl_exp x + 1)" by (simp add: val 3)
    have "- 1074 \<le> fl_exp x + 1" by (simp add: fl_exp_def)
    from fl_pos_exact [OF _ _ this half] have "fl_pos (fl_pos x) = fl_pos x" by simp
    moreover have "0 < fl_pos x" unfolding half by (intro mult_pos_pos) simp_all
    ultimately show ?thesis by (simp add: fl_def)
  qed
qed

lemma fl_uminus: "fl (- x) = - fl x"
  by (simp add: fl_def)

lemma fl_idem [simp]: "fl (fl x) = fl x"
  using fl_pos_idem [of x] fl_pos_idem [of "- x"] by (auto simp: fl_def [of x] fl_uminus)

section \<open>The interface that clients of float arithmetic use\<close>

locale rounding =
  fixes rnd :: "rat \<Rightarrow> rat"
  assumes rnd_mono: "x \<le> y \<Longrightarrow> rnd x \<le> rnd y"
    and rnd_0: "rnd 0 = 0"
    and rnd_1: "rnd 1 = 1"
begin

lemma rnd_nonneg: "0 \<le> x \<Longrightarrow> 0 \<le> rnd x"
  using rnd_mono [of 0 x] by (simp add: rnd_0)

lemma rnd_le_1: "x \<le> 1 \<Longrightarrow> rnd x \<le> 1"
  using rnd_mono [of x 1] by (simp add: rnd_1)

lemma ratio_unit_interval:
  assumes "a \<le> b" and "0 < (b :: nat)"
  shows "0 \<le> rnd (of_nat a / of_nat b)" and "rnd (of_nat a / of_nat b) \<le> 1"
proof -
  show "0 \<le> rnd (of_nat a / of_nat b)" by (rule rnd_nonneg) simp
  show "rnd (of_nat a / of_nat b) \<le> 1" using assms by (intro rnd_le_1) simp
qed

text \<open>A rounded ratio still orders counts over the same total.\<close>

lemma ratio_mono: "a \<le> a' \<Longrightarrow> rnd (of_nat a / of_nat b) \<le> rnd (of_nat a' / of_nat b)"
  by (rule rnd_mono) (simp add: divide_right_mono)

text \<open>An exact ratio at or above a representable threshold stays there.\<close>

lemma rnd_ge_fixpoint: "rnd t = t \<Longrightarrow> t \<le> x \<Longrightarrow> t \<le> rnd x"
  using rnd_mono [of t x] by simp

end

interpretation binary64: rounding fl
  by unfold_locales (simp_all add: fl_mono)

lemma int_div_unit: "a \<le> b \<Longrightarrow> 0 < b \<Longrightarrow> 0 \<le> int_div a b \<and> int_div a b \<le> 1"
  using binary64.ratio_unit_interval by (simp add: int_div_def)

lemma int_div_full: "0 < b \<Longrightarrow> int_div b b = 1"
  by (simp add: int_div_def)

lemma int_div_zero [simp]: "int_div 0 b = 0"
  by (simp add: int_div_def)

lemma fsub_mono: "x \<le> y \<Longrightarrow> fsub x t \<le> fsub y t"
  by (simp add: fsub_def fl_mono)

lemma fsub_self [simp]: "fsub x x = 0"
  by (simp add: fsub_def)

end
