(* ===== verification/PyValue.thy ===== *)
theory PyValue
  imports PyFloat
begin

text \<open>
  Python values as the source handles them: the arguments of a tool call, the contents of
  an audit record. Values are the JSON-like ones (a dictionary has string keys). The theory
  gives their truth value, \<open>str\<close> and \<open>repr\<close>, and \<open>json.dumps\<close> with sorted keys and compact
  separators, which is the canonical form the audit log hashes.
\<close>

datatype pyval =
    PNone
  | PBool bool
  | PInt int
  | PFloat pyfloat
  | PStr string
  | PList "pyval list"
  | PDict "(string \<times> pyval) list"

type_synonym params = "pyval dict"

text \<open>\<open>d.get(k)\<close>: the value, or \<open>None\<close>.\<close>

definition dict_get :: "params \<Rightarrow> string \<Rightarrow> pyval" where
  "dict_get d k = (case map_of d k of None \<Rightarrow> PNone | Some v \<Rightarrow> v)"

fun truthy :: "pyval \<Rightarrow> bool" where
  "truthy PNone = False"
| "truthy (PBool b) = b"
| "truthy (PInt i) = (i \<noteq> 0)"
| "truthy (PFloat x) = (x \<noteq> 0)"
| "truthy (PStr s) = (s \<noteq> [])"
| "truthy (PList xs) = (xs \<noteq> [])"
| "truthy (PDict d) = (d \<noteq> [])"


section \<open>Text of a float\<close>

text \<open>
  \<open>repr\<close> of a float is the decimal with the fewest significant digits that rounds back to
  it, found by trying 1, 2, \<dots>, 17 digits; 17 digits always suffice for binary64.
\<close>

definition pow10 :: "int \<Rightarrow> rat" where
  "pow10 k = (if 0 \<le> k then 10 ^ nat k else 1 / 10 ^ nat (- k))"

text \<open>The exponent of the leading decimal digit of a positive rational.\<close>

function ilog10 :: "rat \<Rightarrow> int" where
  "ilog10 x =
     (if x \<le> 0 then 0 else if x < 1 then ilog10 (10 * x) - 1
      else if 10 \<le> x then ilog10 (x / 10) + 1 else 0)"
  by pat_completeness auto
termination
proof (relation "measure (\<lambda>x. nat (if x < 1 then \<lfloor>10 / x\<rfloor> + 10 else \<lfloor>x\<rfloor>))")
  fix x :: rat
  assume x: "\<not> x \<le> 0" "x < 1"
  then have "9 < 9 / x" by (simp add: pos_less_divide_eq)
  then have "10 / (10 * x) + 9 \<le> 10 / x" by (simp add: field_simps)
  then have "\<lfloor>10 / (10 * x)\<rfloor> + 9 \<le> \<lfloor>10 / x\<rfloor>" using floor_mono by fastforce
  moreover have "0 \<le> \<lfloor>10 / (10 * x)\<rfloor>" "0 \<le> \<lfloor>10 / x\<rfloor>" using x by auto
  moreover have "\<lfloor>10 * x\<rfloor> < 10" using x by (simp add: floor_less_iff)
  ultimately show "(10 * x, x) \<in> measure (\<lambda>x. nat (if x < 1 then \<lfloor>10 / x\<rfloor> + 10 else \<lfloor>x\<rfloor>))"
    using x by (auto; linarith)
next
  fix x :: rat
  assume x: "\<not> x \<le> 0" "\<not> x < 1" "10 \<le> x"
  then have "x / 10 + 9 \<le> x" by simp
  then have "\<lfloor>x / 10\<rfloor> + 9 \<le> \<lfloor>x\<rfloor>" using floor_mono by fastforce
  moreover have "1 \<le> \<lfloor>x\<rfloor>" using x by simp
  ultimately show "(x / 10, x) \<in> measure (\<lambda>x. nat (if x < 1 then \<lfloor>10 / x\<rfloor> + 10 else \<lfloor>x\<rfloor>))"
    using x by auto
qed simp

declare ilog10.simps [simp del]

definition dec_round :: "rat \<Rightarrow> int \<Rightarrow> nat \<Rightarrow> nat \<times> int" where
  "dec_round x e n =
     (let d = nat (round_half_even (x / pow10 (e - int n + 1))) in
      if 10 ^ n \<le> d then (d div 10, e + 1) else (d, e))"

fun shortest :: "rat \<Rightarrow> int \<Rightarrow> nat \<Rightarrow> nat \<Rightarrow> nat \<times> nat \<times> int" where
  "shortest x e n 0 = (let (d, e') = dec_round x e n in (n, d, e'))"
| "shortest x e n (Suc k) =
     (let (d, e') = dec_round x e n in
      if fl (of_nat d * pow10 (e' - int n + 1)) = x then (n, d, e')
      else shortest x e (Suc n) k)"

definition zeros :: "nat \<Rightarrow> string" where
  "zeros n = replicate n (CHR ''0'')"

definition exp_text :: "int \<Rightarrow> string" where
  "exp_text e =
     (let ds = str_nat (nat \<bar>e\<bar>) in
      [CHR ''e'', if e < 0 then CHR ''-'' else CHR ''+''] @ zeros (2 - length ds) @ ds)"

definition float_text :: "string \<Rightarrow> int \<Rightarrow> string" where
  "float_text ds e =
     (let n = int (length ds) in
      if - 4 \<le> e \<and> e < 16 then
        (if e < 0 then ''0.'' @ zeros (nat (- e - 1)) @ ds
         else if n \<le> e + 1 then ds @ zeros (nat (e + 1 - n)) @ ''.0''
         else take (nat (e + 1)) ds @ ''.'' @ drop (nat (e + 1)) ds)
      else (case ds of
              [] \<Rightarrow> exp_text e
            | d # rest \<Rightarrow> (if rest = [] then [d] else d # CHR ''.'' # rest) @ exp_text e))"

definition float_repr :: "pyfloat \<Rightarrow> string" where
  "float_repr x =
     (if x = 0 then ''0.0''
      else (let (n, d, e) = shortest \<bar>x\<bar> (ilog10 \<bar>x\<bar>) 1 16 in
            (if x < 0 then ''-'' else '''') @ float_text (str_nat d) e))"

text \<open>The format \<open>.2f\<close> of a number that is not negative.\<close>

definition format_2f :: "pyfloat \<Rightarrow> string" where
  "format_2f x =
     (let c = nat (round_half_even (x * 100)) in
      str_nat (c div 100) @ ''.'' @ [digit_char (c div 10 mod 10), digit_char (c mod 10)])"


section \<open>repr and str\<close>

fun py_repr :: "pyval \<Rightarrow> string" where
  "py_repr PNone = ''None''"
| "py_repr (PBool b) = (if b then ''True'' else ''False'')"
| "py_repr (PInt i) = str_int i"
| "py_repr (PFloat x) = float_repr x"
| "py_repr (PStr s) = repr_str s"
| "py_repr (PList xs) = ''['' @ join '', '' (map py_repr xs) @ '']''"
| "py_repr (PDict d) =
     ''{'' @ join '', '' (map (\<lambda>kv. repr_str (fst kv) @ '': '' @ py_repr (snd kv)) d) @ ''}''"

fun py_str :: "pyval \<Rightarrow> string" where
  "py_str (PStr s) = s"
| "py_str v = py_repr v"


section \<open>json.dumps\<close>

definition json_char :: "char \<Rightarrow> string" where
  "json_char c =
     (let n = (of_char c :: nat) in
      if c = CHR 0x22 \<or> c = CHR 0x5C then [CHR 0x5C, c]
      else if c = CHR 0x0A then [CHR 0x5C, CHR ''n'']
      else if c = CHR 0x0D then [CHR 0x5C, CHR ''r'']
      else if c = CHR 0x09 then [CHR 0x5C, CHR ''t'']
      else if c = CHR 0x08 then [CHR 0x5C, CHR ''b'']
      else if c = CHR 0x0C then [CHR 0x5C, CHR ''f'']
      else if n < 32 \<or> 126 < n then CHR 0x5C # ''u00'' @ hex2 n
      else [c])"

definition json_str :: "string \<Rightarrow> string" where
  "json_str s = CHR 0x22 # concat (map json_char s) @ [CHR 0x22]"

text \<open>
  \<open>ws\<close> is what follows a comma or a colon: nothing with \<open>separators=(',', ':')\<close> and in what \<open>pydantic\<close>
  writes, one blank by default.
\<close>

fun json_text :: "string \<Rightarrow> pyval \<Rightarrow> string" where
  "json_text ws PNone = ''null''"
| "json_text ws (PBool b) = (if b then ''true'' else ''false'')"
| "json_text ws (PInt i) = str_int i"
| "json_text ws (PFloat x) = float_repr x"
| "json_text ws (PStr s) = json_str s"
| "json_text ws (PList xs) = ''['' @ join (CHR '','' # ws) (map (json_text ws) xs) @ '']''"
| "json_text ws (PDict d) =
     ''{'' @ join (CHR '','' # ws)
               (map (\<lambda>kv. json_str (fst kv) @ CHR '':'' # ws @ json_text ws (snd kv)) d) @ ''}''"

abbreviation json_print :: "pyval \<Rightarrow> string" where
  "json_print \<equiv> json_text ''''"

text \<open>\<open>sort_keys=True\<close> orders the members of every dictionary by key.\<close>

fun sort_keys :: "pyval \<Rightarrow> pyval" where
  "sort_keys (PList xs) = PList (map sort_keys xs)"
| "sort_keys (PDict d) = PDict (sort_key fst (map (\<lambda>kv. (fst kv, sort_keys (snd kv))) d))"
| "sort_keys v = v"

definition json_dumps :: "pyval \<Rightarrow> string" where
  "json_dumps v = json_print (sort_keys v)"


section \<open>Facts\<close>

lemma dict_get_update:
  "dict_get (AList.update k v d) j = (if j = k then v else dict_get d j)"
  by (simp add: dict_get_def update_conv')

lemma py_str_PStr_inject [simp]: "py_str (PStr s) = py_str (PStr t) \<longleftrightarrow> s = t"
  by simp

end
