(* ===== verification/Models.thy ===== *)
theory Models
  imports PyValue
begin

text \<open>
  The data contracts of \<^verbatim>\<open>src/aimw/models.py\<close>: who asks (\<open>ExecutionContext\<close>), for which tool
  call (\<open>ToolRequest\<close>) and with which outcome (\<open>PolicyDecision\<close>). Field access by name, which the
  static engine performs with \<open>getattr\<close>, is \<open>context_attr\<close>.
\<close>

record execution_context =
  user_id :: string
  agent_id :: string
  session_id :: string
  roles :: "string list"
  delegated_scopes :: "string list"
  metadata :: params

record tool_request =
  tool_name :: string
  function_name :: string
  parameters :: params
  call_id :: string

record policy_decision =
  allowed :: bool
  reason :: string
  modified_parameters :: "params option"
  action_requirements :: "string list"

text \<open>\<open>PolicyDecision(allowed=b, reason=r)\<close>: the other fields have their defaults.\<close>

definition mk_decision :: "bool \<Rightarrow> string \<Rightarrow> policy_decision" where
  "mk_decision b r =
     \<lparr>allowed = b, reason = r, modified_parameters = None, action_requirements = []\<rparr>"

text \<open>
  The truth value of \<open>getattr(context, name, None)\<close>. A name that is not a field may still be
  an attribute of the \<open>pydantic\<close> base class; its truth value is the parameter \<open>base_attr\<close>
  (false where the base class has no such attribute).
\<close>

definition context_attr :: "(string \<Rightarrow> bool) \<Rightarrow> execution_context \<Rightarrow> string \<Rightarrow> bool" where
  "context_attr base_attr ctx name =
     (if name = ''user_id'' then user_id ctx \<noteq> []
      else if name = ''agent_id'' then agent_id ctx \<noteq> []
      else if name = ''session_id'' then session_id ctx \<noteq> []
      else if name = ''roles'' then roles ctx \<noteq> []
      else if name = ''delegated_scopes'' then delegated_scopes ctx \<noteq> []
      else if name = ''metadata'' then metadata ctx \<noteq> []
      else base_attr name)"

lemma mk_decision_simps [simp]:
  "allowed (mk_decision b r) = b"
  "reason (mk_decision b r) = r"
  "modified_parameters (mk_decision b r) = None"
  "action_requirements (mk_decision b r) = []"
  by (simp_all add: mk_decision_def)

text \<open>Two contexts that differ in their roles only, the second with at least those of the first.\<close>

definition more_roles :: "execution_context \<Rightarrow> execution_context \<Rightarrow> bool" where
  "more_roles c c' \<longleftrightarrow> set (roles c) \<subseteq> set (roles c') \<and> c' = c\<lparr>roles := roles c'\<rparr>"

lemma more_roles_fields:
  assumes "more_roles c c'"
  shows "set (roles c) \<subseteq> set (roles c')"
    and "user_id c' = user_id c" and "agent_id c' = agent_id c" and "session_id c' = session_id c"
    and "delegated_scopes c' = delegated_scopes c" and "metadata c' = metadata c"
proof -
  from assms have eq: "c' = c\<lparr>roles := roles c'\<rparr>" and sub: "set (roles c) \<subseteq> set (roles c')"
    by (simp_all add: more_roles_def)
  show "set (roles c) \<subseteq> set (roles c')" by (rule sub)
  show "user_id c' = user_id c" "agent_id c' = agent_id c" "session_id c' = session_id c"
    "delegated_scopes c' = delegated_scopes c" "metadata c' = metadata c"
    by (subst eq, simp)+
qed

lemma more_roles_attr:
  assumes "more_roles c c'" and "context_attr base c f"
  shows "context_attr base c' f"
proof -
  have "roles c \<noteq> [] \<Longrightarrow> roles c' \<noteq> []"
    using more_roles_fields(1) [OF assms(1)] by auto
  with assms(2) show ?thesis
    by (auto simp: context_attr_def more_roles_fields [OF assms(1)] split: if_splits)
qed

end
