(* ===== verification/PolicyChecks.thy ===== *)
theory PolicyChecks
  imports Models
begin

text \<open>
  The checks that \<^verbatim>\<open>policy/static_engine.py\<close> and \<^verbatim>\<open>policy/db_engine.py\<close> both perform, each as the
  loop of the source: identity fields, parameter deny-patterns, role-gated parameter values,
  and the exception wrapper of \<open>evaluate_tool_call\<close>. A loop yields \<open>Some\<close> of the denial it
  returns early with, or \<open>None\<close> when it runs to its end. For each loop a lemma says when it
  passes, in terms of the sets of patterns and gates instead of their order.

  The record \<open>policy_env\<close> holds what an engine receives from outside: the regular-expression
  search (with \<open>IGNORECASE\<close>), which raises for a pattern that does not compile, the injected
  call counter, which may raise, and the attributes of the \<open>pydantic\<close> base class.
\<close>

record policy_env =
  re_search :: "string \<Rightarrow> string \<Rightarrow> bool result"
  call_counter :: "string \<Rightarrow> int result"
  base_attr :: "string \<Rightarrow> bool"

text \<open>\<open>call_counter or (lambda _session_id: 0)\<close> of both engines.\<close>

definition counter_or_default :: "(string \<Rightarrow> int result) option \<Rightarrow> string \<Rightarrow> int result" where
  "counter_or_default counter = (case counter of None \<Rightarrow> (\<lambda>session. Inr 0) | Some c \<Rightarrow> c)"

definition deny :: "string \<Rightarrow> policy_decision" where
  "deny r = mk_decision False r"

definition any_role :: "string list \<Rightarrow> execution_context \<Rightarrow> bool" where
  "any_role required ctx = list_ex (\<lambda>role. role \<in> set (roles ctx)) required"

fun check_identity ::
  "policy_env \<Rightarrow> execution_context \<Rightarrow> string list \<Rightarrow> policy_decision option" where
  "check_identity env ctx [] = None"
| "check_identity env ctx (f # fs) =
     (if \<not> context_attr (base_attr env) ctx f
      then Some (deny (''invalid identity context: missing or empty '' @ squote f))
      else check_identity env ctx fs)"

definition excerpt :: "string \<Rightarrow> string" where
  "excerpt v = take 40 v @ (if 40 < length v then ''...'' else '''')"

fun match_patterns ::
  "policy_env \<Rightarrow> string \<Rightarrow> string \<Rightarrow> string list \<Rightarrow> policy_decision option result" where
  "match_patterns env param_name value_str [] = Inr None"
| "match_patterns env param_name value_str (pattern # patterns) =
     (case re_search env pattern value_str of
        Inl e \<Rightarrow> Inl e
      | Inr hit \<Rightarrow>
          (if hit
           then Inr (Some (deny (''parameter '' @ squote param_name @ '' matched deny-pattern ''
                  @ squote pattern @ '' (excerpt: '' @ repr_str (excerpt value_str) @ '')'')))
           else match_patterns env param_name value_str patterns))"

fun check_deny_patterns ::
  "policy_env \<Rightarrow> tool_request \<Rightarrow> string list dict \<Rightarrow> policy_decision option result" where
  "check_deny_patterns env req [] = Inr None"
| "check_deny_patterns env req ((param_name, patterns) # rest) =
     (let value = dict_get (parameters req) param_name in
      if value = PNone then check_deny_patterns env req rest
      else (case match_patterns env param_name (py_str value) patterns of
              Inl e \<Rightarrow> Inl e
            | Inr (Some d) \<Rightarrow> Inr (Some d)
            | Inr None \<Rightarrow> check_deny_patterns env req rest))"

definition gate_applies :: "tool_request \<Rightarrow> string \<Rightarrow> bool" where
  "gate_applies req gate =
     (let (param_name, expected_value) = partition_at (CHR ''='') gate;
          actual_value = dict_get (parameters req) param_name
      in actual_value \<noteq> PNone \<and> py_str actual_value = expected_value)"

fun check_role_gates ::
  "execution_context \<Rightarrow> tool_request \<Rightarrow> string list dict \<Rightarrow> policy_decision option" where
  "check_role_gates ctx req [] = None"
| "check_role_gates ctx req ((gate, required_roles) # rest) =
     (if gate_applies req gate \<and> \<not> any_role required_roles ctx
      then Some (deny (''parameter '' @ squote gate @ '' requires one of roles ''
                       @ str_list required_roles))
      else check_role_gates ctx req rest)"

text \<open>
  \<open>evaluate_tool_call\<close> of both engines: a \<open>PolicyEvaluationError\<close> passes, any other
  \<open>Exception\<close> is re-raised as one, an exception outside \<open>Exception\<close> passes.
\<close>

definition wrap_policy_errors :: "policy_decision result \<Rightarrow> policy_decision result" where
  "wrap_policy_errors r =
     (case r of
        Inr d \<Rightarrow> Inr d
      | Inl e \<Rightarrow>
          (if exn_class e = PolicyEvaluationError then Inl e
           else if is_Exception e then Inl (Exn PolicyEvaluationError (exn_str e))
           else Inl e))"

definition pending_approval :: policy_decision where
  "pending_approval =
     (mk_decision True ''approved pending human-in-the-loop review'')
       \<lparr>action_requirements := [''human_approval'']\<rparr>"

definition checks_passed :: policy_decision where
  "checks_passed = mk_decision True ''all policy checks passed''"


section \<open>When a loop passes\<close>

definition patterns_clear :: "policy_env \<Rightarrow> tool_request \<Rightarrow> string list dict \<Rightarrow> bool" where
  "patterns_clear env req d \<longleftrightarrow>
     (\<forall>(p, pats) \<in> set d. dict_get (parameters req) p \<noteq> PNone \<longrightarrow>
        (\<forall>pat \<in> set pats. re_search env pat (py_str (dict_get (parameters req) p)) = Inr False))"

definition gates_open :: "execution_context \<Rightarrow> tool_request \<Rightarrow> string list dict \<Rightarrow> bool" where
  "gates_open ctx req d \<longleftrightarrow>
     (\<forall>(g, rs) \<in> set d. gate_applies req g \<longrightarrow> set rs \<inter> set (roles ctx) \<noteq> {})"

lemma deny_not_allowed [simp]: "allowed (deny r) = False"
  by (simp add: deny_def)

lemma deny_no_requirements [simp]: "action_requirements (deny r) = []"
  by (simp add: deny_def)

lemma allowed_outcomes [simp]:
  "allowed pending_approval" "allowed checks_passed"
  "action_requirements pending_approval = [''human_approval'']"
  "action_requirements checks_passed = []"
  by (simp_all add: pending_approval_def checks_passed_def mk_decision_def)

lemma any_role_iff [policy_simps]: "any_role rs ctx \<longleftrightarrow> set rs \<inter> set (roles ctx) \<noteq> {}"
  by (simp add: any_role_def list_ex_set_iff)

lemma check_identity_None [policy_simps]:
  "check_identity env ctx fs = None \<longleftrightarrow> (\<forall>f \<in> set fs. context_attr (base_attr env) ctx f)"
  by (induction fs) auto

lemma check_identity_denies: "check_identity env ctx fs = Some d \<Longrightarrow> \<not> allowed d"
  by (induction fs) (auto split: if_splits)

lemma match_patterns_pass:
  "match_patterns env p v pats = Inr None \<longleftrightarrow> (\<forall>pat \<in> set pats. re_search env pat v = Inr False)"
  by (induction pats) (auto split: sum.splits if_splits)

lemma match_patterns_denies: "match_patterns env p v pats = Inr (Some d) \<Longrightarrow> \<not> allowed d"
  by (induction pats) (auto split: sum.splits if_splits)

lemma check_deny_patterns_pass [policy_simps]:
  "check_deny_patterns env req d = Inr None \<longleftrightarrow> patterns_clear env req d"
proof (induction d)
  case Nil
  then show ?case by (simp add: patterns_clear_def)
next
  case (Cons a d)
  obtain p pats where a: "a = (p, pats)" by force
  show ?case
    using Cons.IH
      match_patterns_pass [of env p "py_str (dict_get (parameters req) p)" pats]
    by (auto simp: a patterns_clear_def Let_def split: sum.splits option.splits)
qed

lemma check_deny_patterns_denies:
  "check_deny_patterns env req d = Inr (Some x) \<Longrightarrow> \<not> allowed x"
  by (induction env req d rule: check_deny_patterns.induct)
     (auto simp: Let_def split: if_splits sum.splits option.splits dest: match_patterns_denies)

lemma check_role_gates_pass [policy_simps]:
  "check_role_gates ctx req d = None \<longleftrightarrow> gates_open ctx req d"
  by (induction ctx req d rule: check_role_gates.induct) (auto simp: gates_open_def any_role_iff)

lemma check_role_gates_denies: "check_role_gates ctx req d = Some x \<Longrightarrow> \<not> allowed x"
  by (induction ctx req d rule: check_role_gates.induct) (auto split: if_splits)

lemmas check_denies =
  check_identity_denies check_deny_patterns_denies check_role_gates_denies

lemma gates_open_more_roles:
  "more_roles c c' \<Longrightarrow> gates_open c req d \<Longrightarrow> gates_open c' req d"
  using more_roles_fields(1) by (fastforce simp: gates_open_def)

lemma wrap_policy_errors_allowed [simp]:
  "wrap_policy_errors r = Inr d \<longleftrightarrow> r = Inr d"
  by (auto simp: wrap_policy_errors_def split: sum.splits)

lemma wrap_policy_errors_class:
  "wrap_policy_errors r = Inl e \<Longrightarrow> is_Exception e \<Longrightarrow> exn_class e = PolicyEvaluationError"
  by (auto simp: wrap_policy_errors_def is_Exception_def split: sum.splits if_splits)

lemma match_patterns_raises:
  "match_patterns env p v pats = Inl e \<Longrightarrow> \<exists>pat \<in> set pats. re_search env pat v = Inl e"
  by (induction pats) (auto split: sum.splits if_splits)

lemma check_deny_patterns_raises:
  "check_deny_patterns env req d = Inl e \<Longrightarrow>
     \<exists>(p, pats) \<in> set d. \<exists>pat \<in> set pats. re_search env pat (py_str (dict_get (parameters req) p)) = Inl e"
  by (induction env req d rule: check_deny_patterns.induct)
     (auto simp: Let_def split: if_splits sum.splits option.splits dest!: match_patterns_raises)


section \<open>Sample inputs\<close>

text \<open>An environment whose patterns never match, and inputs for the example rules.\<close>

definition sample_env :: policy_env where
  "sample_env = \<lparr>re_search = (\<lambda>pat s. Inr False), call_counter = (\<lambda>s. Inr 0), base_attr = (\<lambda>n. False)\<rparr>"

definition sample_context :: "string list \<Rightarrow> execution_context" where
  "sample_context rs =
     \<lparr>user_id = ''u1'', agent_id = ''a1'', session_id = ''s1'', roles = rs, delegated_scopes = [],
      metadata = []\<rparr>"

definition sample_request :: "string \<Rightarrow> string \<Rightarrow> params \<Rightarrow> tool_request" where
  "sample_request tool fn ps =
     \<lparr>tool_name = tool, function_name = fn, parameters = ps, call_id = ''c1''\<rparr>"

lemmas sample_defs = sample_env_def sample_context_def sample_request_def

end
