(* ===== verification/StaticPolicy.thy ===== *)
theory StaticPolicy
  imports PolicyChecks
begin

text \<open>
  The L1 policy engine: the rule format of \<^verbatim>\<open>policy/rules.py\<close> and \<open>StaticPolicyEngine\<close> of
  \<^verbatim>\<open>policy/static_engine.py\<close>. \<open>static_evaluate\<close> is \<open>_evaluate\<close> with its checks in the order of
  the source. \<open>static_permits\<close> is the permission hierarchy stated without any order; the engine
  allows a call exactly when it holds. The rule set of \<^verbatim>\<open>configs/policy.example.yaml\<close> is
  \<open>example_ruleset\<close>.
\<close>

record tool_rule =
  rule_tool_name :: string
  allowed_functions :: "string list"
  visible_to_roles :: "string list"
  parameter_deny_patterns :: "string list dict"
  requires_role_for :: "string list dict"
  requires_approval_functions :: "string list"

record policy_rule_set =
  identity_required_fields :: "string list"
  allowed_tools :: "string list"
  tools :: "tool_rule dict"
  rate_limit_per_session :: int

text \<open>The default of \<open>identity_required_fields\<close>.\<close>

definition default_identity_fields :: "string list" where
  "default_identity_fields = [''user_id'', ''agent_id'', ''roles'']"

text \<open>
  \<open>load_ruleset\<close>: the file's text through YAML into a validated rule set. Reading the file,
  \<open>yaml.safe_load\<close> and \<open>PolicyRuleSet.model_validate\<close> are outside the repository.
\<close>

record rule_loader =
  read_text :: "string \<Rightarrow> string result"
  safe_load :: "string \<Rightarrow> pyval result"
  model_validate :: "pyval \<Rightarrow> policy_rule_set result"

definition load_ruleset :: "rule_loader \<Rightarrow> string \<Rightarrow> policy_rule_set result" where
  "load_ruleset ld path =
     (case read_text ld path of
        Inl e \<Rightarrow> Inl e
      | Inr content \<Rightarrow>
          (case safe_load ld content of
             Inl e \<Rightarrow> Inl e
           | Inr raw \<Rightarrow> model_validate ld raw))"

definition static_evaluate ::
  "policy_env \<Rightarrow> policy_rule_set \<Rightarrow> execution_context \<Rightarrow> tool_request \<Rightarrow> policy_decision result"
where
  "static_evaluate env ruleset ctx req =
     (case check_identity env ctx (identity_required_fields ruleset) of
        Some d \<Rightarrow> Inr d
      | None \<Rightarrow>
     (case (if tool_name req \<in> set (allowed_tools ruleset)
            then map_of (tools ruleset) (tool_name req) else None) of
        None \<Rightarrow> Inr (deny (''tool not permitted: '' @ squote (tool_name req)))
      | Some tool_rule \<Rightarrow>
     (if visible_to_roles tool_rule \<noteq> [] \<and> \<not> any_role (visible_to_roles tool_rule) ctx
      then Inr (deny (''tool '' @ squote (tool_name req) @ '' requires one of roles ''
                      @ str_list (visible_to_roles tool_rule)))
      else if function_name req \<notin> set (allowed_functions tool_rule)
      then Inr (deny (''function not permitted: ''
                      @ squote (tool_name req @ ''.'' @ function_name req)))
      else
     (case check_deny_patterns env req (parameter_deny_patterns tool_rule) of
        Inl e \<Rightarrow> Inl e
      | Inr (Some d) \<Rightarrow> Inr d
      | Inr None \<Rightarrow>
     (case check_role_gates ctx req (requires_role_for tool_rule) of
        Some d \<Rightarrow> Inr d
      | None \<Rightarrow>
     (case call_counter env (session_id ctx) of
        Inl e \<Rightarrow> Inl e
      | Inr current_calls \<Rightarrow>
     (if rate_limit_per_session ruleset \<le> current_calls
      then Inr (deny (''rate limit exceeded: '' @ str_int current_calls @ '' >= ''
                      @ str_int (rate_limit_per_session ruleset)))
      else if function_name req \<in> set (requires_approval_functions tool_rule)
      then Inr pending_approval
      else Inr checks_passed)))))))"

definition static_evaluate_tool_call ::
  "policy_env \<Rightarrow> policy_rule_set \<Rightarrow> execution_context \<Rightarrow> tool_request \<Rightarrow> policy_decision result"
where
  "static_evaluate_tool_call env ruleset ctx req =
     wrap_policy_errors (static_evaluate env ruleset ctx req)"

text \<open>\<^verbatim>\<open>configs/policy.example.yaml\<close>, after validation (absent fields have their defaults).\<close>

definition simple_rule :: "string \<Rightarrow> string list \<Rightarrow> tool_rule" where
  "simple_rule name funs =
     \<lparr>rule_tool_name = name, allowed_functions = funs, visible_to_roles = [],
      parameter_deny_patterns = [], requires_role_for = [], requires_approval_functions = []\<rparr>"

definition example_ruleset :: policy_rule_set where
  "example_ruleset =
     \<lparr>identity_required_fields = [''user_id'', ''agent_id'', ''roles''],
      allowed_tools = [''search_tool'', ''sql_tool'', ''deploy_tool''],
      tools =
        [(''search_tool'', simple_rule ''search_tool'' [''query'']),
         (''sql_tool'',
            (simple_rule ''sql_tool'' [''ExecuteReadOnlyQuery'', ''UpdateCustomerRecord''])
              \<lparr>parameter_deny_patterns :=
                 [(''query'', [''(?i)(DROP|DELETE|TRUNCATE|ALTER)''])]\<rparr>),
         (''deploy_tool'',
            (simple_rule ''deploy_tool'' [''deploy''])
              \<lparr>visible_to_roles := [''DeployEngineer'', ''ProductionAdmin''],
               requires_role_for := [(''environment=production'', [''ProductionAdmin''])],
               requires_approval_functions := [''deploy'']\<rparr>)],
      rate_limit_per_session = 50\<rparr>"


section \<open>The permission hierarchy, declaratively\<close>

definition rule_permits ::
  "policy_env \<Rightarrow> tool_rule \<Rightarrow> execution_context \<Rightarrow> tool_request \<Rightarrow> bool" where
  "rule_permits env rule ctx req \<longleftrightarrow>
     (visible_to_roles rule = [] \<or> set (visible_to_roles rule) \<inter> set (roles ctx) \<noteq> {}) \<and>
     function_name req \<in> set (allowed_functions rule) \<and>
     patterns_clear env req (parameter_deny_patterns rule) \<and>
     gates_open ctx req (requires_role_for rule)"

definition under_limit :: "policy_env \<Rightarrow> int \<Rightarrow> execution_context \<Rightarrow> bool" where
  "under_limit env limit ctx \<longleftrightarrow>
     (\<exists>n. call_counter env (session_id ctx) = Inr n \<and> n < limit)"

text \<open>Without a counter of its own an engine enforces no session limit.\<close>

lemma default_counter_never_limits:
  "call_counter env = counter_or_default None \<Longrightarrow> under_limit env limit ctx \<longleftrightarrow> 0 < limit"
  by (simp add: under_limit_def counter_or_default_def)

definition static_permits ::
  "policy_env \<Rightarrow> policy_rule_set \<Rightarrow> execution_context \<Rightarrow> tool_request \<Rightarrow> tool_rule \<Rightarrow> bool" where
  "static_permits env ruleset ctx req rule \<longleftrightarrow>
     (\<forall>f \<in> set (identity_required_fields ruleset). context_attr (base_attr env) ctx f) \<and>
     tool_name req \<in> set (allowed_tools ruleset) \<and>
     map_of (tools ruleset) (tool_name req) = Some rule \<and>
     rule_permits env rule ctx req \<and>
     under_limit env (rate_limit_per_session ruleset) ctx"

definition grant :: "bool \<Rightarrow> policy_decision" where
  "grant needs_approval = (if needs_approval then pending_approval else checks_passed)"

lemma allowed_grant [simp]: "allowed (grant b)"
  by (simp add: grant_def)

lemma static_permits_checks:
  assumes "static_permits env rs ctx req rule"
  shows "check_identity env ctx (identity_required_fields rs) = None"
    and "check_deny_patterns env req (parameter_deny_patterns rule) = Inr None"
    and "check_role_gates ctx req (requires_role_for rule) = None"
    and "visible_to_roles rule \<noteq> [] \<Longrightarrow> any_role (visible_to_roles rule) ctx"
  using assms by (auto simp: static_permits_def rule_permits_def policy_simps)

lemma static_evaluate_permitted:
  assumes "static_permits env rs ctx req rule"
  shows "static_evaluate env rs ctx req =
           Inr (grant (function_name req \<in> set (requires_approval_functions rule)))"
  using assms static_permits_checks [OF assms]
  by (auto simp: static_permits_def rule_permits_def under_limit_def static_evaluate_def grant_def)

lemma static_evaluate_allowedD:
  assumes ev: "static_evaluate env rs ctx req = Inr d" and al: "allowed d"
  shows "\<exists>rule. static_permits env rs ctx req rule"
proof -
  note ev = ev [unfolded static_evaluate_def]
  have id: "check_identity env ctx (identity_required_fields rs) = None"
    using ev al by (cases rule: option.exhaust) (auto dest: check_denies)
  note ev = ev [unfolded id option.case]
  obtain rule where rule: "tool_name req \<in> set (allowed_tools rs)"
      "map_of (tools rs) (tool_name req) = Some rule"
    using ev al by (cases "map_of (tools rs) (tool_name req)") (auto split: if_split_asm)
  note ev = ev [simplified rule if_True option.case]
  have vis: "visible_to_roles rule = [] \<or> any_role (visible_to_roles rule) ctx"
    and fn: "function_name req \<in> set (allowed_functions rule)"
    using ev al by (auto split: if_split_asm)
  note ev = ev [simplified vis fn]
  have pat: "check_deny_patterns env req (parameter_deny_patterns rule) = Inr None"
    using ev al vis by (auto split: sum.split_asm option.split_asm if_split_asm dest: check_denies)
  have gate: "check_role_gates ctx req (requires_role_for rule) = None"
    using ev al vis pat by (auto split: option.split_asm if_split_asm dest: check_denies)
  have "under_limit env (rate_limit_per_session rs) ctx"
    using ev al vis pat gate by (auto simp: under_limit_def split: sum.split_asm if_split_asm)
  with id rule vis fn pat gate show ?thesis
    by (auto simp: static_permits_def rule_permits_def policy_simps)
qed

lemma static_permits_more_roles:
  assumes "more_roles c c'" and "static_permits env rs c req rule"
  shows "static_permits env rs c' req rule"
  using assms more_roles_fields [OF assms(1)] more_roles_attr [OF assms(1)]
    gates_open_more_roles [OF assms(1)]
  by (auto simp: static_permits_def rule_permits_def under_limit_def)

lemma static_call_allowedE:
  assumes "static_evaluate_tool_call env rs ctx req = Inr d" and "allowed d"
  obtains rule where "static_permits env rs ctx req rule"
  using static_evaluate_allowedD [of env rs ctx req d] assms
  by (auto simp: static_evaluate_tool_call_def)

section \<open>Properties\<close>

text \<open>
  C8: The static engine allows a call exactly when the permission hierarchy, stated without any
  order of checks, holds for it; the decision then is the plain approval, or the approval that
  is pending human review when the rule lists the function.
\<close>

theorem static_engine_allows_iff:
  "static_evaluate_tool_call env rs ctx req = Inr d \<and> allowed d \<longleftrightarrow>
     (\<exists>rule. static_permits env rs ctx req rule \<and>
        d = grant (function_name req \<in> set (requires_approval_functions rule)))"
proof
  assume L: "static_evaluate_tool_call env rs ctx req = Inr d \<and> allowed d"
  then obtain rule where "static_permits env rs ctx req rule" by (auto elim: static_call_allowedE)
  with static_evaluate_permitted [OF this] L
  show "\<exists>rule. static_permits env rs ctx req rule \<and>
      d = grant (function_name req \<in> set (requires_approval_functions rule))"
    by (auto simp: static_evaluate_tool_call_def)
next
  assume "\<exists>rule. static_permits env rs ctx req rule \<and>
    d = grant (function_name req \<in> set (requires_approval_functions rule))"
  then show "static_evaluate_tool_call env rs ctx req = Inr d \<and> allowed d"
    using static_evaluate_permitted by (auto simp: static_evaluate_tool_call_def)
qed

lemma static_evaluate_raises:
  assumes "static_evaluate env rs ctx req = Inl e"
  shows "call_counter env (session_id ctx) = Inl e \<or>
         (\<exists>rule p pats pat. map_of (tools rs) (tool_name req) = Some rule \<and>
            (p, pats) \<in> set (parameter_deny_patterns rule) \<and> pat \<in> set pats \<and>
            re_search env pat (py_str (dict_get (parameters req) p)) = Inl e)"
  using assms
  by (auto simp: static_evaluate_def split: option.split_asm if_split_asm sum.split_asm
        dest!: check_deny_patterns_raises)

text \<open>
  The static engine raises nothing but \<open>PolicyEvaluationError\<close> (cancellation apart), and only
  when the injected call counter raises or a deny-pattern of the requested tool does not compile;
  every other input ends in a decision.
\<close>

theorem static_engine_errors:
  assumes "static_evaluate_tool_call env rs ctx req = Inl e" and "is_Exception e"
  shows "exn_class e = PolicyEvaluationError \<and>
         (\<exists>e'. call_counter env (session_id ctx) = Inl e' \<or>
           (\<exists>rule p pats pat. map_of (tools rs) (tool_name req) = Some rule \<and>
              (p, pats) \<in> set (parameter_deny_patterns rule) \<and> pat \<in> set pats \<and>
              re_search env pat (py_str (dict_get (parameters req) p)) = Inl e'))"
proof -
  have "\<exists>e'. static_evaluate env rs ctx req = Inl e'"
    using assms(1)
    by (auto simp: static_evaluate_tool_call_def wrap_policy_errors_def split: sum.split_asm)
  then show ?thesis
    using static_evaluate_raises wrap_policy_errors_class assms
    by (fastforce simp: static_evaluate_tool_call_def)
qed

theorem static_engine_errors_witness:
  "let env = sample_env\<lparr>call_counter := (\<lambda>s. Inl (Exn OSError ''down''))\<rparr>;
       e = Exn PolicyEvaluationError ''down'';
       req = sample_request ''search_tool'' ''query'' []
   in static_evaluate_tool_call env example_ruleset (sample_context [''Analyst'']) req = Inl e \<and>
      (\<exists>e'. call_counter env ''s1'' = Inl e' \<or>
        (\<exists>rule p pats pat. map_of (tools example_ruleset) (tool_name req) = Some rule \<and>
           (p, pats) \<in> set (parameter_deny_patterns rule) \<and> pat \<in> set pats \<and>
           re_search env pat (py_str (dict_get (parameters req) p)) = Inl e'))"
proof -
  let ?env = "sample_env\<lparr>call_counter := (\<lambda>s. Inl (Exn OSError ''down''))\<rparr>"
  have run: "static_evaluate_tool_call ?env example_ruleset (sample_context [''Analyst''])
      (sample_request ''search_tool'' ''query'' []) = Inl (Exn PolicyEvaluationError ''down'')"
    by code_simp
  have "is_Exception (Exn PolicyEvaluationError ''down'')" by (simp add: is_Exception_def)
  from static_engine_errors [OF run this] run show ?thesis
    by (simp add: Let_def sample_context_def)
qed

end
