(* ===== verification/DbPolicy.thy ===== *)
theory DbPolicy
  imports StaticPolicy
begin

text \<open>
  The L2 policy engine: the SQLite rule store of \<^verbatim>\<open>policy/db_rules.py\<close> and \<open>DbBackedPolicyEngine\<close>
  of \<^verbatim>\<open>policy/db_engine.py\<close>. A database is a record of its seven tables, each a list of rows.
  SQL leaves the order of a query's rows open; the model returns them in table order, and the
  seeded tables hold them in the order of insertion. A query is a filter over the rows. A
  connection is a database or the exception that every query on it raises. \<open>ruleset_of_db\<close> reads a database as a static
  rule set, and the engine is shown to be the global role check followed by the static engine
  on that rule set.
\<close>

record db_tables =
  t_roles :: "(string \<times> int) list"
  t_tools :: "string list"
  t_visibility :: "(string \<times> string) list"
  t_functions :: "(string \<times> string \<times> int) list"
  t_deny_patterns :: "(string \<times> string \<times> string) list"
  t_role_gates :: "(string \<times> string \<times> string \<times> string) list"
  t_settings :: "(string \<times> string) list"

type_synonym db_conn = "db_tables result"

definition DEFAULT_RATE_LIMIT :: int where "DEFAULT_RATE_LIMIT = 50"

definition DEFAULT_IDENTITY_FIELDS :: "string list" where
  "DEFAULT_IDENTITY_FIELDS = [''user_id'', ''agent_id'', ''roles'']"

definition empty_db :: db_tables where
  "empty_db = \<lparr>t_roles = [], t_tools = [], t_visibility = [], t_functions = [],
               t_deny_patterns = [], t_role_gates = [], t_settings = []\<rparr>"

text \<open>\<open>CREATE TABLE IF NOT EXISTS\<close> keeps the tables of an existing database file.\<close>

definition connect :: "db_tables option \<Rightarrow> db_tables" where
  "connect file = (case file of None \<Rightarrow> empty_db | Some db \<Rightarrow> db)"

definition seed_example :: "db_tables \<Rightarrow> db_tables" where
  "seed_example db =
     db\<lparr>t_roles := map (\<lambda>r. (r, 1)) [''AgentExecutor'', ''DeployEngineer'', ''ProductionAdmin''],
        t_tools := [''search_tool'', ''sql_tool'', ''deploy_tool''],
        t_functions :=
          [(''search_tool'', ''query'', 0), (''sql_tool'', ''ExecuteReadOnlyQuery'', 0),
           (''sql_tool'', ''UpdateCustomerRecord'', 0), (''deploy_tool'', ''deploy'', 1)],
        t_visibility :=
          [(''deploy_tool'', ''DeployEngineer''), (''deploy_tool'', ''ProductionAdmin'')],
        t_deny_patterns := [(''sql_tool'', ''query'', ''(?i)(DROP|DELETE|TRUNCATE|ALTER)'')],
        t_role_gates := [(''deploy_tool'', ''environment'', ''production'', ''ProductionAdmin'')],
        t_settings :=
          [(''rate_limit_per_session'', str_int DEFAULT_RATE_LIMIT),
           (''identity_required_fields'', join '','' DEFAULT_IDENTITY_FIELDS)]\<rparr>"


section \<open>Queries of DbRuleStore\<close>

definition db_active_roles :: "db_tables \<Rightarrow> string set" where
  "db_active_roles db = set (map fst (filter (\<lambda>(r, active). active = 1) (t_roles db)))"

definition db_tool_exists :: "db_tables \<Rightarrow> string \<Rightarrow> bool" where
  "db_tool_exists db tool = (filter (\<lambda>t. t = tool) (t_tools db) \<noteq> [])"

definition db_tool_names :: "db_tables \<Rightarrow> string list" where
  "db_tool_names db = t_tools db"

definition db_visibility_roles :: "db_tables \<Rightarrow> string \<Rightarrow> string list" where
  "db_visibility_roles db tool = map snd (filter (\<lambda>(t, r). t = tool) (t_visibility db))"

definition db_allowed_functions :: "db_tables \<Rightarrow> string \<Rightarrow> string list" where
  "db_allowed_functions db tool =
     map (\<lambda>(t, f, a). f) (filter (\<lambda>(t, f, a). t = tool) (t_functions db))"

definition db_requires_approval :: "db_tables \<Rightarrow> string \<Rightarrow> string \<Rightarrow> bool" where
  "db_requires_approval db tool fn =
     (case find (\<lambda>(t, f, a). t = tool \<and> f = fn) (t_functions db) of
        None \<Rightarrow> False
      | Some (t, f, a) \<Rightarrow> a \<noteq> 0)"

definition db_deny_patterns :: "db_tables \<Rightarrow> string \<Rightarrow> string list dict" where
  "db_deny_patterns db tool =
     fold (\<lambda>(t, p, pat) result. dict_append p pat result)
       (filter (\<lambda>(t, p, pat). t = tool) (t_deny_patterns db)) []"

definition db_role_gates :: "db_tables \<Rightarrow> string \<Rightarrow> string list dict" where
  "db_role_gates db tool =
     fold (\<lambda>(t, p, v, r) result. dict_append (p @ ''='' @ v) r result)
       (filter (\<lambda>(t, p, v, r). t = tool) (t_role_gates db)) []"

definition db_rate_limit :: "db_tables \<Rightarrow> int result" where
  "db_rate_limit db =
     (case map_of (t_settings db) ''rate_limit_per_session'' of
        None \<Rightarrow> Inr DEFAULT_RATE_LIMIT
      | Some v \<Rightarrow>
          (case py_int v of
             None \<Rightarrow> Inl (Exn ValueError (''invalid literal for int() with base 10: '' @ repr_str v))
           | Some n \<Rightarrow> Inr n))"

fun split_on :: "char \<Rightarrow> string \<Rightarrow> string \<Rightarrow> string list" where
  "split_on c acc [] = [rev acc]"
| "split_on c acc (x # xs) = (if x = c then rev acc # split_on c [] xs else split_on c (x # acc) xs)"

definition db_identity_required_fields :: "db_tables \<Rightarrow> string list" where
  "db_identity_required_fields db =
     (case map_of (t_settings db) ''identity_required_fields'' of
        None \<Rightarrow> DEFAULT_IDENTITY_FIELDS
      | Some v \<Rightarrow> split_on (CHR '','') [] v)"


section \<open>The engine\<close>

definition db_evaluate ::
  "policy_env \<Rightarrow> db_conn \<Rightarrow> execution_context \<Rightarrow> tool_request \<Rightarrow> policy_decision result"
where
  "db_evaluate env conn ctx req =
     (case check_identity env ctx [''user_id'', ''agent_id'', ''roles''] of
        Some d \<Rightarrow> Inr d
      | None \<Rightarrow>
     (case conn of
        Inl e \<Rightarrow> Inl e
      | Inr store \<Rightarrow>
     (if db_active_roles store \<inter> set (roles ctx) = {}
      then Inr (deny (''no active platform role for context roles '' @ str_list (roles ctx)
                      @ '': global RBAC denied''))
      else if \<not> db_tool_exists store (tool_name req)
      then Inr (deny (''tool not permitted: '' @ squote (tool_name req)))
      else if db_visibility_roles store (tool_name req) \<noteq> []
              \<and> \<not> any_role (db_visibility_roles store (tool_name req)) ctx
      then Inr (deny (''tool '' @ squote (tool_name req) @ '' requires one of roles ''
                      @ str_list (db_visibility_roles store (tool_name req))))
      else if function_name req \<notin> set (db_allowed_functions store (tool_name req))
      then Inr (deny (''function not permitted: ''
                      @ squote (tool_name req @ ''.'' @ function_name req)))
      else
     (case check_deny_patterns env req (db_deny_patterns store (tool_name req)) of
        Inl e \<Rightarrow> Inl e
      | Inr (Some d) \<Rightarrow> Inr d
      | Inr None \<Rightarrow>
     (case check_role_gates ctx req (db_role_gates store (tool_name req)) of
        Some d \<Rightarrow> Inr d
      | None \<Rightarrow>
     (case call_counter env (session_id ctx) of
        Inl e \<Rightarrow> Inl e
      | Inr current_calls \<Rightarrow>
     (case db_rate_limit store of
        Inl e \<Rightarrow> Inl e
      | Inr rate_limit \<Rightarrow>
     (if rate_limit \<le> current_calls
      then Inr (deny (''rate limit exceeded: '' @ str_int current_calls @ '' >= ''
                      @ str_int rate_limit))
      else if db_requires_approval store (tool_name req) (function_name req)
      then Inr pending_approval
      else Inr checks_passed))))))))"

definition db_evaluate_tool_call ::
  "policy_env \<Rightarrow> db_conn \<Rightarrow> execution_context \<Rightarrow> tool_request \<Rightarrow> policy_decision result"
where
  "db_evaluate_tool_call env conn ctx req = wrap_policy_errors (db_evaluate env conn ctx req)"


section \<open>A database read as a static rule set\<close>

definition rule_of_db :: "db_tables \<Rightarrow> string \<Rightarrow> tool_rule" where
  "rule_of_db db t =
     \<lparr>rule_tool_name = t,
      allowed_functions = db_allowed_functions db t,
      visible_to_roles = db_visibility_roles db t,
      parameter_deny_patterns = db_deny_patterns db t,
      requires_role_for = db_role_gates db t,
      requires_approval_functions = filter (db_requires_approval db t) (db_allowed_functions db t)\<rparr>"

definition ruleset_of_db :: "db_tables \<Rightarrow> int \<Rightarrow> policy_rule_set" where
  "ruleset_of_db db limit =
     \<lparr>identity_required_fields = default_identity_fields,
      allowed_tools = db_tool_names db,
      tools = map (\<lambda>t. (t, rule_of_db db t)) (db_tool_names db),
      rate_limit_per_session = limit\<rparr>"

lemma db_tool_exists_iff [policy_simps]: "db_tool_exists db t \<longleftrightarrow> t \<in> set (db_tool_names db)"
  by (auto simp: db_tool_exists_def db_tool_names_def filter_empty_conv)

lemma map_of_pairs: "map_of (map (\<lambda>t. (t, f t)) ts) t = (if t \<in> set ts then Some (f t) else None)"
  by (induction ts) auto

lemma lookup_rule_of_db:
  "(if t \<in> set (allowed_tools (ruleset_of_db db n)) then map_of (tools (ruleset_of_db db n)) t
    else None) = (if db_tool_exists db t then Some (rule_of_db db t) else None)"
  by (simp add: ruleset_of_db_def map_of_pairs db_tool_exists_iff)

text \<open>The functional refinement: global role check, then the static engine on the same data.\<close>

lemma db_evaluate_refines:
  assumes lim: "db_rate_limit db = Inr limit"
    and id: "check_identity env ctx default_identity_fields = None"
    and act: "db_active_roles db \<inter> set (roles ctx) \<noteq> {}"
  shows "db_evaluate env (Inr db) ctx req = static_evaluate env (ruleset_of_db db limit) ctx req"
proof (cases "db_tool_exists db (tool_name req)")
  case False
  then show ?thesis
    using id act unfolding db_evaluate_def static_evaluate_def lookup_rule_of_db
    by (simp add: ruleset_of_db_def default_identity_fields_def)
next
  case True
  have fields: "identity_required_fields (ruleset_of_db db limit) = default_identity_fields"
    "rate_limit_per_session (ruleset_of_db db limit) = limit"
    by (simp_all add: ruleset_of_db_def)
  have approval: "function_name req \<in> set (allowed_functions (rule_of_db db (tool_name req))) \<Longrightarrow>
      function_name req \<in> set (requires_approval_functions (rule_of_db db (tool_name req)))
        \<longleftrightarrow> db_requires_approval db (tool_name req) (function_name req)"
    by (simp add: rule_of_db_def)
  show ?thesis
    using id act True approval unfolding db_evaluate_def static_evaluate_def lookup_rule_of_db fields
    by (simp add: default_identity_fields_def rule_of_db_def lim
          cong: if_cong option.case_cong sum.case_cong)
qed

definition db_permits ::
  "policy_env \<Rightarrow> db_tables \<Rightarrow> execution_context \<Rightarrow> tool_request \<Rightarrow> bool" where
  "db_permits env db ctx req \<longleftrightarrow>
     db_active_roles db \<inter> set (roles ctx) \<noteq> {} \<and>
     (\<exists>limit. db_rate_limit db = Inr limit \<and>
        static_permits env (ruleset_of_db db limit) ctx req (rule_of_db db (tool_name req)))"

lemma static_permits_db_rule:
  "static_permits env (ruleset_of_db db n) ctx req rule \<Longrightarrow> rule = rule_of_db db (tool_name req)"
  by (auto simp: static_permits_def ruleset_of_db_def map_of_pairs split: if_splits)

lemma static_permits_db_identity:
  "static_permits env (ruleset_of_db db n) ctx req rule \<Longrightarrow>
     check_identity env ctx default_identity_fields = None"
  using static_permits_checks(1) [of env "ruleset_of_db db n" ctx req rule]
  by (simp add: ruleset_of_db_def)

lemma db_evaluate_permitted:
  assumes "db_permits env db ctx req"
  shows "db_evaluate env (Inr db) ctx req =
           Inr (grant (db_requires_approval db (tool_name req) (function_name req)))"
proof -
  from assms obtain limit where lim: "db_rate_limit db = Inr limit"
    and act: "db_active_roles db \<inter> set (roles ctx) \<noteq> {}"
    and per: "static_permits env (ruleset_of_db db limit) ctx req (rule_of_db db (tool_name req))"
    by (auto simp: db_permits_def)
  have "function_name req \<in> set (db_allowed_functions db (tool_name req))"
    using per by (simp add: static_permits_def rule_permits_def rule_of_db_def)
  moreover have "db_evaluate env (Inr db) ctx req =
      Inr (grant (function_name req
        \<in> set (requires_approval_functions (rule_of_db db (tool_name req)))))"
    using db_evaluate_refines [OF lim static_permits_db_identity [OF per] act]
      static_evaluate_permitted [OF per] by simp
  ultimately show ?thesis by (simp add: rule_of_db_def)
qed

lemma db_evaluate_reaches_limit:
  assumes "db_evaluate env (Inr db) ctx req = Inr d" and "allowed d"
  shows "\<exists>limit. db_rate_limit db = Inr limit"
    and "check_identity env ctx default_identity_fields = None"
    and "db_active_roles db \<inter> set (roles ctx) \<noteq> {}"
proof -
  note ev = assms(1) [unfolded db_evaluate_def sum.case]
  show id: "check_identity env ctx default_identity_fields = None"
    using ev assms(2)
    by (cases "check_identity env ctx default_identity_fields")
       (auto simp: default_identity_fields_def simp del: check_identity.simps dest: check_denies)
  note ev = ev [folded default_identity_fields_def, unfolded id option.case]
  show act: "db_active_roles db \<inter> set (roles ctx) \<noteq> {}"
    using ev assms(2) by (auto split: if_split_asm)
  show "\<exists>limit. db_rate_limit db = Inr limit"
    using ev assms(2) act
    by (cases "db_rate_limit db")
       (auto split: if_split_asm sum.split_asm option.split_asm dest: check_denies)
qed

lemma db_evaluate_allowedD:
  assumes ev: "db_evaluate env conn ctx req = Inr d" and al: "allowed d"
  shows "\<exists>db. conn = Inr db \<and> db_permits env db ctx req"
proof (cases conn)
  case (Inl e)
  with ev al show ?thesis
    by (auto simp: db_evaluate_def simp del: check_identity.simps
          split: option.split_asm dest: check_denies)
next
  case (Inr db)
  note reach = db_evaluate_reaches_limit [OF ev [unfolded Inr] al]
  from reach(1) obtain limit where lim: "db_rate_limit db = Inr limit" ..
  have "static_evaluate env (ruleset_of_db db limit) ctx req = Inr d"
    using db_evaluate_refines [OF lim reach(2,3)] ev Inr by simp
  from static_evaluate_allowedD [OF this al] obtain rule
    where "static_permits env (ruleset_of_db db limit) ctx req rule" ..
  with static_permits_db_rule [OF this] Inr lim reach(3) show ?thesis
    by (auto simp: db_permits_def)
qed

lemma db_permits_more_roles:
  assumes "more_roles c c'" and "db_permits env db c req"
  shows "db_permits env db c' req"
  using assms(2) more_roles_fields(1) [OF assms(1)] static_permits_more_roles [OF assms(1)]
  by (fastforce simp: db_permits_def)

lemma db_call_allowedE:
  assumes "db_evaluate_tool_call env conn ctx req = Inr d" and "allowed d"
  obtains db where "conn = Inr db" and "db_permits env db ctx req"
  using db_evaluate_allowedD [of env conn ctx req d] assms by (auto simp: db_evaluate_tool_call_def)

lemma db_call_denied_inactive:
  assumes "check_identity env ctx default_identity_fields = None"
    and "db_active_roles db \<inter> set (roles ctx) = {}"
  shows "db_evaluate_tool_call env (Inr db) ctx req =
           Inr (deny (''no active platform role for context roles '' @ str_list (roles ctx)
                      @ '': global RBAC denied''))"
  using assms
  by (simp add: db_evaluate_tool_call_def db_evaluate_def default_identity_fields_def
        wrap_policy_errors_def del: check_identity.simps)

lemma db_call_identity:
  assumes "check_identity env ctx default_identity_fields = Some d"
  shows "db_evaluate_tool_call env conn ctx req = Inr d"
  using assms
  by (simp add: db_evaluate_tool_call_def db_evaluate_def default_identity_fields_def
        wrap_policy_errors_def del: check_identity.simps)

lemma static_call_identity:
  assumes "check_identity env ctx (identity_required_fields rs) = Some d"
  shows "static_evaluate_tool_call env rs ctx req = Inr d"
  using assms by (simp add: static_evaluate_tool_call_def static_evaluate_def wrap_policy_errors_def)

lemma db_call_refines:
  assumes "db_rate_limit db = Inr limit"
  shows "db_evaluate_tool_call env (Inr db) ctx req =
    (if check_identity env ctx default_identity_fields = None \<and> db_active_roles db \<inter> set (roles ctx) = {}
     then Inr (deny (''no active platform role for context roles '' @ str_list (roles ctx)
                     @ '': global RBAC denied''))
     else static_evaluate_tool_call env (ruleset_of_db db limit) ctx req)"
proof (cases "check_identity env ctx default_identity_fields")
  case (Some d)
  have "identity_required_fields (ruleset_of_db db limit) = default_identity_fields"
    by (simp add: ruleset_of_db_def)
  with Some show ?thesis
    using db_call_identity [OF Some] static_call_identity [of env ctx "ruleset_of_db db limit" d] by simp
next
  case None
  then show ?thesis
    using db_call_denied_inactive [OF None] db_evaluate_refines [OF assms None]
    by (auto simp: db_evaluate_tool_call_def static_evaluate_tool_call_def)
qed


section \<open>Properties\<close>

text \<open>
  C9: The database engine allows a call exactly when the connection works, one of the context's
  roles is an active platform role, and the permission hierarchy holds for the rules as they are
  in the tables at that moment; approval is pending exactly for the functions flagged in
  \<open>tool_functions\<close>.
\<close>

theorem db_engine_allows_iff:
  "db_evaluate_tool_call env conn ctx req = Inr d \<and> allowed d \<longleftrightarrow>
     (\<exists>db. conn = Inr db \<and> db_permits env db ctx req \<and>
        d = grant (db_requires_approval db (tool_name req) (function_name req)))"
proof
  assume L: "db_evaluate_tool_call env conn ctx req = Inr d \<and> allowed d"
  then obtain db where "conn = Inr db" "db_permits env db ctx req" by (auto elim: db_call_allowedE)
  with db_evaluate_permitted [OF this(2)] L
  show "\<exists>db. conn = Inr db \<and> db_permits env db ctx req \<and>
      d = grant (db_requires_approval db (tool_name req) (function_name req))"
    by (auto simp: db_evaluate_tool_call_def)
next
  assume "\<exists>db. conn = Inr db \<and> db_permits env db ctx req \<and>
    d = grant (db_requires_approval db (tool_name req) (function_name req))"
  then show "db_evaluate_tool_call env conn ctx req = Inr d \<and> allowed d"
    using db_evaluate_permitted by (auto simp: db_evaluate_tool_call_def)
qed


lemma seed_rate_limit: "db_rate_limit (seed_example db) = Inr 50"
proof -
  have "db_rate_limit (seed_example db) = db_rate_limit (seed_example empty_db)"
    by (simp add: db_rate_limit_def seed_example_def)
  also have "\<dots> = Inr 50" by code_simp
  finally show ?thesis .
qed

lemma seed_ruleset: "ruleset_of_db (seed_example db) 50 = example_ruleset"
proof -
  have "ruleset_of_db (seed_example db) 50 = ruleset_of_db (seed_example empty_db) 50"
    by (simp add: ruleset_of_db_def rule_of_db_def seed_example_def db_tool_names_def
          db_allowed_functions_def db_visibility_roles_def db_deny_patterns_def db_role_gates_def
          db_requires_approval_def fun_eq_iff)
  also have "\<dots> = example_ruleset" by code_simp
  finally show ?thesis .
qed

text \<open>
  On the seeded rule store the two tiers agree: for every environment, context and request
  the database engine gives the result of the static engine on \<^verbatim>\<open>configs/policy.example.yaml\<close>,
  with the one exception that a context with a complete identity but no active platform role is
  denied by the global role check first.
\<close>

theorem seeded_tiers_agree:
  "db_evaluate_tool_call env (Inr (seed_example db)) ctx req =
     (if check_identity env ctx default_identity_fields = None \<and>
         {''AgentExecutor'', ''DeployEngineer'', ''ProductionAdmin''} \<inter> set (roles ctx) = {}
      then Inr (deny (''no active platform role for context roles '' @ str_list (roles ctx)
                      @ '': global RBAC denied''))
      else static_evaluate_tool_call env example_ruleset ctx req)"
proof -
  have "db_active_roles (seed_example db) = {''AgentExecutor'', ''DeployEngineer'', ''ProductionAdmin''}"
    by (simp add: db_active_roles_def seed_example_def)
  then show ?thesis using db_call_refines [OF seed_rate_limit] by (simp add: seed_ruleset)
qed

end
