(* ===== verification/Registry.thy ===== *)
theory Registry
  imports DbPolicy
begin

text \<open>
  The tool registries: \<open>StaticToolRegistry\<close> of \<^verbatim>\<open>registry/static_registry.py\<close> and
  \<open>DbBackedToolRegistry\<close> of \<^verbatim>\<open>registry/db_registry.py\<close>. A registry says which tools and functions
  a context is shown. The locale \<open>governed_access\<close> is the contract of \<^verbatim>\<open>interfaces/registry.py\<close>
  together with \<^verbatim>\<open>interfaces/policy_engine.py\<close>: what the engine allows the registry shows, and
  neither shrinks when a context gains roles. Both tiers interpret it.
\<close>

record tool_manifest =
  m_tool_name :: string
  m_functions :: "string list"

definition static_is_tool_visible ::
  "policy_rule_set \<Rightarrow> string \<Rightarrow> execution_context \<Rightarrow> bool" where
  "static_is_tool_visible ruleset tool ctx =
     (if tool \<notin> set (allowed_tools ruleset) then False
      else (case map_of (tools ruleset) tool of
              None \<Rightarrow> False
            | Some rule \<Rightarrow>
                (if visible_to_roles rule = [] then True else any_role (visible_to_roles rule) ctx)))"

fun static_manifests ::
  "policy_rule_set \<Rightarrow> execution_context \<Rightarrow> string list \<Rightarrow> tool_manifest list" where
  "static_manifests ruleset ctx [] = []"
| "static_manifests ruleset ctx (t # ts) =
     (case map_of (tools ruleset) t of
        None \<Rightarrow> static_manifests ruleset ctx ts
      | Some rule \<Rightarrow>
          (if \<not> static_is_tool_visible ruleset t ctx then static_manifests ruleset ctx ts
           else \<lparr>m_tool_name = t, m_functions = allowed_functions rule\<rparr>
                # static_manifests ruleset ctx ts))"

definition static_get_permitted_tools ::
  "policy_rule_set \<Rightarrow> execution_context \<Rightarrow> tool_manifest list result" where
  "static_get_permitted_tools ruleset ctx =
     Inr (static_manifests ruleset ctx (allowed_tools ruleset))"

definition db_is_tool_visible :: "db_tables \<Rightarrow> string \<Rightarrow> execution_context \<Rightarrow> bool" where
  "db_is_tool_visible store tool ctx =
     (if db_active_roles store \<inter> set (roles ctx) = {} then False
      else if \<not> db_tool_exists store tool then False
      else if db_visibility_roles store tool = [] then True
      else any_role (db_visibility_roles store tool) ctx)"

fun db_manifests :: "db_tables \<Rightarrow> execution_context \<Rightarrow> string list \<Rightarrow> tool_manifest list" where
  "db_manifests store ctx [] = []"
| "db_manifests store ctx (t # ts) =
     (if \<not> db_is_tool_visible store t ctx then db_manifests store ctx ts
      else \<lparr>m_tool_name = t, m_functions = db_allowed_functions store t\<rparr>
           # db_manifests store ctx ts)"

definition db_get_permitted_tools ::
  "db_conn \<Rightarrow> execution_context \<Rightarrow> tool_manifest list result" where
  "db_get_permitted_tools conn ctx =
     (case conn of
        Inl e \<Rightarrow> Inl e
      | Inr store \<Rightarrow> Inr (db_manifests store ctx (db_tool_names store)))"


section \<open>What is listed\<close>

lemma static_manifests_set:
  "m \<in> set (static_manifests rs ctx ts) \<longleftrightarrow>
     m_tool_name m \<in> set ts \<and> static_is_tool_visible rs (m_tool_name m) ctx \<and>
     (\<exists>rule. map_of (tools rs) (m_tool_name m) = Some rule \<and>
        m = \<lparr>m_tool_name = m_tool_name m, m_functions = allowed_functions rule\<rparr>)"
  by (induction ts) (auto split: option.splits)

lemma db_manifests_set:
  "m \<in> set (db_manifests db ctx ts) \<longleftrightarrow>
     m_tool_name m \<in> set ts \<and> db_is_tool_visible db (m_tool_name m) ctx \<and>
     m = \<lparr>m_tool_name = m_tool_name m, m_functions = db_allowed_functions db (m_tool_name m)\<rparr>"
  by (induction ts) auto

lemma static_visible_more_roles:
  "more_roles c c' \<Longrightarrow> static_is_tool_visible rs t c \<Longrightarrow> static_is_tool_visible rs t c'"
  using more_roles_fields(1)
  by (fastforce simp: static_is_tool_visible_def any_role_iff split: option.splits if_splits)

lemma db_visible_more_roles:
  "more_roles c c' \<Longrightarrow> db_is_tool_visible db t c \<Longrightarrow> db_is_tool_visible db t c'"
  using more_roles_fields(1)
  by (fastforce simp: db_is_tool_visible_def any_role_iff split: if_splits)

lemma static_permits_visible:
  "static_permits env rs ctx req rule \<Longrightarrow> static_is_tool_visible rs (tool_name req) ctx"
  by (auto simp: static_permits_def rule_permits_def static_is_tool_visible_def any_role_iff)

lemma db_permits_visible:
  "db_permits env db ctx req \<Longrightarrow> db_is_tool_visible db (tool_name req) ctx"
  by (auto simp: db_permits_def static_permits_def rule_permits_def db_is_tool_visible_def
        any_role_iff rule_of_db_def ruleset_of_db_def db_tool_exists_iff)

lemma db_permits_function:
  "db_permits env db ctx req \<Longrightarrow>
     function_name req \<in> set (db_allowed_functions db (tool_name req)) \<and>
     tool_name req \<in> set (db_tool_names db)"
  by (auto simp: db_permits_def static_permits_def rule_permits_def rule_of_db_def ruleset_of_db_def)


section \<open>The contract of an engine and a registry over the same rules\<close>

locale governed_access =
  fixes decide :: "execution_context \<Rightarrow> tool_request \<Rightarrow> policy_decision result"
    and offered :: "execution_context \<Rightarrow> tool_manifest list result"
  assumes allowed_offered:
      "decide c r = Inr d \<Longrightarrow> allowed d \<Longrightarrow>
         \<exists>ms. offered c = Inr ms \<and>
           (\<exists>m \<in> set ms. m_tool_name m = tool_name r \<and> function_name r \<in> set (m_functions m))"
    and decide_more_roles:
      "more_roles c c' \<Longrightarrow> decide c r = Inr d \<Longrightarrow> allowed d \<Longrightarrow> decide c' r = Inr d"
    and offered_more_roles:
      "more_roles c c' \<Longrightarrow> offered c = Inr ms \<Longrightarrow>
         \<exists>ms'. offered c' = Inr ms' \<and> set ms \<subseteq> set ms'"
begin

lemma hidden_denied:
  assumes "offered c = Inr ms"
    and "\<And>m. m \<in> set ms \<Longrightarrow> m_tool_name m = tool_name r \<Longrightarrow> function_name r \<notin> set (m_functions m)"
    and "decide c r = Inr d"
  shows "\<not> allowed d"
  using allowed_offered [OF assms(3)] assms(1,2) by auto

lemma allowed_still_offered:
  assumes "more_roles c c'" and "decide c r = Inr d" and "allowed d"
  shows "\<exists>ms. offered c' = Inr ms \<and>
           (\<exists>m \<in> set ms. m_tool_name m = tool_name r \<and> function_name r \<in> set (m_functions m))"
  using allowed_offered [OF decide_more_roles [OF assms]] assms(3) by blast

end

interpretation static_tier: governed_access
  "static_evaluate_tool_call env rs" "static_get_permitted_tools rs" for env rs
proof (unfold_locales, goal_cases)
  case (1 c r d)
  then obtain rule where per: "static_permits env rs c r rule"
    by (auto elim: static_call_allowedE)
  let ?m = "\<lparr>m_tool_name = tool_name r, m_functions = allowed_functions rule\<rparr>"
  have "?m \<in> set (static_manifests rs c (allowed_tools rs))"
    using per static_permits_visible [OF per] by (simp add: static_manifests_set static_permits_def)
  moreover have "function_name r \<in> set (m_functions ?m)"
    using per by (simp add: static_permits_def rule_permits_def)
  ultimately show ?case by (force simp: static_get_permitted_tools_def)
next
  case (2 c c' r d)
  then obtain rule where per: "static_permits env rs c r rule"
    by (auto elim: static_call_allowedE)
  with 2 show ?case
    using static_evaluate_permitted [OF per]
      static_evaluate_permitted [OF static_permits_more_roles [OF 2(1) per]]
    by (simp add: static_evaluate_tool_call_def)
next
  case (3 c c' ms)
  then show ?case
    using static_visible_more_roles [OF 3(1)]
    by (auto simp: static_get_permitted_tools_def static_manifests_set)
qed

interpretation db_tier: governed_access
  "db_evaluate_tool_call env conn" "db_get_permitted_tools conn" for env conn
proof (unfold_locales, goal_cases)
  case (1 c r d)
  then obtain db where db: "conn = Inr db" "db_permits env db c r"
    by (auto elim: db_call_allowedE)
  let ?m = "\<lparr>m_tool_name = tool_name r, m_functions = db_allowed_functions db (tool_name r)\<rparr>"
  have "?m \<in> set (db_manifests db c (db_tool_names db))"
    using db_permits_visible [OF db(2)] db_permits_function [OF db(2)] by (simp add: db_manifests_set)
  then show ?case
    using db(1) db_permits_function [OF db(2)] by (force simp: db_get_permitted_tools_def)
next
  case (2 c c' r d)
  then obtain db where db: "conn = Inr db" "db_permits env db c r"
    by (auto elim: db_call_allowedE)
  with 2 show ?case
    using db_evaluate_permitted [OF db(2)]
      db_evaluate_permitted [OF db_permits_more_roles [OF 2(1) db(2)]]
    by (simp add: db_evaluate_tool_call_def)
next
  case (3 c c' ms)
  then show ?case
    using db_visible_more_roles [OF 3(1)]
    by (auto simp: db_get_permitted_tools_def db_manifests_set split: sum.splits)
qed

section \<open>Properties\<close>

text \<open>
  What the static registry does not offer, the static engine does not allow: if no listed
  manifest for the requested tool names the requested function, every decision on the call is a
  denial.
\<close>

theorem static_unlisted_denied:
  assumes "static_get_permitted_tools rs ctx = Inr ms"
    and "\<forall>m \<in> set ms. m_tool_name m = tool_name req \<longrightarrow> function_name req \<notin> set (m_functions m)"
    and "static_evaluate_tool_call env rs ctx req = Inr d"
  shows "\<not> allowed d"
  using static_tier.hidden_denied [OF assms(1) _ assms(3)] assms(2) by blast

theorem static_unlisted_denied_witness:
  "\<not> allowed (deny (''tool '' @ squote ''deploy_tool'' @ '' requires one of roles ''
                    @ str_list [''DeployEngineer'', ''ProductionAdmin'']))"
proof (rule static_unlisted_denied [where rs = example_ruleset and env = sample_env
      and ctx = "sample_context [''Analyst'']" and req = "sample_request ''deploy_tool'' ''deploy'' []"])
  show "static_get_permitted_tools example_ruleset (sample_context [''Analyst'']) =
      Inr [\<lparr>m_tool_name = ''search_tool'', m_functions = [''query'']\<rparr>,
           \<lparr>m_tool_name = ''sql_tool'', m_functions = [''ExecuteReadOnlyQuery'', ''UpdateCustomerRecord'']\<rparr>]"
    by code_simp
  show "static_evaluate_tool_call sample_env example_ruleset (sample_context [''Analyst''])
      (sample_request ''deploy_tool'' ''deploy'' []) =
      Inr (deny (''tool '' @ squote ''deploy_tool'' @ '' requires one of roles ''
                 @ str_list [''DeployEngineer'', ''ProductionAdmin'']))"
    by code_simp
qed (simp add: sample_request_def)

text \<open>
  The same for the database tier: what \<open>DbBackedToolRegistry\<close> does not offer to a context,
  \<open>DbBackedPolicyEngine\<close> over the same store does not allow it.
\<close>

theorem db_unlisted_denied:
  assumes "db_get_permitted_tools conn ctx = Inr ms"
    and "\<forall>m \<in> set ms. m_tool_name m = tool_name req \<longrightarrow> function_name req \<notin> set (m_functions m)"
    and "db_evaluate_tool_call env conn ctx req = Inr d"
  shows "\<not> allowed d"
  using db_tier.hidden_denied [OF assms(1) _ assms(3)] assms(2) by blast

theorem db_unlisted_denied_witness:
  "\<not> allowed (deny (''no active platform role for context roles '' @ str_list [''Analyst'']
                    @ '': global RBAC denied''))"
proof (rule db_unlisted_denied [where conn = "Inr (seed_example (connect None))" and env = sample_env
      and ctx = "sample_context [''Analyst'']" and req = "sample_request ''search_tool'' ''query'' []"])
  show "db_get_permitted_tools (Inr (seed_example (connect None))) (sample_context [''Analyst'']) =
      Inr []"
    by code_simp
  show "db_evaluate_tool_call sample_env (Inr (seed_example (connect None)))
      (sample_context [''Analyst'']) (sample_request ''search_tool'' ''query'' []) =
      Inr (deny (''no active platform role for context roles '' @ str_list [''Analyst'']
                 @ '': global RBAC denied''))"
    by code_simp
qed simp

text \<open>
  More roles never take anything away, in either tier: a call that is allowed stays allowed
  with the same decision (the same approval requirement included) when the context gains roles,
  and the registry still offers its function.
\<close>

theorem more_roles_keep_access:
  assumes "more_roles c c'" and "allowed d"
  shows "(static_evaluate_tool_call env rs c req = Inr d \<longrightarrow>
            static_evaluate_tool_call env rs c' req = Inr d \<and>
            (\<exists>ms. static_get_permitted_tools rs c' = Inr ms \<and>
              (\<exists>m \<in> set ms. m_tool_name m = tool_name req \<and> function_name req \<in> set (m_functions m)))) \<and>
         (db_evaluate_tool_call env conn c req = Inr d \<longrightarrow>
            db_evaluate_tool_call env conn c' req = Inr d \<and>
            (\<exists>ms. db_get_permitted_tools conn c' = Inr ms \<and>
              (\<exists>m \<in> set ms. m_tool_name m = tool_name req \<and> function_name req \<in> set (m_functions m))))"
  using static_tier.decide_more_roles [OF assms(1)] static_tier.allowed_still_offered [OF assms(1)]
    db_tier.decide_more_roles [OF assms(1)] db_tier.allowed_still_offered [OF assms(1)] assms(2)
  by auto

theorem more_roles_keep_access_witness:
  "static_evaluate_tool_call sample_env example_ruleset
     (sample_context [''DeployEngineer'', ''ProductionAdmin''])
     (sample_request ''deploy_tool'' ''deploy'' []) = Inr pending_approval \<and>
   db_evaluate_tool_call sample_env (Inr (seed_example (connect None)))
     (sample_context [''DeployEngineer'', ''ProductionAdmin''])
     (sample_request ''deploy_tool'' ''deploy'' []) = Inr pending_approval"
proof -
  have more: "more_roles (sample_context [''DeployEngineer''])
      (sample_context [''DeployEngineer'', ''ProductionAdmin''])"
    by (simp add: more_roles_def sample_context_def)
  have "static_evaluate_tool_call sample_env example_ruleset (sample_context [''DeployEngineer''])
      (sample_request ''deploy_tool'' ''deploy'' []) = Inr pending_approval"
    by code_simp
  moreover have "db_evaluate_tool_call sample_env (Inr (seed_example (connect None)))
      (sample_context [''DeployEngineer'']) (sample_request ''deploy_tool'' ''deploy'' []) =
      Inr pending_approval"
    by code_simp
  ultimately show ?thesis
    using more_roles_keep_access [OF more allowed_outcomes(1)] by blast
qed

end
