(* ===== verification/Regex.thy ===== *)
theory Regex
  imports Prelude
begin

text \<open>
  The part of Python's \<open>re\<close> module that the guardrail patterns use: sets of characters, sequence,
  ordered alternative, greedy repetition with bounds, and the word boundary. A position is the
  character before it (none at the start) and the text after it. \<open>matches\<close> lists the positions where
  a match from a given position may end, in the order in which the backtracking matcher tries them;
  the first is the match. \<open>re_search\<close> is \<open>Pattern.search\<close> as a truth value, \<open>re_sub\<close> is
  \<open>Pattern.sub\<close> with a constant replacement.

  An unbounded repetition may take as many rounds as there are characters left; this is enough
  because every repeated part of the patterns consumes a character (\<open>reps_enough\<close>).
\<close>

section \<open>Characters\<close>

definition code :: "char \<Rightarrow> nat" where "code c = of_char c"

definition between_chars :: "char \<Rightarrow> char \<Rightarrow> char \<Rightarrow> bool" where
  "between_chars a b c \<longleftrightarrow> code a \<le> code c \<and> code c \<le> code b"

definition is_lower :: "char \<Rightarrow> bool" where "is_lower c = between_chars (CHR ''a'') (CHR ''z'') c"
definition is_upper :: "char \<Rightarrow> bool" where "is_upper c = between_chars (CHR ''A'') (CHR ''Z'') c"

text \<open>\<open>str.isalnum()\<close> below code point 256, which with the underscore is the class \<open>\w\<close>.\<close>

definition is_word :: "char \<Rightarrow> bool" where
  "is_word c \<longleftrightarrow>
     is_lower c \<or> is_upper c \<or> is_digit c \<or> c = CHR ''_'' \<or>
     (let n = code c in
        n \<in> {170, 178, 179, 181, 185, 186, 188, 189, 190} \<or> (192 \<le> n \<and> n \<noteq> 215 \<and> n \<noteq> 247))"

text \<open>ASCII letters in lower and upper case, other characters unchanged.\<close>

definition to_lower :: "char \<Rightarrow> char" where
  "to_lower c = (if is_upper c then char_of (code c + 32) else c)"

definition to_upper :: "char \<Rightarrow> char" where
  "to_upper c = (if is_lower c then char_of (code c - 32) else c)"


section \<open>Expressions and the matcher\<close>

datatype rx =
    REps
  | RSet "char \<Rightarrow> bool"
  | RSeq rx rx
  | RAlt rx rx
  | RRep nat "nat option" rx
  | RWordB

type_synonym pos = "char option \<times> string"

fun word_at :: "char option \<Rightarrow> bool" where
  "word_at None = False"
| "word_at (Some c) = is_word c"

definition next_char :: "string \<Rightarrow> char option" where
  "next_char cs = (case cs of [] \<Rightarrow> None | c # _ \<Rightarrow> Some c)"

text \<open>Greedy repetition of a part: at least \<open>lo\<close> and at most \<open>n\<close> rounds, more rounds first.\<close>

fun reps :: "(pos \<Rightarrow> pos list) \<Rightarrow> nat \<Rightarrow> nat \<Rightarrow> pos \<Rightarrow> pos list" where
  "reps f lo n q =
     (if n = 0 then (if lo = 0 then [q] else [])
      else concat (map (reps f (lo - 1) (n - 1)) (f q)) @ (if lo = 0 then [q] else []))"

declare reps.simps [simp del]

primrec matches :: "rx \<Rightarrow> pos \<Rightarrow> pos list" where
  "matches REps q = [q]"
| "matches (RSet P) q =
     (case snd q of [] \<Rightarrow> [] | c # cs \<Rightarrow> (if P c then [(Some c, cs)] else []))"
| "matches (RSeq r s) q = concat (map (matches s) (matches r q))"
| "matches (RAlt r s) q = matches r q @ matches s q"
| "matches (RRep lo hi r) q =
     reps (matches r) lo (case hi of Some n \<Rightarrow> n | None \<Rightarrow> length (snd q)) q"
| "matches RWordB q = (if word_at (fst q) \<noteq> word_at (next_char (snd q)) then [q] else [])"

fun search_from :: "rx \<Rightarrow> char option \<Rightarrow> string \<Rightarrow> bool" where
  "search_from r p [] = (matches r (p, []) \<noteq> [])"
| "search_from r p (c # cs) = (matches r (p, c # cs) \<noteq> [] \<or> search_from r (Some c) cs)"

definition re_search :: "rx \<Rightarrow> string \<Rightarrow> bool" where
  "re_search r s = search_from r None s"

text \<open>
  Substitution scans the original text; after an empty match the next character is copied.
\<close>

function sub_from :: "rx \<Rightarrow> string \<Rightarrow> pos \<Rightarrow> string" where
  "sub_from r rep q =
     (case matches r q of
        [] \<Rightarrow> (case snd q of [] \<Rightarrow> [] | c # cs \<Rightarrow> c # sub_from r rep (Some c, cs))
      | q' # _ \<Rightarrow>
          (if length (snd q') < length (snd q) then rep @ sub_from r rep q'
           else rep @ (case snd q of [] \<Rightarrow> [] | c # cs \<Rightarrow> c # sub_from r rep (Some c, cs))))"
  by pat_completeness auto

termination
  by (relation "measure (\<lambda>(r, rep, q). length (snd q))") auto

declare sub_from.simps [simp del]

definition re_sub :: "rx \<Rightarrow> string \<Rightarrow> string \<Rightarrow> string" where
  "re_sub r rep s = sub_from r rep (None, s)"

text \<open>Ways to write patterns.\<close>

fun rseq :: "rx list \<Rightarrow> rx" where
  "rseq [] = REps"
| "rseq [r] = r"
| "rseq (r # s # rs) = RSeq r (rseq (s # rs))"

fun ralt :: "rx list \<Rightarrow> rx" where
  "ralt [] = RSet (\<lambda>c. False)"
| "ralt [r] = r"
| "ralt (r # s # rs) = RAlt r (ralt (s # rs))"

definition rlit :: "string \<Rightarrow> rx" where
  "rlit s = rseq (map (\<lambda>a. RSet (\<lambda>c. c = a)) s)"

text \<open>A literal under \<open>(?i)\<close>, written in lower case.\<close>

definition rlit_i :: "string \<Rightarrow> rx" where
  "rlit_i s = rseq (map (\<lambda>a. RSet (\<lambda>c. to_lower c = a)) s)"

definition rany :: "string \<Rightarrow> rx" where "rany s = RSet (\<lambda>c. c \<in> set s)"
definition ropt :: "rx \<Rightarrow> rx" where "ropt r = RRep 0 (Some 1) r"
definition rstar :: "rx \<Rightarrow> rx" where "rstar r = RRep 0 None r"
definition rplus :: "rx \<Rightarrow> rx" where "rplus r = RRep 1 None r"
definition rtimes :: "nat \<Rightarrow> rx \<Rightarrow> rx" where "rtimes n r = RRep n (Some n) r"
definition rdigit :: rx where "rdigit = RSet is_digit"
definition rspace :: rx where "rspace = RSet is_space"

end
