(* ===== verification/RegexSub.thy ===== *)
theory RegexSub
  imports Regex
begin

text \<open>
  Facts on matching and substitution: what a match consumes, that a match depends on the text
  around it only through word boundaries (\<open>matches_local\<close>), and when a substitution leaves no match
  of an expression behind (\<open>sub_clean\<close>).
\<close>

section \<open>Repetition\<close>

fun rounds :: "(pos \<Rightarrow> pos list) \<Rightarrow> nat \<Rightarrow> pos \<Rightarrow> pos \<Rightarrow> bool" where
  "rounds f k q q' = (if k = 0 then q' = q else (\<exists>q1 \<in> set (f q). rounds f (k - 1) q1 q'))"

declare rounds.simps [simp del]

lemma rounds_0 [simp]: "rounds f 0 q q' \<longleftrightarrow> q' = q"
  by (simp add: rounds.simps [of f 0])

lemma rounds_Suc [simp]: "rounds f (Suc k) q q' \<longleftrightarrow> (\<exists>q1 \<in> set (f q). rounds f k q1 q')"
  by (simp add: rounds.simps [of f "Suc k"])

lemma in_reps: "q' \<in> set (reps f lo n q) \<longleftrightarrow> (\<exists>k. lo \<le> k \<and> k \<le> n \<and> rounds f k q q')"
proof (induction n arbitrary: lo q)
  case 0
  then show ?case by (auto simp: reps.simps [of f lo 0])
next
  case (Suc n)
  have "(\<exists>k. lo \<le> k \<and> k \<le> Suc n \<and> rounds f k q q') \<longleftrightarrow>
      (lo = 0 \<and> q' = q) \<or> (\<exists>k. lo - 1 \<le> k \<and> k \<le> n \<and> rounds f (Suc k) q q')"
  proof
    assume "\<exists>k. lo \<le> k \<and> k \<le> Suc n \<and> rounds f k q q'"
    then obtain k where k: "lo \<le> k" "k \<le> Suc n" "rounds f k q q'" by blast
    then show "(lo = 0 \<and> q' = q) \<or> (\<exists>k. lo - 1 \<le> k \<and> k \<le> n \<and> rounds f (Suc k) q q')"
    proof (cases k)
      case (Suc j)
      with k have "lo - 1 \<le> j \<and> j \<le> n \<and> rounds f (Suc j) q q'" by auto
      then show ?thesis by blast
    qed simp
  next
    assume "(lo = 0 \<and> q' = q) \<or> (\<exists>k. lo - 1 \<le> k \<and> k \<le> n \<and> rounds f (Suc k) q q')"
    then show "\<exists>k. lo \<le> k \<and> k \<le> Suc n \<and> rounds f k q q'"
    proof
      assume "lo = 0 \<and> q' = q"
      then show ?thesis by (intro exI [of _ 0]) simp
    next
      assume "\<exists>k. lo - 1 \<le> k \<and> k \<le> n \<and> rounds f (Suc k) q q'"
      then obtain k where "lo - 1 \<le> k" "k \<le> n" "rounds f (Suc k) q q'" by blast
      then show ?thesis by (intro exI [of _ "Suc k"]) simp
    qed
  qed
  then show ?case
    by (auto simp: reps.simps [of f lo "Suc n"] Suc.IH)
qed


section \<open>What a match consumes\<close>

text \<open>From one position to another by consuming a text.\<close>

definition moves :: "pos \<Rightarrow> string \<Rightarrow> pos \<Rightarrow> bool" where
  "moves q u q' \<longleftrightarrow> snd q = u @ snd q' \<and> fst q' = (if u = [] then fst q else Some (last u))"

lemma moves_refl [simp]: "moves q [] q" by (simp add: moves_def)

lemma moves_trans: "moves q u q' \<Longrightarrow> moves q' v q'' \<Longrightarrow> moves q (u @ v) q''"
  by (auto simp: moves_def)

primrec alphabet :: "rx \<Rightarrow> char \<Rightarrow> bool" where
  "alphabet REps c = False"
| "alphabet (RSet P) c = P c"
| "alphabet (RSeq r s) c = (alphabet r c \<or> alphabet s c)"
| "alphabet (RAlt r s) c = (alphabet r c \<or> alphabet s c)"
| "alphabet (RRep lo hi r) c = alphabet r c"
| "alphabet RWordB c = False"

text \<open>Every match holds a character that satisfies the predicate.\<close>

primrec needs :: "(char \<Rightarrow> bool) \<Rightarrow> rx \<Rightarrow> bool" where
  "needs P REps = False"
| "needs P (RSet Q) = (\<forall>c. Q c \<longrightarrow> P c)"
| "needs P (RSeq r s) = (needs P r \<or> needs P s)"
| "needs P (RAlt r s) = (needs P r \<and> needs P s)"
| "needs P (RRep lo hi r) = (lo \<noteq> 0 \<and> needs P r)"
| "needs P RWordB = False"

abbreviation consumes :: "rx \<Rightarrow> bool" where "consumes \<equiv> needs (\<lambda>c. True)"

text \<open>Repeated parts without an upper bound consume a character in each round.\<close>

primrec well :: "rx \<Rightarrow> bool" where
  "well REps = True"
| "well (RSet P) = True"
| "well (RSeq r s) = (well r \<and> well s)"
| "well (RAlt r s) = (well r \<and> well s)"
| "well (RRep lo hi r) = (well r \<and> (hi = None \<longrightarrow> consumes r))"
| "well RWordB = True"

lemma rounds_moves:
  assumes "\<And>q q'. q' \<in> set (f q) \<Longrightarrow> \<exists>u. moves q u q' \<and> list_all A u \<and> (N \<longrightarrow> list_ex P u)"
    and "rounds f k q q'"
  shows "\<exists>u. moves q u q' \<and> list_all A u \<and> (N \<and> k \<noteq> 0 \<longrightarrow> list_ex P u)"
  using assms(2)
proof (induction k arbitrary: q)
  case 0
  then show ?case by (intro exI [of _ "[]"]) simp
next
  case (Suc k)
  then obtain q1 where q1: "q1 \<in> set (f q)" "rounds f k q1 q'" by auto
  obtain u where "moves q u q1" "list_all A u" "N \<longrightarrow> list_ex P u" using assms(1) [OF q1(1)] by blast
  moreover obtain v where "moves q1 v q'" "list_all A v" using Suc.IH [OF q1(2)] by blast
  ultimately show ?case by (intro exI [of _ "u @ v"]) (auto intro: moves_trans)
qed

lemma matches_moves:
  "q' \<in> set (matches r q) \<Longrightarrow>
     \<exists>u. moves q u q' \<and> list_all (alphabet r) u \<and> (needs P r \<longrightarrow> list_ex P u)"
proof (induction r arbitrary: q q')
  case (RSet Q)
  then show ?case
    by (cases "snd q") (auto simp: moves_def split: if_splits intro!: exI [of _ "[hd (snd q)]"])
next
  case (RSeq r s)
  then obtain q1 where q1: "q1 \<in> set (matches r q)" "q' \<in> set (matches s q1)" by auto
  obtain u where "moves q u q1" "list_all (alphabet r) u" "needs P r \<longrightarrow> list_ex P u"
    using RSeq.IH(1) [OF q1(1)] by blast
  moreover obtain v where "moves q1 v q'" "list_all (alphabet s) v" "needs P s \<longrightarrow> list_ex P v"
    using RSeq.IH(2) [OF q1(2)] by blast
  ultimately show ?case
    by (intro exI [of _ "u @ v"]) (auto intro: moves_trans simp: list_all_iff)
next
  case (RAlt r s)
  then show ?case by (fastforce simp: list_all_iff)
next
  case (RRep lo hi r)
  then obtain k where k: "lo \<le> k" "rounds (matches r) k q q'" by (auto simp: in_reps)
  from rounds_moves [OF RRep.IH this(2)] obtain u where
    "moves q u q'" "list_all (alphabet r) u" "needs P r \<and> k \<noteq> 0 \<longrightarrow> list_ex P u" by blast
  with k(1) show ?case by (intro exI [of _ u]) (auto simp: list_all_iff)
qed (auto intro!: exI [of _ "[]"] split: if_splits)

lemma consumes_shorter:
  assumes "consumes r" and "q' \<in> set (matches r q)"
  shows "length (snd q') < length (snd q)"
  using matches_moves [OF assms(2), of "\<lambda>c. True"] assms(1) by (auto simp: moves_def list_ex_iff)

lemma rounds_length:
  assumes "\<And>q q'. q' \<in> set (f q) \<Longrightarrow> length (snd q') < length (snd q)" and "rounds f k q q'"
  shows "k + length (snd q') \<le> length (snd q)"
  using assms(2)
proof (induction k arbitrary: q)
  case (Suc k)
  then obtain q1 where "q1 \<in> set (f q)" "rounds f k q1 q'" by auto
  with Suc.IH assms(1) show ?case by fastforce
qed simp

text \<open>The bound on the rounds of an unbounded repetition loses no match.\<close>

lemma reps_enough:
  assumes "consumes r"
  shows "q' \<in> set (matches (RRep lo None r) q) \<longleftrightarrow> (\<exists>k. lo \<le> k \<and> rounds (matches r) k q q')"
  using rounds_length [of "matches r", OF consumes_shorter [OF assms]]
  by (fastforce simp: in_reps)


section \<open>Matches depend on their surroundings through word boundaries only\<close>

lemma next_char_simps [simp]: "next_char [] = None" "next_char (c # cs) = Some c"
  by (simp_all add: next_char_def)

lemma next_char_append: "next_char (u @ v) = (if u = [] then next_char v else Some (hd u))"
  by (cases u) simp_all

text \<open>Expressions without word boundaries.\<close>

primrec ctx_free :: "rx \<Rightarrow> bool" where
  "ctx_free REps = True"
| "ctx_free (RSet P) = True"
| "ctx_free (RSeq r s) = (ctx_free r \<and> ctx_free s)"
| "ctx_free (RAlt r s) = (ctx_free r \<and> ctx_free s)"
| "ctx_free (RRep lo hi r) = ctx_free r"
| "ctx_free RWordB = False"

text \<open>
  The same remaining text \<open>w\<close> before two continuations, after characters of the same kind; with
  \<open>cf\<close> (for expressions without word boundaries) after any characters.
\<close>

definition alike :: "bool \<Rightarrow> string \<Rightarrow> string \<Rightarrow> string \<Rightarrow> pos \<Rightarrow> pos \<Rightarrow> bool" where
  "alike cf v v' w q q' \<longleftrightarrow> snd q = w @ v \<and> snd q' = w @ v' \<and> (cf \<or> word_at (fst q) = word_at (fst q'))"

lemma rounds_local:
  assumes step: "\<And>u w q q2 q'. q2 \<in> set (f q) \<Longrightarrow> alike cf v v' u q q' \<Longrightarrow> snd q2 = w @ v \<Longrightarrow>
      \<exists>q2'. q2' \<in> set (f q') \<and> alike cf v v' w q2 q2'"
    and moves: "\<And>q q2. q2 \<in> set (f q) \<Longrightarrow> \<exists>u. moves q u q2"
    and "rounds f k q q2" and "alike cf v v' u q q'" and "snd q2 = w @ v"
  shows "\<exists>q2'. rounds f k q' q2' \<and> alike cf v v' w q2 q2'"
  using assms(3-5)
proof (induction k arbitrary: q q' u)
  case 0
  then show ?case by (auto simp: alike_def)
next
  case (Suc k)
  then obtain q1 where q1: "q1 \<in> set (f q)" "rounds f k q1 q2" by auto
  obtain x where "moves q1 x q2"
    using rounds_moves [OF _ q1(2), where A = "\<lambda>c. True" and N = False and P = "\<lambda>c. True"] moves
    by (auto simp: list_all_iff)
  then have "snd q1 = (x @ w) @ v" using Suc.prems(3) by (simp add: moves_def)
  from step [OF q1(1) Suc.prems(2) this] obtain q1' where
    "q1' \<in> set (f q')" "alike cf v v' (x @ w) q1 q1'" by blast
  moreover obtain q2' where "rounds f k q1' q2'" "alike cf v v' w q2 q2'"
    using Suc.IH [OF q1(2) \<open>alike cf v v' (x @ w) q1 q1'\<close> Suc.prems(3)] by blast
  ultimately show ?case unfolding rounds_Suc by blast
qed

lemma matches_local:
  assumes "cf \<or> word_at (next_char v) = word_at (next_char v')"
  shows "well r \<and> (cf \<longrightarrow> ctx_free r) \<Longrightarrow> q2 \<in> set (matches r q) \<Longrightarrow> alike cf v v' u q q' \<Longrightarrow> snd q2 = w @ v \<Longrightarrow>
           \<exists>q2'. q2' \<in> set (matches r q') \<and> alike cf v v' w q2 q2'"
proof (induction r arbitrary: q q2 q' u w)
  case REps
  then show ?case by (auto simp: alike_def)
next
  case (RSet P)
  obtain c cs where c: "snd q = c # cs" "P c" "q2 = (Some c, cs)"
    using RSet.prems(2) by (cases "snd q") (auto split: if_splits)
  have "u = c # w" using c RSet.prems(3,4) by (cases u) (auto simp: alike_def)
  then show ?case using c RSet.prems(3) by (auto simp: alike_def)
next
  case (RSeq r s)
  then obtain q1 where q1: "q1 \<in> set (matches r q)" "q2 \<in> set (matches s q1)" by auto
  obtain x where "moves q1 x q2" using matches_moves [OF q1(2)] by blast
  then have "snd q1 = (x @ w) @ v" using RSeq.prems(4) by (simp add: moves_def)
  from RSeq.IH(1) [OF _ q1(1) RSeq.prems(3) this] RSeq.prems(1) obtain q1' where
    q1': "q1' \<in> set (matches r q')" "alike cf v v' (x @ w) q1 q1'" by auto
  from RSeq.IH(2) [OF _ q1(2) q1'(2) RSeq.prems(4)] RSeq.prems(1) q1'(1) show ?case by auto
next
  case (RAlt r s)
  from RAlt.prems(2) consider "q2 \<in> set (matches r q)" | "q2 \<in> set (matches s q)" by auto
  then show ?case
  proof cases
    case 1
    from RAlt.IH(1) [OF _ this RAlt.prems(3,4)] RAlt.prems(1) show ?thesis by auto
  next
    case 2
    from RAlt.IH(2) [OF _ this RAlt.prems(3,4)] RAlt.prems(1) show ?thesis by auto
  qed
next
  case (RRep lo hi r)
  then obtain k where k: "lo \<le> k" "k \<le> (case hi of Some n \<Rightarrow> n | None \<Rightarrow> length (snd q))"
    "rounds (matches r) k q q2" by (auto simp: in_reps)
  have "\<exists>q2'. rounds (matches r) k q' q2' \<and> alike cf v v' w q2 q2'"
  proof (rule rounds_local [OF _ _ k(3) RRep.prems(3,4)])
    fix u w q q2 q'
    assume "q2 \<in> set (matches r q)" "alike cf v v' u q q'" "snd q2 = w @ v"
    with RRep.IH RRep.prems(1) show "\<exists>q2'. q2' \<in> set (matches r q') \<and> alike cf v v' w q2 q2'" by auto
  next
    fix q q2
    assume "q2 \<in> set (matches r q)"
    then show "\<exists>u. moves q u q2" using matches_moves by blast
  qed
  then obtain q2' where q2': "rounds (matches r) k q' q2'" "alike cf v v' w q2 q2'" by blast
  moreover have "k \<le> (case hi of Some n \<Rightarrow> n | None \<Rightarrow> length (snd q'))"
  proof (cases hi)
    case None
    then have "consumes r" using RRep.prems(1) by simp
    from rounds_length [OF consumes_shorter [OF this] q2'(1)] None show ?thesis by simp
  qed (use k(2) in simp)
  ultimately show ?case using k(1) unfolding matches.simps in_reps by blast
next
  case RWordB
  then show ?case
    using assms by (auto simp: alike_def next_char_append split: if_splits)
qed

section \<open>Searching\<close>

definition after :: "char option \<Rightarrow> string \<Rightarrow> char option" where
  "after p u = (if u = [] then p else Some (last u))"

lemma after_simps [simp]: "after p [] = p" "after p (u @ [c]) = Some c"
  by (simp_all add: after_def)

lemma after_Cons: "after p (c # u) = after (Some c) u"
  by (simp add: after_def)

lemma search_suffix: "search_from r (after p x) y \<Longrightarrow> search_from r p (x @ y)"
  by (induction x arbitrary: p) (auto simp: after_Cons)

lemma search_appendD:
  "search_from r p (x @ y) \<Longrightarrow>
     (\<exists>x1 x2 p1. x = x1 @ x2 \<and> x2 \<noteq> [] \<and> matches r (p1, x2 @ y) \<noteq> []) \<or>
     search_from r (after p x) y"
proof (induction x arbitrary: p)
  case (Cons c x)
  show ?case
  proof (cases "matches r (p, c # x @ y) = []")
    case True
    with Cons.prems have "search_from r (Some c) (x @ y)" by simp
    from Cons.IH [OF this] show ?thesis by (metis after_Cons append_Cons)
  next
    case False
    then show ?thesis by (metis append_Cons append_Nil list.distinct(1))
  qed
qed simp

lemma search_here: "matches r (p, s) \<noteq> [] \<Longrightarrow> search_from r p s"
  by (cases s) auto

lemma consumes_at_end: "consumes r \<Longrightarrow> matches r (p, []) = []"
  using consumes_shorter [of r _ "(p, [])"] by (cases "matches r (p, [])") fastforce+


section \<open>Substitution\<close>

lemma sub_match:
  assumes "consumes r" and "matches r q = q' # qs"
  shows "sub_from r rep q = rep @ sub_from r rep q'"
proof -
  have "length (snd q') < length (snd q)" using consumes_shorter [OF assms(1)] assms(2) by simp
  then show ?thesis using assms(2) by (subst sub_from.simps) simp
qed

lemma sub_copy:
  "matches r (p, c # cs) = [] \<Longrightarrow> sub_from r rep (p, c # cs) = c # sub_from r rep (Some c, cs)"
  by (subst sub_from.simps) simp

lemma sub_end: "matches r (p, []) = [] \<Longrightarrow> sub_from r rep (p, []) = []"
  by (subst sub_from.simps) simp

text \<open>Text without a match is unchanged.\<close>

lemma sub_unchanged: "\<not> search_from r p s \<Longrightarrow> sub_from r rep (p, s) = s"
  by (induction s arbitrary: p) (auto simp: sub_copy sub_end)

text \<open>An initial part of the result that avoids the replacement was copied.\<close>

lemma sub_prefix:
  assumes "consumes r" and "rep \<noteq> []" and "sub_from r rep (p, s) = v @ w" and "hd rep \<notin> set v"
  shows "\<exists>s'. s = v @ s' \<and> w = sub_from r rep (after p v, s')"
  using assms(3,4)
proof (induction v arbitrary: p s)
  case Nil
  then show ?case by simp
next
  case (Cons c v)
  have none: "matches r (p, s) = []"
  proof (rule ccontr)
    assume "matches r (p, s) \<noteq> []"
    then obtain q' qs where "matches r (p, s) = q' # qs" by (cases "matches r (p, s)") auto
    from sub_match [OF assms(1) this, of rep] Cons.prems show False using assms(2) by (cases rep) auto
  qed
  obtain cs where s: "s = c # cs"
    using Cons.prems(1) none by (cases s) (auto simp: sub_copy sub_end)
  then have "sub_from r rep (Some c, cs) = v @ w" using Cons.prems(1) none by (simp add: sub_copy)
  from Cons.IH [OF this] Cons.prems(2) s show ?case by (simp add: after_Cons)
qed

lemma sub_next:
  assumes "consumes r" and "rep \<noteq> []"
  shows "next_char (sub_from r rep (p, s)) =
           (if matches r (p, s) = [] then next_char s else Some (hd rep))"
proof (cases "matches r (p, s)")
  case Nil
  then show ?thesis by (cases s) (simp_all add: sub_copy sub_end)
next
  case (Cons q' qs)
  from sub_match [OF assms(1) this] show ?thesis using assms(2) Cons by (simp add: next_char_append)
qed


section \<open>Substitutions that leave no match\<close>

text \<open>Matches begin and end at word boundaries.\<close>

definition guarded :: "rx \<Rightarrow> bool" where
  "guarded r \<longleftrightarrow>
     (\<forall>q. \<forall>q' \<in> set (matches r q).
        word_at (fst q) \<noteq> word_at (next_char (snd q)) \<and>
        word_at (fst q') \<noteq> word_at (next_char (snd q')))"

lemma guardedD:
  assumes "guarded r" and "q' \<in> set (matches r q)"
  shows "word_at (fst q) \<noteq> word_at (next_char (snd q))"
    and "word_at (fst q') \<noteq> word_at (next_char (snd q'))"
  using assms unfolding guarded_def by blast+

text \<open>The replacement is marked off by characters that neither belong to words nor to matches of
  \<open>r\<close>, and lacks a character that every match has.\<close>

definition marked_off :: "rx \<Rightarrow> string \<Rightarrow> bool" where
  "marked_off r rep \<longleftrightarrow>
     rep \<noteq> [] \<and> \<not> is_word (hd rep) \<and> \<not> is_word (last rep) \<and>
     \<not> alphabet r (hd rep) \<and> \<not> alphabet r (last rep) \<and> needs (\<lambda>c. c \<notin> set rep) r"

lemma needs_mono: "needs P r \<Longrightarrow> (\<And>c. P c \<Longrightarrow> Q c) \<Longrightarrow> needs Q r"
  by (induction r) auto

lemma marked_off_consumes: "marked_off r rep \<Longrightarrow> consumes r"
  by (auto simp: marked_off_def intro: needs_mono)

text \<open>No match starts inside a replacement.\<close>

lemma no_match_in_rep:
  assumes "marked_off r rep" and "rep = x1 @ x2" and "x2 \<noteq> []"
  shows "matches r (p, x2 @ y) = []"
proof (rule ccontr)
  assume "matches r (p, x2 @ y) \<noteq> []"
  then obtain q' where "q' \<in> set (matches r (p, x2 @ y))" by (meson list.set_sel(1))
  from matches_moves [OF this, of "\<lambda>c. c \<notin> set rep"] obtain u where
    u: "moves (p, x2 @ y) u q'" "list_all (alphabet r) u" "list_ex (\<lambda>c. c \<notin> set rep) u"
    using assms(1) by (auto simp: marked_off_def)
  have eq: "x2 @ y = u @ snd q'" using u(1) by (simp add: moves_def)
  have "last x2 = last rep" using assms(2,3) by simp
  then have "last x2 \<notin> set u" using u(2) assms(1) by (auto simp: marked_off_def list_all_iff)
  moreover have "\<exists>z. u = x2 @ z \<or> x2 = u @ z"
    using eq by (auto simp: append_eq_append_conv2)
  ultimately obtain z where "x2 = u @ z" using assms(3) by auto
  with u(3) assms(2) show False by (auto simp: list_ex_iff)
qed

lemma rep_append_clean:
  assumes "marked_off r rep" and "\<not> search_from r (Some (last rep)) y"
  shows "\<not> search_from r p (rep @ y)"
proof
  assume "search_from r p (rep @ y)"
  then consider x1 x2 p1 where "rep = x1 @ x2" "x2 \<noteq> []" "matches r (p1, x2 @ y) \<noteq> []"
    | "search_from r (after p rep) y"
    using search_appendD [of r p rep y] by blast
  then show False
  proof cases
    case 1
    with no_match_in_rep [OF assms(1) 1(1,2), of p1 y] show False by simp
  next
    case 2
    with assms show False by (simp add: after_def marked_off_def)
  qed
qed

lemma local_word_left:
  assumes "guarded r" and "q2 \<in> set (matches r (p', c # out))"
    and "word_at p = word_at p' \<or> (\<not> word_at p' \<and> word_at p \<noteq> is_word c)"
  shows "word_at p' = word_at p"
  using guardedD(1) [OF assms(1,2)] assms(3) by auto

lemma local_word_right:
  assumes "guarded r1" and "guarded r2" and "consumes r2" and "rep \<noteq> []" and "\<not> is_word (hd rep)"
    and "q2 \<in> set (matches r1 q)" and "snd q2 = sub_from r2 rep (fst q2, s')"
  shows "word_at (next_char (snd q2)) = word_at (next_char s')"
proof (cases "matches r2 (fst q2, s')")
  case Nil
  then show ?thesis using sub_next [OF assms(3,4), of "fst q2" s'] assms(7) by simp
next
  case (Cons q' qs)
  then have "next_char (snd q2) = Some (hd rep)"
    using sub_next [OF assms(3,4), of "fst q2" s'] assms(7) by simp
  moreover have "word_at (fst q2) \<noteq> word_at (next_char s')"
    using guardedD(1) [OF assms(2), of q' "(fst q2, s')"] Cons by simp
  ultimately show ?thesis using guardedD(2) [OF assms(1,6)] assms(5) by auto
qed

text \<open>A copied character starts a match in the result only if it did so in the original.\<close>

lemma copied_no_match:
  assumes "well r1" and "marked_off r1 rep" and "consumes r2"
    and kind: "ctx_free r1 \<or> guarded r1 \<and> guarded r2"
    and inv: "ctx_free r1 \<or> word_at p = word_at p' \<or> (\<not> word_at p' \<and> word_at p \<noteq> is_word c)"
    and none: "matches r1 (p, c # cs) = []"
  shows "matches r1 (p', c # sub_from r2 rep (Some c, cs)) = []"
proof (rule ccontr)
  let ?out = "c # sub_from r2 rep (Some c, cs)"
  assume "matches r1 (p', ?out) \<noteq> []"
  then obtain q2 where q2: "q2 \<in> set (matches r1 (p', ?out))" by (meson list.set_sel(1))
  have rep: "rep \<noteq> []" "\<not> is_word (hd rep)" "\<not> alphabet r1 (hd rep)"
    using assms(2) by (auto simp: marked_off_def)
  obtain u where u: "moves (p', ?out) u q2" "list_all (alphabet r1) u" "list_ex (\<lambda>c. True) u"
    using matches_moves [OF q2, of "\<lambda>c. True"] marked_off_consumes [OF assms(2)] by blast
  then obtain u' where u': "u = c # u'" "sub_from r2 rep (Some c, cs) = u' @ snd q2"
    by (cases u) (auto simp: moves_def)
  have "hd rep \<notin> set u'" using u(2) u'(1) rep(3) by (auto simp: list_all_iff)
  from sub_prefix [OF assms(3) rep(1) u'(2) this] obtain s' where
    s': "cs = u' @ s'" "snd q2 = sub_from r2 rep (after (Some c) u', s')" by blast
  have "fst q2 = after (Some c) u'" using u(1) u'(1) by (auto simp: moves_def after_def)
  with s'(2) have w: "snd q2 = sub_from r2 rep (fst q2, s')" by simp
  have "ctx_free r1 \<or> word_at (next_char (snd q2)) = word_at (next_char s')"
    using local_word_right [OF _ _ assms(3) rep(1,2) q2 w] kind by blast
  moreover have "alike (ctx_free r1) (snd q2) s' u (p', ?out) (p, c # cs)"
    using local_word_left [of r1 q2 p' c] q2 kind inv u' s' by (auto simp: alike_def)
  ultimately obtain q2' where "q2' \<in> set (matches r1 (p, c # cs))"
    using matches_local [of "ctx_free r1" "snd q2" s' r1 q2 "(p', ?out)" u "(p, c # cs)" "[]"] assms(1) q2
    by auto
  with none show False by simp
qed

lemma sub_clean_from:
  assumes "well r1" and "marked_off r1 rep" and "consumes r2"
    and kind: "ctx_free r1 \<or> guarded r1 \<and> guarded r2"
  shows "r1 = r2 \<or> \<not> search_from r1 p s \<Longrightarrow>
    ctx_free r1 \<or> word_at p = word_at p' \<or> (\<not> word_at p' \<and> word_at p \<noteq> word_at (next_char s)) \<Longrightarrow>
    \<not> search_from r1 p' (sub_from r2 rep (p, s))"
proof (induction "length s" arbitrary: p p' s rule: less_induct)
  case less
  have rep: "rep \<noteq> []" "\<not> is_word (last rep)" using assms(2) by (auto simp: marked_off_def)
  show ?case
  proof (cases "matches r2 (p, s)")
    case (Cons q' qs)
    obtain m where m: "moves (p, s) m q'" using matches_moves [of q' r2 "(p, s)"] Cons by auto
    then have s: "s = m @ snd q'" "fst q' = after p m" by (simp_all add: moves_def after_def)
    have "length (snd q') < length s"
      using consumes_shorter [OF assms(3), of q' "(p, s)"] Cons by simp
    moreover have "r1 = r2 \<or> \<not> search_from r1 (fst q') (snd q')"
      using less.prems(1) search_suffix [of r1 p m "snd q'"] s by auto
    moreover have "ctx_free r1 \<or> word_at (fst q') \<noteq> word_at (next_char (snd q'))"
      using kind guardedD(2) [of r2 q' "(p, s)"] Cons by auto
    ultimately have "\<not> search_from r1 (Some (last rep)) (sub_from r2 rep (fst q', snd q'))"
      using rep(2) by (intro less.hyps) auto
    moreover have "sub_from r2 rep (p, s) = rep @ sub_from r2 rep (fst q', snd q')"
      using sub_match [OF assms(3) Cons] by simp
    ultimately show ?thesis using rep_append_clean [OF assms(2)] by simp
  next
    case Nil
    show ?thesis
    proof (cases s)
      case (Cons c cs)
      have "matches r1 (p, c # cs) = []"
        using less.prems(1) Nil Cons search_here [of r1 p s] by auto
      then have "matches r1 (p', c # sub_from r2 rep (Some c, cs)) = []"
        using copied_no_match [OF assms] less.prems(2) Cons by simp
      moreover have "\<not> search_from r1 (Some c) (sub_from r2 rep (Some c, cs))"
        using less.hyps [of cs "Some c" "Some c"] less.prems(1) Cons by auto
      ultimately show ?thesis using Nil Cons by (simp add: sub_copy)
    next
      case Nil: Nil
      then show ?thesis
        using consumes_at_end [OF marked_off_consumes [OF assms(2)]] \<open>matches r2 (p, s) = []\<close>
        by (simp add: sub_end)
    qed
  qed
qed

lemma sub_clean:
  assumes "well r1" and "marked_off r1 rep" and "consumes r2"
    and "ctx_free r1 \<or> guarded r1 \<and> guarded r2" and "r1 = r2 \<or> \<not> re_search r1 s"
  shows "\<not> re_search r1 (re_sub r2 rep s)"
  using sub_clean_from [OF assms(1-4), of None s None] assms(5) by (simp add: re_search_def re_sub_def)

end
