(* ===== verification/Guardrails.thy ===== *)
theory Guardrails
  imports RegexSub Models
begin

text \<open>
  The regular-expression guardrail: the pattern library and \<open>mask\<close> of \<^verbatim>\<open>guardrails/patterns.py\<close>, and
  \<open>RegexPIIGuardrail\<close> of \<^verbatim>\<open>guardrails/regex_pii.py\<close>.
\<close>

section \<open>Patterns\<close>

definition email_rx :: rx where
  "email_rx =
     rseq [rplus (RSet (\<lambda>c. is_lower c \<or> is_upper c \<or> is_digit c \<or> c \<in> set ''._%+-'')), rlit ''@'',
           rplus (RSet (\<lambda>c. is_lower c \<or> is_upper c \<or> is_digit c \<or> c \<in> set ''.-'')), rlit ''.'',
           RRep 2 None (RSet (\<lambda>c. is_lower c \<or> is_upper c))]"

definition phone_rx :: rx where
  "phone_rx =
     rseq [RWordB, ropt (rseq [ropt (rlit ''+''), rlit ''1'', ropt (rany ''-. '')]),
           ropt (rlit ''(''), rtimes 3 rdigit, ropt (rlit '')''), ropt (rany ''-. ''),
           rtimes 3 rdigit, ropt (rany ''-. ''), rtimes 4 rdigit, RWordB]"

definition ssn_rx :: rx where
  "ssn_rx =
     rseq [RWordB, rtimes 3 rdigit, rlit ''-'', rtimes 2 rdigit, rlit ''-'', rtimes 4 rdigit, RWordB]"

definition credit_card_rx :: rx where
  "credit_card_rx =
     rseq [RWordB, RRep 13 (Some 16) (rseq [rdigit, ropt (rany '' -'')]), RWordB]"

definition ip_octet_rx :: rx where
  "ip_octet_rx =
     ralt [rseq [rlit ''25'', RSet (between_chars (CHR ''0'') (CHR ''5''))],
           rseq [rlit ''2'', RSet (between_chars (CHR ''0'') (CHR ''4'')), rdigit],
           rseq [ropt (rany ''01''), ropt rdigit, rdigit]]"

definition ip_address_rx :: rx where
  "ip_address_rx = rseq [RWordB, rtimes 3 (rseq [ip_octet_rx, rlit ''.'']), ip_octet_rx, RWordB]"

definition PII_PATTERNS :: "rx dict" where
  "PII_PATTERNS =
     [(''email'', email_rx), (''phone'', phone_rx), (''ssn'', ssn_rx), (''credit_card'', credit_card_rx),
      (''ip_address'', ip_address_rx)]"

definition ignore_instructions_rx :: rx where
  "ignore_instructions_rx =
     rseq [RWordB, rlit_i ''ignore'', rplus rspace, ropt (rseq [rlit_i ''all'', rplus rspace]),
           ralt [rlit_i ''previous'', rlit_i ''prior'', rlit_i ''above''], rplus rspace,
           rlit_i ''instructions'', RWordB]"

definition forged_control_token_rx :: rx where
  "forged_control_token_rx =
     RAlt (rseq [rlit ''<<'', rstar rspace, ralt [rlit ''SYS'', rlit ''SYSTEM'', rlit ''INST''],
                 rstar rspace, rlit ''>>''])
          (rseq [rlit ''[['', rstar rspace, rlit ''SYSTEM'', rstar rspace, rlit '']]''])"

definition role_override_rx :: rx where
  "role_override_rx =
     rseq [RWordB, rlit_i ''you'', rplus rspace, rlit_i ''are'', rplus rspace, rlit_i ''now'',
           rplus rspace, ralt [rlit_i ''a'', rlit_i ''an''], RWordB]"

definition PROMPT_INJECTION_PATTERNS :: "rx dict" where
  "PROMPT_INJECTION_PATTERNS =
     [(''ignore_instructions'', ignore_instructions_rx),
      (''forged_control_token'', forged_control_token_rx), (''role_override'', role_override_rx)]"

definition redaction :: "string \<Rightarrow> string" where
  "redaction label = ''[REDACTED:'' @ map to_upper label @ '']''"

definition mask_with :: "rx dict \<Rightarrow> string \<Rightarrow> string" where
  "mask_with patterns text = fold (\<lambda>(label, r) masked. re_sub r (redaction label) masked) patterns text"

definition mask :: "string \<Rightarrow> string" where
  "mask text = mask_with PII_PATTERNS text"

definition find_injection_markers :: "string \<Rightarrow> string list" where
  "find_injection_markers text = map fst (filter (\<lambda>(label, r). re_search r text) PROMPT_INJECTION_PATTERNS)"


section \<open>RegexPIIGuardrail\<close>

text \<open>The two methods of \<open>BaseGuardrail\<close>.\<close>

record guardrail =
  inspect_input :: "string \<Rightarrow> execution_context \<Rightarrow> string result"
  inspect_output :: "string \<Rightarrow> execution_context \<Rightarrow> string result"

definition regex_inspect_input :: "bool \<Rightarrow> string \<Rightarrow> execution_context \<Rightarrow> string result" where
  "regex_inspect_input block_on_injection prompt ctx =
     (let markers = find_injection_markers prompt in
      if markers \<noteq> [] \<and> block_on_injection
      then Inl (Exn GuardrailViolation
                  (''input rejected: prompt-injection markers detected '' @ str_list markers
                   @ '' (session='' @ session_id ctx @ '')''))
      else Inr (mask prompt))"

definition regex_inspect_output :: "string \<Rightarrow> execution_context \<Rightarrow> string result" where
  "regex_inspect_output response ctx = Inr (mask response)"

definition regex_guardrail :: "bool \<Rightarrow> guardrail" where
  "regex_guardrail block_on_injection =
     \<lparr>inspect_input = regex_inspect_input block_on_injection, inspect_output = regex_inspect_output\<rparr>"

section \<open>Facts on the patterns\<close>

definition ends_at_boundary :: "rx \<Rightarrow> bool" where
  "ends_at_boundary r \<longleftrightarrow>
     (\<forall>q. \<forall>q' \<in> set (matches r q). word_at (fst q') \<noteq> word_at (next_char (snd q')))"

lemma ends_at_boundary_intros:
  "ends_at_boundary RWordB" "ends_at_boundary s \<Longrightarrow> ends_at_boundary (RSeq r s)"
  by (auto simp: ends_at_boundary_def split: if_splits)

lemma guarded_seq: "ends_at_boundary r \<Longrightarrow> guarded (RSeq RWordB r)"
  by (auto simp: guarded_def ends_at_boundary_def split: if_splits)

lemmas rx_defs = rlit_def rlit_i_def rany_def ropt_def rstar_def rplus_def rtimes_def rdigit_def rspace_def

lemmas pii_rx_defs =
  email_rx_def phone_rx_def ssn_rx_def credit_card_rx_def ip_address_rx_def ip_octet_rx_def

lemma pii_guarded: "guarded phone_rx" "guarded ssn_rx" "guarded credit_card_rx" "guarded ip_address_rx"
  by (simp_all add: pii_rx_defs guarded_seq ends_at_boundary_intros)

lemma email_ctx_free: "ctx_free email_rx"
  by (simp add: pii_rx_defs rx_defs)

lemma pii_well:
  "well email_rx" "well phone_rx" "well ssn_rx" "well credit_card_rx" "well ip_address_rx"
  by (simp_all add: pii_rx_defs rx_defs)

lemma pii_needs:
  "needs (\<lambda>c. c = CHR ''@'') email_rx" "needs is_digit phone_rx" "needs is_digit ssn_rx"
  "needs is_digit credit_card_rx" "needs is_digit ip_address_rx"
  by (simp_all add: pii_rx_defs rx_defs is_digit_def between_chars_def code_def)

lemma bracket_simps [simp]:
  "\<not> is_lower (CHR ''['')" "\<not> is_lower (CHR '']'')" "\<not> is_upper (CHR ''['')" "\<not> is_upper (CHR '']'')"
  "\<not> is_digit (CHR ''['')" "\<not> is_digit (CHR '']'')"
  "\<not> between_chars (CHR ''0'') (CHR ''5'') (CHR ''['')" "\<not> between_chars (CHR ''0'') (CHR ''5'') (CHR '']'')"
  "\<not> between_chars (CHR ''0'') (CHR ''4'') (CHR ''['')" "\<not> between_chars (CHR ''0'') (CHR ''4'') (CHR '']'')"
  by (simp_all add: is_lower_def is_upper_def is_digit_def between_chars_def code_def)

lemma pii_alphabet:
  "\<not> alphabet email_rx (CHR ''['')" "\<not> alphabet email_rx (CHR '']'')"
  "\<not> alphabet phone_rx (CHR ''['')" "\<not> alphabet phone_rx (CHR '']'')"
  "\<not> alphabet ssn_rx (CHR ''['')" "\<not> alphabet ssn_rx (CHR '']'')"
  "\<not> alphabet credit_card_rx (CHR ''['')" "\<not> alphabet credit_card_rx (CHR '']'')"
  "\<not> alphabet ip_address_rx (CHR ''['')" "\<not> alphabet ip_address_rx (CHR '']'')"
  by (simp_all add: pii_rx_defs rx_defs)

text \<open>The labels of the categories, and what their markers look like.\<close>

definition pii_labels :: "string list" where
  "pii_labels = [''email'', ''phone'', ''ssn'', ''credit_card'', ''ip_address'']"

lemma redaction_chars:
  "list_all (\<lambda>label. list_all (\<lambda>c. \<not> is_digit c \<and> c \<noteq> CHR ''@'') (redaction label)) pii_labels"
  by code_simp

lemma redaction_ends: "hd (redaction l) = CHR ''[''" "last (redaction l) = CHR '']''" "redaction l \<noteq> []"
  by (simp_all add: redaction_def)

lemma bracket_not_word [simp]: "\<not> is_word (CHR ''['')" "\<not> is_word (CHR '']'')"
  by (simp_all add: is_word_def is_lower_def is_upper_def between_chars_def code_def Let_def)

lemma pii_marked_off:
  assumes "l \<in> set pii_labels"
  shows "marked_off email_rx (redaction l)" "marked_off phone_rx (redaction l)"
    "marked_off ssn_rx (redaction l)" "marked_off credit_card_rx (redaction l)"
    "marked_off ip_address_rx (redaction l)"
proof -
  have chars: "c \<in> set (redaction l) \<Longrightarrow> \<not> is_digit c \<and> c \<noteq> CHR ''@''" for c
    using redaction_chars assms by (auto simp: list_all_iff)
  have digit: "needs (\<lambda>c. c \<notin> set (redaction l)) r" if "needs is_digit r" for r
    by (rule needs_mono [OF that]) (use chars in auto)
  have at: "needs (\<lambda>c. c \<notin> set (redaction l)) email_rx"
    by (rule needs_mono [OF pii_needs(1)]) (use chars in auto)
  show "marked_off email_rx (redaction l)" "marked_off phone_rx (redaction l)"
    "marked_off ssn_rx (redaction l)" "marked_off credit_card_rx (redaction l)"
    "marked_off ip_address_rx (redaction l)"
    using digit [OF pii_needs(2)] digit [OF pii_needs(3)] digit [OF pii_needs(4)]
      digit [OF pii_needs(5)] at
    by (simp_all add: marked_off_def redaction_ends pii_alphabet)
qed

text \<open>One substitution of \<open>mask\<close> removes its own category and restores none that was gone.\<close>

lemmas pii_consumes =
  marked_off_consumes [OF pii_marked_off(1), of "''email''"] marked_off_consumes [OF pii_marked_off(2), of "''email''"]
  marked_off_consumes [OF pii_marked_off(3), of "''email''"] marked_off_consumes [OF pii_marked_off(4), of "''email''"]
  marked_off_consumes [OF pii_marked_off(5), of "''email''"]

lemma email_kept_out:
  assumes "l \<in> set pii_labels" and "consumes r2" and "email_rx = r2 \<or> \<not> re_search email_rx s"
  shows "\<not> re_search email_rx (re_sub r2 (redaction l) s)"
  using sub_clean [OF pii_well(1) pii_marked_off(1) [OF assms(1)] assms(2)] email_ctx_free assms(3) by blast

lemma guarded_kept_out:
  assumes "l \<in> set pii_labels" and "r1 \<in> {phone_rx, ssn_rx, credit_card_rx, ip_address_rx}"
    and "r2 \<in> {phone_rx, ssn_rx, credit_card_rx, ip_address_rx}" and "r1 = r2 \<or> \<not> re_search r1 s"
  shows "\<not> re_search r1 (re_sub r2 (redaction l) s)"
proof (rule sub_clean)
  show "well r1" using assms(2) pii_well by auto
  show "marked_off r1 (redaction l)" using assms(2) pii_marked_off [OF assms(1)] by auto
  show "consumes r2" using assms(3) pii_consumes by (auto simp: pii_labels_def)
  show "ctx_free r1 \<or> guarded r1 \<and> guarded r2" using assms(2,3) pii_guarded by auto
qed (rule assms(4))

lemma mask_steps:
  "mask t =
     re_sub ip_address_rx (redaction ''ip_address'')
       (re_sub credit_card_rx (redaction ''credit_card'')
         (re_sub ssn_rx (redaction ''ssn'')
           (re_sub phone_rx (redaction ''phone'') (re_sub email_rx (redaction ''email'') t))))"
  by (simp add: mask_def mask_with_def PII_PATTERNS_def)

lemma no_pii_mask: "list_all (\<lambda>(label, r). \<not> re_search r (mask t)) PII_PATTERNS"
proof -
  let ?a = "re_sub email_rx (redaction ''email'') t"
  let ?b = "re_sub phone_rx (redaction ''phone'') ?a"
  let ?c = "re_sub ssn_rx (redaction ''ssn'') ?b"
  let ?d = "re_sub credit_card_rx (redaction ''credit_card'') ?c"
  let ?e = "re_sub ip_address_rx (redaction ''ip_address'') ?d"
  have lab: "''email'' \<in> set pii_labels" "''phone'' \<in> set pii_labels" "''ssn'' \<in> set pii_labels"
    "''credit_card'' \<in> set pii_labels" "''ip_address'' \<in> set pii_labels"
    by (simp_all add: pii_labels_def)
  note cons = pii_consumes [OF lab(1)]
  have "\<not> re_search email_rx ?a" by (rule email_kept_out [OF lab(1) cons(1)]) simp
  then have "\<not> re_search email_rx ?b" by (intro email_kept_out [OF lab(2) cons(2)]) simp
  then have "\<not> re_search email_rx ?c" by (intro email_kept_out [OF lab(3) cons(3)]) simp
  then have "\<not> re_search email_rx ?d" by (intro email_kept_out [OF lab(4) cons(4)]) simp
  then have email: "\<not> re_search email_rx ?e" by (intro email_kept_out [OF lab(5) cons(5)]) simp
  note g = guarded_kept_out
  have phone: "\<not> re_search phone_rx ?b" by (rule g [OF lab(2)]) auto
  have ssn: "\<not> re_search ssn_rx ?c" by (rule g [OF lab(3)]) auto
  have card: "\<not> re_search credit_card_rx ?d" by (rule g [OF lab(4)]) auto
  have ip: "\<not> re_search ip_address_rx ?e" by (rule g [OF lab(5)]) auto
  have "\<not> re_search phone_rx ?c" by (rule g [OF lab(3)]) (use phone in auto)
  then have "\<not> re_search phone_rx ?d" by (intro g [OF lab(4)]) auto
  then have phone': "\<not> re_search phone_rx ?e" by (intro g [OF lab(5)]) auto
  have "\<not> re_search ssn_rx ?d" by (rule g [OF lab(4)]) (use ssn in auto)
  then have ssn': "\<not> re_search ssn_rx ?e" by (intro g [OF lab(5)]) auto
  have card': "\<not> re_search credit_card_rx ?e" by (rule g [OF lab(5)]) (use card in auto)
  show ?thesis
    using email phone' ssn' card' ip by (simp add: PII_PATTERNS_def mask_steps)
qed

lemma re_sub_unchanged: "\<not> re_search r s \<Longrightarrow> re_sub r rep s = s"
  by (simp add: re_search_def re_sub_def sub_unchanged)

lemma clean_mask:
  "list_all (\<lambda>(label, r). \<not> re_search r t) PII_PATTERNS \<Longrightarrow> mask t = t"
  by (simp add: PII_PATTERNS_def mask_steps re_sub_unchanged)

lemma mask_unchanged_iff: "mask t = t \<longleftrightarrow> list_all (\<lambda>(label, r). \<not> re_search r t) PII_PATTERNS"
  using clean_mask no_pii_mask [of t] by metis


section \<open>What the pipeline relies on\<close>

text \<open>
  The contract of \<open>BaseGuardrail\<close>: whatever a guardrail lets through, in either direction, is clean,
  and it refuses by \<open>GuardrailViolation\<close> only.
\<close>

locale guardrail_contract =
  fixes g :: guardrail and clean :: "string \<Rightarrow> bool"
  assumes input_clean: "inspect_input g prompt ctx = Inr out \<Longrightarrow> clean out"
    and output_clean: "inspect_output g response ctx = Inr out \<Longrightarrow> clean out"
    and refusals: "inspect_input g prompt ctx = Inl e \<Longrightarrow> exn_class e = GuardrailViolation"
begin

lemma passes_clean:
  "inspect_input g prompt ctx = Inr p \<Longrightarrow> inspect_output g response ctx = Inr r \<Longrightarrow> clean p \<and> clean r"
  using input_clean output_clean by blast

lemma refusal_caught: "inspect_input g prompt ctx = Inl e \<Longrightarrow> is_Exception e"
  using refusals [of prompt ctx e] by (auto simp: is_Exception_def)

end

definition pii_free :: "string \<Rightarrow> bool" where
  "pii_free t = list_all (\<lambda>(label, r). \<not> re_search r t) PII_PATTERNS"

interpretation regex_layer: guardrail_contract "regex_guardrail b" pii_free for b
  by unfold_locales
     (auto simp: regex_guardrail_def regex_inspect_input_def regex_inspect_output_def pii_free_def
        no_pii_mask Let_def split: if_splits)


section \<open>Properties\<close>

text \<open>
  C21: Masking is complete: in the masked text no pattern of any of the five categories matches any
  more; the markers that replace one category neither keep a remainder of it nor bring text of
  another category about.
\<close>

theorem masked_text_has_no_pii:
  "list_all (\<lambda>(label, r). \<not> re_search r (mask text)) PII_PATTERNS"
  by (rule no_pii_mask)

text \<open>
  Masking changes only what it finds: masked text is unchanged by masking again, and text is
  unchanged exactly when none of the patterns matches in it.
\<close>

theorem mask_idempotent:
  "mask (mask text) = mask text \<and>
   (mask text = text \<longleftrightarrow> list_all (\<lambda>(label, r). \<not> re_search r text) PII_PATTERNS)"
  using mask_unchanged_iff no_pii_mask by blast

text \<open>
  The guardrail's contract: with blocking on, a prompt is let through exactly when none of the
  injection patterns matches in it, a refusal lists the labels that matched and the session, and
  what is let through, on the way in and on the way out, has no text of a masked category.
\<close>

theorem regex_guardrail_contract:
  "(case regex_inspect_input True prompt ctx of
      Inr out \<Rightarrow> out = mask prompt \<and>
        list_all (\<lambda>(label, r). \<not> re_search r prompt) PROMPT_INJECTION_PATTERNS \<and>
        list_all (\<lambda>(label, r). \<not> re_search r out) PII_PATTERNS
    | Inl e \<Rightarrow> exn_class e = GuardrailViolation \<and> find_injection_markers prompt \<noteq> [] \<and>
        exn_str e = ''input rejected: prompt-injection markers detected ''
          @ str_list (find_injection_markers prompt) @ '' (session='' @ session_id ctx @ '')'') \<and>
   (\<exists>out. regex_inspect_output response ctx = Inr out \<and>
      list_all (\<lambda>(label, r). \<not> re_search r out) PII_PATTERNS)"
proof -
  have "find_injection_markers prompt = [] \<longleftrightarrow>
      list_all (\<lambda>(label, r). \<not> re_search r prompt) PROMPT_INJECTION_PATTERNS"
    by (auto simp: find_injection_markers_def filter_empty_conv list_all_iff)
  then show ?thesis
    using no_pii_mask by (simp add: regex_inspect_input_def regex_inspect_output_def Let_def)
qed

end
