(* ===== verification/Sha256.thy ===== *)
theory Sha256
  imports Prelude "HOL-Library.Word"
begin

text \<open>
  The hashes the source takes from the standard library: \<open>hashlib.sha256\<close> (FIPS 180-4) and
  \<open>hmac.new(key, message, sha256)\<close> (RFC 2104), with \<open>hexdigest\<close>, on lists of bytes; and
  \<open>str.encode("utf-8")\<close>. The definitions are executable.
\<close>

unbundle bit_operations_syntax

type_synonym byte = "8 word"
type_synonym u32 = "32 word"

section \<open>Text to bytes\<close>

text \<open>UTF-8 for code points below 256: one byte below 128, two bytes from there.\<close>

definition utf8_char :: "char \<Rightarrow> byte list" where
  "utf8_char c =
     (let n = (of_char c :: nat) in
      if n < 128 then [word_of_nat n]
      else [word_of_nat (192 + n div 64), word_of_nat (128 + n mod 64)])"

definition utf8 :: "string \<Rightarrow> byte list" where
  "utf8 s = concat (map utf8_char s)"

definition hex_byte :: "byte \<Rightarrow> string" where
  "hex_byte b = hex2 (unat b)"

definition hexdigest :: "byte list \<Rightarrow> string" where
  "hexdigest bs = concat (map hex_byte bs)"


section \<open>SHA-256\<close>

definition sha_k :: "u32 list" where
  "sha_k =
     [1116352408, 1899447441, 3049323471, 3921009573, 961987163, 1508970993,
      2453635748, 2870763221, 3624381080, 310598401, 607225278, 1426881987,
      1925078388, 2162078206, 2614888103, 3248222580, 3835390401, 4022224774,
      264347078, 604807628, 770255983, 1249150122, 1555081692, 1996064986,
      2554220882, 2821834349, 2952996808, 3210313671, 3336571891, 3584528711,
      113926993, 338241895, 666307205, 773529912, 1294757372, 1396182291,
      1695183700, 1986661051, 2177026350, 2456956037, 2730485921, 2820302411,
      3259730800, 3345764771, 3516065817, 3600352804, 4094571909, 275423344,
      430227734, 506948616, 659060556, 883997877, 958139571, 1322822218,
      1537002063, 1747873779, 1955562222, 2024104815, 2227730452, 2361852424,
      2428436474, 2756734187, 3204031479, 3329325298]"

definition sha_h0 :: "u32 list" where
  "sha_h0 =
     [1779033703, 3144134277, 1013904242, 2773480762, 1359893119, 2600822924,
      528734635, 1541459225]"

definition rotr :: "nat \<Rightarrow> u32 \<Rightarrow> u32" where
  "rotr n x = (drop_bit n x) OR (push_bit (32 - n) x)"

definition be32 :: "u32 \<Rightarrow> byte list" where
  "be32 w = map (\<lambda>i. ucast (drop_bit i w)) [24, 16, 8, 0]"

definition of_be32 :: "byte list \<Rightarrow> u32" where
  "of_be32 bs = foldl (\<lambda>acc b. push_bit 8 acc OR ucast b) 0 bs"

definition sha_pad :: "byte list \<Rightarrow> byte list" where
  "sha_pad m =
     (let n = length m; l = 8 * n in
      m @ [128] @ replicate (nat ((55 - int n) mod 64)) 0
        @ be32 (word_of_nat (l div 2 ^ 32)) @ be32 (word_of_nat l))"

fun chunks :: "nat \<Rightarrow> 'a list \<Rightarrow> 'a list list" where
  "chunks n xs = (if n = 0 \<or> xs = [] then [] else take n xs # chunks n (drop n xs))"

declare chunks.simps [simp del]

text \<open>The message schedule, last word first: the given words, then one more word per step.\<close>

definition sha_extend :: "u32 list \<Rightarrow> u32 list" where
  "sha_extend r =
     (let x = r ! 14; y = r ! 1;
          s0 = rotr 7 x XOR rotr 18 x XOR drop_bit 3 x;
          s1 = rotr 17 y XOR rotr 19 y XOR drop_bit 10 y
      in (r ! 15 + s0 + r ! 6 + s1) # r)"

definition sha_schedule :: "u32 list \<Rightarrow> u32 list" where
  "sha_schedule ws = rev (fold (\<lambda>i. sha_extend) [0..<48] (rev ws))"

fun sha_round :: "u32 \<times> u32 \<Rightarrow> u32 list \<Rightarrow> u32 list" where
  "sha_round (k, w) [a, b, c, d, e, f, g, h] =
     (let s1 = rotr 6 e XOR rotr 11 e XOR rotr 25 e;
          ch = (e AND f) XOR (NOT e AND g);
          t1 = h + s1 + ch + k + w;
          s0 = rotr 2 a XOR rotr 13 a XOR rotr 22 a;
          maj = (a AND b) XOR (a AND c) XOR (b AND c);
          t2 = s0 + maj
      in [t1 + t2, a, b, c, d + t1, e, f, g])"
| "sha_round kw st = st"

definition sha_block :: "u32 list \<Rightarrow> byte list \<Rightarrow> u32 list" where
  "sha_block st blk =
     (let w = sha_schedule (map of_be32 (chunks 4 blk))
      in map2 (+) st (fold sha_round (zip sha_k w) st))"

definition sha256 :: "byte list \<Rightarrow> byte list" where
  "sha256 m = concat (map be32 (foldl sha_block sha_h0 (chunks 64 (sha_pad m))))"

definition sha256_hex :: "byte list \<Rightarrow> string" where
  "sha256_hex m = hexdigest (sha256 m)"


section \<open>HMAC\<close>

definition hmac_key :: "byte list \<Rightarrow> byte list" where
  "hmac_key key = (let k = (if 64 < length key then sha256 key else key) in
                   k @ replicate (64 - length k) 0)"

definition hmac_sha256 :: "byte list \<Rightarrow> byte list \<Rightarrow> byte list" where
  "hmac_sha256 key msg =
     (let k = hmac_key key in
      sha256 (map (\<lambda>b. b XOR 92) k @ sha256 (map (\<lambda>b. b XOR 54) k @ msg)))"

definition hmac_hex :: "byte list \<Rightarrow> byte list \<Rightarrow> string" where
  "hmac_hex key msg = hexdigest (hmac_sha256 key msg)"

section \<open>Injectivity of the encoding\<close>

lemma of_nat_byte_inject:
  assumes "m < 256" and "n < 256"
  shows "(word_of_nat m :: byte) = word_of_nat n \<longleftrightarrow> m = n"
  using assms by (simp add: word_of_nat_eq_iff take_bit_eq_mod)

lemma of_char_less [simp]: "(of_char c :: nat) < 256"
  using of_char_mod_256 [of c] by (metis mod_less_divisor zero_less_numeral)

lemma utf8_char_inject:
  "utf8_char c @ xs = utf8_char d @ ys \<longleftrightarrow> c = d \<and> xs = ys"
proof -
  let ?m = "of_char c :: nat" and ?n = "of_char d :: nat"
  have m: "?m < 256" and n: "?n < 256" by simp_all
  have "?m div 64 = ?n div 64 \<Longrightarrow> ?m mod 64 = ?n mod 64 \<Longrightarrow> ?m = ?n"
    by (metis div_mult_mod_eq)
  moreover have "?m = ?n \<longleftrightarrow> c = d" by (simp add: of_char_eq_iff)
  moreover have "192 + x div 64 < 256" "128 + x mod 64 < 256" if "x < 256" for x :: nat
    using that by linarith+
  ultimately show ?thesis
    using m n of_nat_byte_inject [of ?m ?n] of_nat_byte_inject [of "192 + ?m div 64" "192 + ?n div 64"]
      of_nat_byte_inject [of "128 + ?m mod 64" "128 + ?n mod 64"]
      of_nat_byte_inject [of ?m "192 + ?n div 64"] of_nat_byte_inject [of "192 + ?m div 64" ?n]
    by (auto simp: utf8_char_def Let_def)
qed

lemma utf8_char_nonempty [simp]: "utf8_char c \<noteq> []"
  by (simp add: utf8_char_def Let_def)

lemma utf8_inject [simp]: "utf8 s = utf8 t \<longleftrightarrow> s = t"
proof (induction s arbitrary: t)
  case Nil
  then show ?case by (cases t) (auto simp: utf8_def)
next
  case (Cons c s)
  then show ?case by (cases t) (auto simp: utf8_def utf8_char_inject)
qed

lemma utf8_append [simp]: "utf8 (s @ t) = utf8 s @ utf8 t"
  by (simp add: utf8_def)

lemma hex_char_no_brace: "d < 16 \<Longrightarrow> hex_char d \<noteq> CHR ''{''"
proof
  assume "d < 16" and "hex_char d = CHR ''{''"
  then have "(of_char (hex_char d) :: nat) = 123" by simp
  with \<open>d < 16\<close> show False by (simp add: hex_char_def split: if_splits)
qed

lemma hexdigest_no_brace: "CHR ''{'' \<notin> set (hexdigest bs)"
proof -
  have "CHR ''{'' \<noteq> hex_char (n mod 16)" for n
    using hex_char_no_brace [of "n mod 16"] by auto
  then show ?thesis by (auto simp: hexdigest_def hex_byte_def hex2_def)
qed

end
