(* ===== verification/FloatText.thy ===== *)
theory FloatText
  imports PyValue
begin

text \<open>
  The text of a float determines the float. \<open>float_repr\<close> tries decimals of 1, 2, \<dots>, 17
  digits; the theory shows that 17 digits always suffice for binary64, so the loop ends
  with a decimal that rounds to the number, and that the text printed for a decimal, in
  fixed or scientific notation, is read back as that decimal. Together: a binary64 value
  that is printed in a log is read back unchanged (\<open>parse_number_float\<close>).
\<close>

section \<open>Reading numbers\<close>

definition is_num_char :: "char \<Rightarrow> bool" where
  "is_num_char c \<longleftrightarrow> is_digit c \<or> c \<in> {CHR ''-'', CHR ''+'', CHR ''.'', CHR ''e''}"

definition dec_val :: "string \<Rightarrow> nat" where
  "dec_val ds = foldl (\<lambda>acc c. 10 * acc + digit_val c) 0 ds"

definition parse_uint :: "string \<Rightarrow> nat option" where
  "parse_uint ds = (if ds \<noteq> [] \<and> list_all is_digit ds then Some (dec_val ds) else None)"

definition parse_int :: "string \<Rightarrow> int option" where
  "parse_int s =
     (case s of
        [] \<Rightarrow> None
      | c # cs \<Rightarrow>
          (if c = CHR ''-'' then map_option (\<lambda>n. - int n) (parse_uint cs)
           else if c = CHR ''+'' then map_option int (parse_uint cs)
           else map_option int (parse_uint s)))"

definition parse_ufloat :: "string \<Rightarrow> pyfloat option" where
  "parse_ufloat s =
     (let (mant, ex) = partition_at (CHR ''e'') s;
          (ip, fp) = partition_at (CHR ''.'') mant
      in case (parse_uint (ip @ fp), if ex = [] then Some 0 else parse_int ex) of
           (Some m, Some e) \<Rightarrow> Some (fl (of_nat m * pow10 (e - int (length fp))))
         | _ \<Rightarrow> None)"

definition parse_float :: "string \<Rightarrow> pyfloat option" where
  "parse_float s =
     (case s of
        [] \<Rightarrow> None
      | c # cs \<Rightarrow> (if c = CHR ''-'' then map_option uminus (parse_ufloat cs) else parse_ufloat s))"

definition parse_number :: "string \<Rightarrow> pyval option" where
  "parse_number s =
     (if CHR ''.'' \<in> set s \<or> CHR ''e'' \<in> set s then map_option PFloat (parse_float s)
      else map_option PInt (parse_int s))"


section \<open>Numbers are read back\<close>

lemma digit_char_range: "d < 10 \<Longrightarrow> (of_char (digit_char d) :: nat) = 48 + d"
  by (simp add: digit_char_def)

lemma is_digit_digit_char [simp]: "d < 10 \<Longrightarrow> is_digit (digit_char d)"
  by (simp add: is_digit_def digit_char_range)

lemma digit_val_digit_char [simp]: "d < 10 \<Longrightarrow> digit_val (digit_char d) = d"
  by (simp add: digit_val_def digit_char_range)

lemma dec_val_snoc: "dec_val (ds @ [c]) = 10 * dec_val ds + digit_val c"
  by (simp add: dec_val_def)

lemma str_nat_digits: "list_all is_digit (str_nat n)"
  by (induction n rule: str_nat.induct) (subst str_nat.simps, simp)

lemma str_nat_nonempty: "str_nat n \<noteq> []"
  by (subst str_nat.simps) simp

lemma dec_val_str_nat: "dec_val (str_nat n) = n"
proof (induction n rule: str_nat.induct)
  case (1 n)
  show ?case
  proof (cases "n < 10")
    case True
    then show ?thesis by (subst str_nat.simps) (simp add: dec_val_def)
  next
    case False
    with 1 have "dec_val (str_nat (n div 10)) = n div 10" by simp
    with False show ?thesis by (subst str_nat.simps) (simp add: dec_val_snoc)
  qed
qed

lemma parse_uint_str_nat: "parse_uint (str_nat n) = Some n"
  by (simp add: parse_uint_def str_nat_nonempty str_nat_digits dec_val_str_nat)

lemma not_is_digit [simp]:
  "\<not> is_digit (CHR ''-'')" "\<not> is_digit (CHR ''+'')" "\<not> is_digit (CHR ''.'')"
  "\<not> is_digit (CHR ''e'')" "\<not> is_digit (CHR '','')" "\<not> is_digit (CHR '']'')"
  "\<not> is_digit (CHR ''}'')" "\<not> is_digit (CHR ''['')" "\<not> is_digit (CHR ''{'')"
  "\<not> is_digit (CHR ''n'')" "\<not> is_digit (CHR ''t'')" "\<not> is_digit (CHR ''f'')"
  "\<not> is_digit (CHR 0x22)"
  by (simp_all add: is_digit_def)

lemma parse_int_str_int: "parse_int (str_int i) = Some i"
proof (cases "i < 0")
  case True
  then show ?thesis by (simp add: str_int_def parse_int_def parse_uint_str_nat)
next
  case False
  obtain c cs where c: "str_nat (nat i) = c # cs" using str_nat_nonempty by (cases "str_nat (nat i)") auto
  then have "is_digit c" using str_nat_digits [of "nat i"] by simp
  then have "c \<noteq> CHR ''-''" "c \<noteq> CHR ''+''" by auto
  then have "parse_int (str_nat (nat i)) = map_option int (parse_uint (str_nat (nat i)))"
    by (simp add: parse_int_def c)
  with False show ?thesis by (simp add: str_int_def parse_uint_str_nat)
qed

lemma str_nat_no_point: "CHR ''.'' \<notin> set (str_nat n)" "CHR ''e'' \<notin> set (str_nat n)"
  using str_nat_digits [of n] by (auto simp: list_all_iff dest: bspec)

lemma parse_number_int: "parse_number (str_int i) = Some (PInt i)"
  using str_nat_no_point parse_int_str_int by (simp add: parse_number_def str_int_def)

lemma num_chars_digits: "list_all is_digit s \<Longrightarrow> list_all is_num_char s"
  by (auto simp: list_all_iff is_num_char_def)

lemma num_chars_str_nat [simp]: "list_all is_num_char (str_nat n)"
  by (intro num_chars_digits str_nat_digits)

lemma is_num_char_signs [simp]:
  "is_num_char (CHR ''-'')" "is_num_char (CHR ''+'')" "is_num_char (CHR ''.'')"
  "is_num_char (CHR ''e'')" "is_num_char (CHR ''0'')"
  by (simp_all add: is_num_char_def is_digit_def)

lemma num_chars_zeros [simp]: "list_all is_num_char (zeros n)"
  by (simp add: zeros_def list_all_iff)

lemma num_chars_exp [simp]: "list_all is_num_char (exp_text e)"
  by (simp add: exp_text_def Let_def)

lemma num_chars_take_drop:
  "list_all is_num_char ds \<Longrightarrow> list_all is_num_char (take n ds) \<and> list_all is_num_char (drop n ds)"
  by (auto simp: list_all_iff dest: in_set_takeD in_set_dropD)

lemma num_chars_float_text: "list_all is_num_char ds \<Longrightarrow> list_all is_num_char (float_text ds e)"
  by (auto simp: float_text_def Let_def num_chars_take_drop split: list.splits)

lemma num_chars_float_repr: "list_all is_num_char (float_repr x)"
  by (simp add: float_repr_def num_chars_float_text split: prod.splits)

lemma num_chars_str_int: "list_all is_num_char (str_int i)"
  by (simp add: str_int_def)

lemma str_int_nonempty: "str_int i \<noteq> []"
  by (simp add: str_int_def str_nat_nonempty)

lemma parse_number_nonempty: "parse_number s = Some v \<Longrightarrow> s \<noteq> []"
  by (auto simp: parse_number_def parse_int_def)


section \<open>Powers of ten and the leading decimal digit\<close>

lemma pow10_powi: "pow10 k = 10 powi k"
  unfolding pow10_def power_int_def by (simp add: power_one_over)

lemma pow10_pos [simp]: "0 < pow10 k"
  by (simp add: pow10_def)

lemma pow10_nonzero [simp]: "pow10 k \<noteq> 0" and pow10_nonneg [simp]: "0 \<le> pow10 k"
  using pow10_pos [of k] by linarith+

lemma pow10_add: "pow10 (j + k) = pow10 j * pow10 k"
  by (simp add: pow10_powi power_int_add)

lemma pow10_diff: "pow10 (j - k) = pow10 j / pow10 k"
  by (simp add: pow10_powi power_int_diff)

lemma pow10_nat: "pow10 (int n) = 10 ^ n"
  by (simp add: pow10_def)

lemma pow10_Suc: "pow10 (k + 1) = 10 * pow10 k"
  by (simp add: pow10_add pow10_def [of 1])

lemma pow10_pred: "pow10 (k - 1) = pow10 k / 10"
  by (simp add: pow10_diff pow10_def [of 1])

lemma ilog10_bounds: "0 < x \<Longrightarrow> pow10 (ilog10 x) \<le> x \<and> x < pow10 (ilog10 x + 1)"
proof (induction x rule: ilog10.induct)
  case (1 x)
  consider "x < 1" | "1 \<le> x" "x < 10" | "10 \<le> x" by linarith
  then show ?case
  proof cases
    case 1
    then have "pow10 (ilog10 (10 * x)) \<le> 10 * x" "10 * x < 10 * pow10 (ilog10 (10 * x))"
      using "1.IH"(1) "1.prems" by (auto simp: pow10_Suc)
    moreover have "ilog10 x = ilog10 (10 * x) - 1"
      using 1 "1.prems" by (subst ilog10.simps) simp
    ultimately show ?thesis by (simp add: pow10_pred)
  next
    case 2
    then show ?thesis by (subst (1 2) ilog10.simps) (simp add: pow10_def)
  next
    case 3
    then have "pow10 (ilog10 (x / 10)) \<le> x / 10" "x / 10 < 10 * pow10 (ilog10 (x / 10))"
      using "1.IH"(2) "1.prems" by (auto simp: pow10_Suc)
    moreover have "ilog10 x = ilog10 (x / 10) + 1"
      using 3 by (subst ilog10.simps) simp
    ultimately show ?thesis
      using pow10_Suc [of "ilog10 (x / 10)"] pow10_Suc [of "ilog10 (x / 10) + 1"] by simp
  qed
qed


section \<open>Rounding to n digits\<close>

lemma round_half_even_close: "\<bar>of_int (round_half_even z) - z\<bar> \<le> 1 / 2"
  unfolding round_half_even_def Let_def by (auto simp: abs_if not_less) linarith+

lemma round_half_even_near:
  assumes "\<bar>z - of_int m\<bar> < 1 / 2"
  shows "round_half_even z = m"
proof -
  have "\<bar>of_int (round_half_even z) - of_int m :: rat\<bar> < 1"
    using round_half_even_close [of z] assms by linarith
  then have "\<bar>round_half_even z - m\<bar> < 1" by (simp flip: of_int_diff of_int_abs)
  then show ?thesis by linarith
qed

text \<open>The decimal of \<open>n\<close> digits has \<open>n\<close> digits and differs from the number by half a unit.\<close>

lemma dec_round_digits:
  assumes x: "pow10 e \<le> x" "x < pow10 (e + 1)" and n: "0 < n" and dec: "dec_round x e n = (d, e')"
  shows "10 ^ (n - 1) \<le> d" and "d < 10 ^ n"
    and "\<bar>of_nat d * pow10 (e' - int n + 1) - x\<bar> \<le> pow10 (e - int n + 1) / 2"
proof -
  define u where "u = pow10 (e - int n + 1)"
  define c where "c = round_half_even (x / u)"
  have u: "0 < u" by (simp add: u_def)
  have "pow10 e = of_int (10 ^ (n - 1)) * u"
    using n by (simp add: u_def flip: pow10_nat pow10_add)
  with x(1) u have "of_int (10 ^ (n - 1)) \<le> x / u" by (simp add: pos_le_divide_eq)
  then have lo: "10 ^ (n - 1) \<le> c" unfolding c_def by (rule round_half_even_ge)
  have "pow10 (e + 1) = of_int (10 ^ n) * u"
    by (simp add: u_def flip: pow10_nat pow10_add)
  with x(2) u have "x / u \<le> of_int (10 ^ n)" by (simp add: pos_divide_le_eq)
  then have hi: "c \<le> 10 ^ n" unfolding c_def by (rule round_half_even_le)
  have c: "0 \<le> c" using lo by (rule order_trans [rotated]) simp
  have close: "\<bar>of_int c * u - x\<bar> \<le> u / 2"
  proof -
    have "of_int c * u - x = (of_int c - x / u) * u" using u by (simp add: left_diff_distrib)
    then have "\<bar>of_int c * u - x\<bar> = \<bar>of_int c - x / u\<bar> * u" using u by (simp add: abs_mult)
    also have "\<dots> \<le> 1 / 2 * u"
      using round_half_even_close [of "x / u"] u unfolding c_def by (intro mult_right_mono) auto
    finally show ?thesis by simp
  qed
  have ten: "(10 :: nat) ^ n = 10 * 10 ^ (n - 1)" using n by (cases n) auto
  have cn: "10 ^ (n - 1) \<le> nat c" "nat c \<le> 10 ^ n"
    using lo hi c by (simp_all add: le_nat_iff nat_le_iff)
  have val: "of_nat (nat c) = (of_int c :: rat)" using c by simp
  show "10 ^ (n - 1) \<le> d" "d < 10 ^ n" "\<bar>of_nat d * pow10 (e' - int n + 1) - x\<bar> \<le> pow10 (e - int n + 1) / 2"
  proof (atomize (full), cases "10 ^ n \<le> nat c")
    case True
    then have eq: "nat c = 10 ^ n" using cn by simp
    then have d: "d = 10 ^ (n - 1)" "e' = e + 1"
      using dec ten by (simp_all add: dec_round_def Let_def u_def [symmetric] c_def [symmetric])
    have "pow10 (e' - int n + 1) = 10 * u" by (simp add: d u_def flip: pow10_Suc)
    then have "of_nat d * pow10 (e' - int n + 1) = of_int c * u"
      unfolding val [symmetric] eq ten by (simp add: d)
    then show "10 ^ (n - 1) \<le> d \<and> d < 10 ^ n \<and> \<bar>of_nat d * pow10 (e' - int n + 1) - x\<bar> \<le> pow10 (e - int n + 1) / 2"
      using close ten by (simp add: d u_def)
  next
    case False
    then have "d = nat c" "e' = e"
      using dec by (simp_all add: dec_round_def Let_def u_def [symmetric] c_def [symmetric])
    then show "10 ^ (n - 1) \<le> d \<and> d < 10 ^ n \<and> \<bar>of_nat d * pow10 (e' - int n + 1) - x\<bar> \<le> pow10 (e - int n + 1) / 2"
      using close False cn by (simp add: val u_def)
  qed
qed

section \<open>Seventeen digits suffice\<close>

text \<open>A float is an integer multiple of the spacing of the floats around it.\<close>

lemma float_multiple:
  assumes "0 < x" and "fl x = x"
  obtains m where "0 < m" and "x = of_int m * pow2 (fl_exp x)"
proof -
  have x: "x = of_int (round_half_even (x / pow2 (fl_exp x))) * pow2 (fl_exp x)"
    using assms by (simp add: fl_def fl_pos_def)
  moreover from x assms(1) have "0 < round_half_even (x / pow2 (fl_exp x))"
    by (metis of_int_0_less_iff pow2_pos zero_less_mult_pos2)
  ultimately show ?thesis using that by blast
qed

lemma below_next_binade:
  assumes "0 < x"
  shows "x < pow2 53 * pow2 (fl_exp x)"
proof -
  have "pow2 (ilog2 x + 1) \<le> pow2 (53 + fl_exp x)" by (rule pow2_mono) (simp add: fl_exp_def)
  with ilog2_bounds [OF assms] show ?thesis by (simp add: pow2_add)
qed

lemma fl_exp_le: "0 < y \<Longrightarrow> y < pow2 53 * pow2 k \<Longrightarrow> - 1074 \<le> k \<Longrightarrow> fl_exp y \<le> k"
  using ilog2_bounds [of y] pow2_less_cancel [of "ilog2 y" "53 + k"]
  by (simp add: fl_exp_def flip: pow2_add)

lemma fl_exp_ge: "0 < y \<Longrightarrow> pow2 52 * pow2 k \<le> y \<Longrightarrow> k \<le> fl_exp y"
  using ilog2_bounds [of y] pow2_less_cancel [of "52 + k" "ilog2 y + 1"]
  by (simp add: fl_exp_def flip: pow2_add)

lemma fl_pos_near:
  assumes "\<bar>y - x\<bar> < pow2 (fl_exp y) / 2" and "x = of_int m * pow2 (fl_exp y)"
  shows "fl_pos y = x"
proof -
  have "(y / pow2 (fl_exp y) - of_int m) * pow2 (fl_exp y) = y - x"
    by (simp add: assms(2) left_diff_distrib)
  then have "\<bar>y / pow2 (fl_exp y) - of_int m\<bar> * pow2 (fl_exp y) = \<bar>y - x\<bar>"
    by (metis abs_mult_pos pow2_nonneg)
  then have "\<bar>y / pow2 (fl_exp y) - of_int m\<bar> * pow2 (fl_exp y) < 1 / 2 * pow2 (fl_exp y)"
    using assms(1) by simp
  then have "\<bar>y / pow2 (fl_exp y) - of_int m\<bar> < 1 / 2"
    by (rule mult_right_less_imp_less) simp
  from round_half_even_near [OF this] show ?thesis by (simp add: fl_pos_def assms(2))
qed

text \<open>A number that differs from a float by less than \<open>10 ^ -16\<close> of it, halved, rounds to it.\<close>

lemma seventeen_digits:
  assumes x: "0 < x" "fl x = x" and close: "\<bar>y - x\<bar> \<le> x / (2 * 10 ^ 16)"
  shows "fl y = x"
proof -
  define E where "E = fl_exp x"
  obtain m where m: "0 < m" "x = of_int m * pow2 E" using float_multiple [OF x] unfolding E_def .
  have E: "0 < pow2 E" "- 1074 \<le> E" by (simp_all add: E_def fl_exp_def)
  have p53: "pow2 53 = of_int (2 ^ 53)" and p52: "pow2 52 = of_int (2 ^ 52)" by (simp_all add: pow2_def)
  have x53: "x < pow2 53 * pow2 E" using below_next_binade [OF x(1)] by (simp add: E_def)
  with m E have "of_int m < (of_int (2 ^ 53) :: rat)" by (simp add: p53)
  then have m53: "m \<le> 2 ^ 53 - 1" by (simp only: of_int_less_iff)
  have y: "0 < y" using close x(1) by (simp add: abs_if split: if_splits)
  have half: "\<bar>y - x\<bar> < pow2 E / 2" using close x53 E(1) by (simp add: p53 del: pow2_pos)
  have "x \<le> of_int (2 ^ 53 - 1) * pow2 E" unfolding m(2) using m53 E(1)
    by (intro mult_right_mono) (simp_all only: of_int_le_iff order_less_imp_le)
  moreover have gap: "y < x + pow2 E / 2" "x < y + pow2 E / 2" using half by linarith+
  ultimately have "y < pow2 53 * pow2 E" using E(1) by (simp add: p53)
  then have le: "fl_exp y \<le> E" using y E(2) by (intro fl_exp_le)
  show ?thesis
  proof (cases "fl_exp y = E")
    case True
    then have "fl_pos y = x" using half m(2) by (intro fl_pos_near) auto
    with y show ?thesis by (simp add: fl_def)
  next
    case False
    with le have less: "fl_exp y < E" by simp
    then have y52: "y < pow2 52 * pow2 E"
      using fl_exp_ge [OF y, of E] by linarith
    have "E = ilog2 x - 52" using less by (auto simp: E_def fl_exp_def)
    then have "pow2 52 * pow2 E \<le> x" using ilog2_bounds [OF x(1)] by (simp flip: pow2_add)
    then have "(of_int (2 ^ 52) :: rat) \<le> of_int m" using m E(1) by (simp add: p52)
    then have "2 ^ 52 \<le> m" by (simp only: of_int_le_iff)
    moreover have "of_int m * pow2 E < of_int (2 ^ 52 + 1) * pow2 E"
      using y52 gap(2) E(1) unfolding m(2) [symmetric] by (simp add: p52 del: pow2_pos)
    then have "m < 2 ^ 52 + 1" using E(1) by (simp only: mult_less_cancel_right_pos of_int_less_iff)
    ultimately have "m = 2 ^ 52" by simp
    define F where "F = E - 1"
    have EF: "pow2 E = 2 * pow2 F" using pow2_add [of 1 F] by (simp add: F_def pow2_def [of 1])
    have F: "0 < pow2 F" by simp
    have xF: "x = of_int (2 ^ 53) * pow2 F" by (simp add: m(2) \<open>m = 2 ^ 52\<close> EF)
    have near: "\<bar>y - x\<bar> < pow2 F / 2" using close F by (simp add: xF del: pow2_pos)
    then have "x < y + pow2 F / 2" by linarith
    then have "pow2 52 * pow2 F \<le> y" using F by (simp add: xF p52 del: pow2_pos)
    from fl_exp_ge [OF y this] less have "fl_exp y = F" by (simp add: F_def)
    then have "fl_pos y = x" using near xF by (intro fl_pos_near) auto
    with y show ?thesis by (simp add: fl_def)
  qed
qed

text \<open>The loop of \<open>float_repr\<close> ends with a decimal that rounds to the number.\<close>

lemma dec_round_17:
  assumes "0 < x" "fl x = x" and dec: "dec_round x (ilog10 x) 17 = (d, e)"
  shows "fl (of_nat d * pow10 (e - 16)) = x"
proof (rule seventeen_digits [OF assms(1,2)])
  have "pow10 (ilog10 x) \<le> x" "x < pow10 (ilog10 x + 1)" using ilog10_bounds [OF assms(1)] by auto
  moreover from dec_round_digits(3) [OF this _ dec]
  have "\<bar>of_nat d * pow10 (e - 16) - x\<bar> \<le> pow10 (ilog10 x - 16) / 2" by simp
  moreover have "pow10 (ilog10 x - 16) = pow10 (ilog10 x) / 10 ^ 16"
    by (simp add: pow10_diff pow10_def [of 16])
  ultimately show "\<bar>of_nat d * pow10 (e - 16) - x\<bar> \<le> x / (2 * 10 ^ 16)" by simp
qed

lemma shortest_rounds:
  assumes x: "0 < x" "fl x = x" and n: "0 < n" "n + k = 17"
    and s: "shortest x (ilog10 x) n k = (n', d, e)"
  shows "0 < n' \<and> 10 ^ (n' - 1) \<le> d \<and> d < 10 ^ n' \<and> fl (of_nat d * pow10 (e - int n' + 1)) = x"
proof -
  have bounds: "pow10 (ilog10 x) \<le> x" "x < pow10 (ilog10 x + 1)" using ilog10_bounds [OF x(1)] by auto
  show ?thesis using n s
  proof (induction k arbitrary: n)
    case 0
    then show ?case
      using dec_round_digits [OF bounds, of 17 d e] dec_round_17 [OF x, of d e]
      by (auto split: prod.splits)
  next
    case (Suc k)
    obtain d0 e0 where dec: "dec_round x (ilog10 x) n = (d0, e0)" by fastforce
    show ?case
    proof (cases "fl (of_nat d0 * pow10 (e0 - int n + 1)) = x")
      case True
      with Suc.prems dec have "n' = n" "d = d0" "e = e0" by auto
      with True dec_round_digits [OF bounds Suc.prems(1) dec] Suc.prems(1) show ?thesis by simp
    next
      case False
      with Suc.prems dec have "shortest x (ilog10 x) (Suc n) k = (n', d, e)" by simp
      with Suc.IH [of "Suc n"] Suc.prems show ?thesis by simp
    qed
  qed
qed

section \<open>Decimals are read back\<close>

lemma length_str_nat:
  assumes "0 < n" and "10 ^ (n - 1) \<le> d" and "d < 10 ^ n"
  shows "length (str_nat d) = n"
  using assms
proof (induction d arbitrary: n rule: str_nat.induct)
  case (1 d)
  obtain k where n: "n = Suc k" using "1.prems"(1) by (cases n) auto
  show ?case
  proof (cases "d < 10")
    case True
    moreover have "10 ^ k \<le> d" using "1.prems"(2) n by simp
    ultimately have "(10 :: nat) ^ k < 10 ^ 1" by simp
    then have "k = 0" by (cases k) auto
    with True n show ?thesis by (subst str_nat.simps) simp
  next
    case False
    then obtain j where k: "k = Suc j" using "1.prems"(3) n by (cases k) auto
    have "10 ^ j \<le> d div 10" "d div 10 < 10 ^ k"
      using "1.prems"(2,3) n k by (simp_all add: less_mult_imp_div_less mult.commute less_eq_div_iff_mult_less_eq)
    with "1.IH" [of k] False k have "length (str_nat (d div 10)) = k" by simp
    with False n show ?thesis by (subst str_nat.simps) simp
  qed
qed

lemma dec_val_append: "dec_val (a @ b) = dec_val a * 10 ^ length b + dec_val b"
proof (induction b rule: rev_induct)
  case (snoc c b)
  have "dec_val (a @ b @ [c]) = 10 * dec_val (a @ b) + digit_val c"
    using dec_val_snoc [of "a @ b" c] by simp
  with snoc show ?case by (simp add: dec_val_snoc algebra_simps)
qed (simp add: dec_val_def)

lemma dec_val_zeros [simp]: "dec_val (zeros n) = 0"
  by (induction n) (simp_all add: zeros_def dec_val_def digit_val_def)

lemma dec_val_zero_cons: "dec_val (CHR ''0'' # s) = dec_val s"
  by (simp add: dec_val_def digit_val_def)

lemma length_zeros [simp]: "length (zeros n) = n"
  by (simp add: zeros_def)

lemma digits_zeros [simp]: "list_all is_digit (zeros n)"
  by (simp add: zeros_def list_all_iff is_digit_def)

lemma digits_not_in:
  assumes "list_all is_digit ds"
  shows "CHR ''.'' \<notin> set ds" and "CHR ''e'' \<notin> set ds" and "CHR ''-'' \<notin> set ds" and "CHR ''+'' \<notin> set ds"
  using assms by (auto simp: list_all_iff dest: bspec)

text \<open>A number in fixed notation, read by the position of its point.\<close>

lemma parse_ufloat_fixed:
  assumes "list_all is_digit ip" "list_all is_digit fp" "ip \<noteq> []"
  shows "parse_ufloat (ip @ ''.'' @ fp) = Some (fl (of_nat (dec_val (ip @ fp)) * pow10 (- int (length fp))))"
  using assms digits_not_in [OF assms(1)] digits_not_in [OF assms(2)]
    partition_at_none [of "CHR ''e''" "ip @ ''.'' @ fp"] partition_at_first [of "CHR ''.''" ip fp]
  by (simp add: parse_ufloat_def parse_uint_def)

lemma parse_int_exp:
  "parse_int (tl (exp_text e)) = Some e"
proof -
  define ds where "ds = str_nat (nat \<bar>e\<bar>)"
  define zs where "zs = zeros (2 - length ds)"
  have "parse_uint (zs @ ds) = Some (nat \<bar>e\<bar>)"
    by (simp add: parse_uint_def zs_def ds_def str_nat_nonempty str_nat_digits dec_val_append dec_val_str_nat)
  moreover have "exp_text e = [CHR ''e'', if e < 0 then CHR ''-'' else CHR ''+''] @ zs @ ds"
    by (simp add: exp_text_def zs_def ds_def Let_def)
  ultimately show ?thesis by (simp add: parse_int_def)
qed

lemma exp_text_cons: "exp_text e = CHR ''e'' # tl (exp_text e)"
  by (simp add: exp_text_def Let_def)

lemma exp_text_tl: "tl (exp_text e) \<noteq> []"
  by (simp add: exp_text_def Let_def)

text \<open>A number in scientific notation: one digit, the others after a point, an exponent.\<close>

lemma parse_ufloat_scientific:
  assumes "list_all is_digit ip" "list_all is_digit fp" "ip \<noteq> []" and p: "p = (if fp = [] then [] else CHR ''.'' # fp)"
  shows "parse_ufloat (ip @ p @ exp_text e) =
    Some (fl (of_nat (dec_val (ip @ fp)) * pow10 (e - int (length fp))))"
proof -
  note no = digits_not_in [OF assms(1)] digits_not_in [OF assms(2)]
  have "CHR ''e'' \<notin> set (ip @ p)" using no by (simp add: p)
  then have "partition_at (CHR ''e'') ((ip @ p) @ exp_text e) = (ip @ p, tl (exp_text e))"
    by (subst exp_text_cons) (rule partition_at_first)
  moreover have "partition_at (CHR ''.'') (ip @ p) = (ip, fp)"
    using no partition_at_first [of "CHR ''.''" ip fp] partition_at_none [of "CHR ''.''" ip] by (simp add: p)
  ultimately show ?thesis
    using assms(1-3) by (simp add: parse_ufloat_def parse_uint_def exp_text_tl parse_int_exp)
qed

lemma parse_float_text:
  assumes ds: "list_all is_digit ds" "ds \<noteq> []"
  shows "parse_ufloat (float_text ds e) = Some (fl (of_nat (dec_val ds) * pow10 (e - int (length ds) + 1)))"
proof -
  define n where "n = int (length ds)"
  have part: "list_all is_digit (take k ds)" "list_all is_digit (drop k ds)" for k
    using ds(1) by (auto simp: list_all_iff dest: in_set_takeD in_set_dropD)
  consider "- 4 \<le> e" "e < 0" | "0 \<le> e" "e < 16" "n \<le> e + 1" | "0 \<le> e" "e < 16" "e + 1 < n"
    | "e < - 4 \<or> 16 \<le> e" by linarith
  then show ?thesis
  proof cases
    case 1
    then have eq: "float_text ds e = ''0'' @ ''.'' @ zeros (nat (- e - 1)) @ ds"
      by (simp add: float_text_def Let_def)
    have "dec_val (''0'' @ zeros (nat (- e - 1)) @ ds) = dec_val ds"
      by (simp add: dec_val_zero_cons) (simp add: dec_val_append)
    moreover have "- int (length (zeros (nat (- e - 1)) @ ds)) = e - n + 1" using 1 by (simp add: n_def)
    moreover have "list_all is_digit ''0''" by (simp add: is_digit_def)
    ultimately show ?thesis using parse_ufloat_fixed [of "''0''" "zeros (nat (- e - 1)) @ ds"] ds(1)
      unfolding eq by (simp add: n_def diff_add_eq)
  next
    case 2
    define z where "z = zeros (nat (e + 1 - n))"
    have "float_text ds e = (ds @ z) @ ''.'' @ ''0''"
      using 2 by (simp add: float_text_def Let_def z_def n_def)
    moreover have "list_all is_digit ''0''" by (simp add: is_digit_def)
    moreover have "dec_val ((ds @ z) @ ''0'') = dec_val ds * 10 ^ (nat (e + 1 - n) + 1)"
      by (simp add: dec_val_append z_def) (simp add: dec_val_def digit_val_def)
    moreover have "(10 :: rat) ^ (nat (e + 1 - n) + 1) * pow10 (- 1) = pow10 (e - n + 1)"
      using 2 pow10_add [of "int (nat (e + 1 - n) + 1)" "- 1"] by (simp only: pow10_nat) (simp add: algebra_simps)
    ultimately show ?thesis using parse_ufloat_fixed [of "ds @ z" "''0''"] ds
      by (simp add: n_def z_def mult.assoc)
  next
    case 3
    define k where "k = nat (e + 1)"
    have "float_text ds e = take k ds @ ''.'' @ drop k ds"
      using 3 by (simp add: float_text_def Let_def k_def n_def)
    moreover have "take k ds \<noteq> []" using 3 ds(2) by (simp add: k_def)
    moreover have "- int (length (drop k ds)) = e - n + 1" using 3 by (simp add: k_def n_def)
    ultimately show ?thesis using parse_ufloat_fixed [OF part(1,2), of k k] by (simp add: n_def)
  next
    case 4
    obtain c rest where c: "ds = c # rest" using ds(2) by (cases ds) auto
    define p where "p = (if rest = [] then [] else CHR ''.'' # rest)"
    have "float_text ds e = [c] @ p @ exp_text e"
      using 4 by (auto simp: float_text_def Let_def c p_def)
    moreover have "parse_ufloat ([c] @ p @ exp_text e) =
        Some (fl (of_nat (dec_val ([c] @ rest)) * pow10 (e - int (length rest))))"
      using ds(1) by (intro parse_ufloat_scientific) (simp_all add: c p_def)
    ultimately show ?thesis by (simp add: c)
  qed
qed

section \<open>Floats are read back\<close>

lemma hd_float_text:
  assumes "list_all is_digit ds" "ds \<noteq> []"
  shows "hd (float_text ds e) \<noteq> CHR ''-'' \<and> float_text ds e \<noteq> []"
proof (cases ds)
  case (Cons c rest)
  with assms(1) have "c \<noteq> CHR ''-''" by auto
  then show ?thesis by (auto simp: float_text_def Let_def Cons take_Cons')
qed (simp add: assms(2))

lemma float_text_marked: "ds \<noteq> [] \<Longrightarrow> CHR ''.'' \<in> set (float_text ds e) \<or> CHR ''e'' \<in> set (float_text ds e)"
  by (auto simp: float_text_def exp_text_def Let_def split: list.splits)

lemma parse_float_unsigned: "s \<noteq> [] \<Longrightarrow> hd s \<noteq> CHR ''-'' \<Longrightarrow> parse_float s = parse_ufloat s"
  by (cases s) (auto simp: parse_float_def)

lemma float_digits:
  assumes "0 < x" and "fl x = x" and "shortest x (ilog10 x) 1 16 = (n, d, e)"
  shows "parse_ufloat (float_text (str_nat d) e) = Some x"
proof -
  have *: "0 < n" "10 ^ (n - 1) \<le> d" "d < 10 ^ n" "fl (of_nat d * pow10 (e - int n + 1)) = x"
    using shortest_rounds [OF assms(1,2) _ _ assms(3)] by auto
  have "length (str_nat d) = n" using * by (intro length_str_nat)
  then show ?thesis
    using parse_float_text [OF str_nat_digits str_nat_nonempty, of d e] by (simp add: dec_val_str_nat *(4))
qed

lemma parse_number_float:
  assumes "fl x = x"
  shows "parse_number (float_repr x) = Some (PFloat x)"
proof (cases "x = 0")
  case True
  have "parse_number (float_repr 0) = Some (PFloat 0)" by code_simp
  with True show ?thesis by simp
next
  case False
  obtain n d e where s: "shortest \<bar>x\<bar> (ilog10 \<bar>x\<bar>) 1 16 = (n, d, e)" by (metis prod_cases3)
  define t where "t = float_text (str_nat d) e"
  have "fl \<bar>x\<bar> = \<bar>x\<bar>" using assms by (simp add: abs_if fl_uminus)
  with False s have t: "parse_ufloat t = Some \<bar>x\<bar>" unfolding t_def by (intro float_digits) auto
  have hd: "hd t \<noteq> CHR ''-''" "t \<noteq> []" and mark: "CHR ''.'' \<in> set t \<or> CHR ''e'' \<in> set t"
    using hd_float_text [OF str_nat_digits str_nat_nonempty] float_text_marked [OF str_nat_nonempty]
    by (simp_all add: t_def)
  have repr: "float_repr x = (if x < 0 then ''-'' else '''') @ t"
    using False by (simp add: float_repr_def s t_def del: One_nat_def)
  have "parse_float (float_repr x) = Some x"
  proof (cases "x < 0")
    case True
    then show ?thesis using t by (simp add: repr parse_float_def)
  next
    case False
    then show ?thesis using t hd by (simp add: repr parse_float_unsigned)
  qed
  moreover have "CHR ''.'' \<in> set (float_repr x) \<or> CHR ''e'' \<in> set (float_repr x)" using mark by (auto simp: repr)
  ultimately show ?thesis by (simp add: parse_number_def)
qed

end
