(* ===== verification/Json.thy ===== *)
theory Json
  imports FloatText
begin

text \<open>
  Reading JSON text back. \<open>json_loads\<close> is a parser for the forms that \<open>json_text\<close>
  writes, with or without blanks after the separators, and \<open>json_roundtrip\<close> says that it recovers every value whose floats are binary64
  values (\<open>wf_pyval\<close>). So the printed form determines
  the value, which is what a hash over the canonical form of a record relies on.
\<close>

section \<open>Strings\<close>

definition hex_val :: "char \<Rightarrow> nat" where
  "hex_val c = (if is_digit c then digit_val c else of_char c - 87)"

definition unescape :: "char \<Rightarrow> char" where
  "unescape c =
     (if c = CHR ''n'' then CHR 0x0A else if c = CHR ''r'' then CHR 0x0D
      else if c = CHR ''t'' then CHR 0x09 else if c = CHR ''b'' then CHR 0x08
      else if c = CHR ''f'' then CHR 0x0C else c)"

text \<open>The characters after the opening quote, up to and including the closing one.\<close>

fun parse_chars :: "string \<Rightarrow> (string \<times> string) option" where
  "parse_chars [] = None"
| "parse_chars (c # cs) =
     (if c = CHR 0x22 then Some ([], cs)
      else if c \<noteq> CHR 0x5C then map_option (apfst ((#) c)) (parse_chars cs)
      else (case cs of
              [] \<Rightarrow> None
            | d # ds \<Rightarrow>
                (if d \<noteq> CHR ''u'' then map_option (apfst ((#) (unescape d))) (parse_chars ds)
                 else (case ds of
                         _ # _ # h # l # es \<Rightarrow>
                           map_option (apfst ((#) (char_of (16 * hex_val h + hex_val l))))
                             (parse_chars es)
                       | _ \<Rightarrow> None))))"


section \<open>Values\<close>

text \<open>
  The fuel bounds the nesting and the number of members; \<open>json_need\<close> says how much a printed
  value uses, and the length of the text is always enough.
\<close>

definition skip_blanks :: "string \<Rightarrow> string" where
  "skip_blanks s = dropWhile (\<lambda>c. c = CHR '' '') s"

fun parse_val :: "nat \<Rightarrow> string \<Rightarrow> (pyval \<times> string) option"
and parse_elems :: "nat \<Rightarrow> string \<Rightarrow> (pyval list \<times> string) option"
and parse_members :: "nat \<Rightarrow> string \<Rightarrow> ((string \<times> pyval) list \<times> string) option" where
  "parse_val n s =
     (if n = 0 then None else case s of
        [] \<Rightarrow> None
      | c # cs \<Rightarrow>
          (if c = CHR 0x22 then map_option (apfst PStr) (parse_chars cs)
           else if c = CHR ''['' then
             (if take 1 cs = '']'' then Some (PList [], tl cs)
              else map_option (apfst PList) (parse_elems (n - 1) cs))
           else if c = CHR ''{'' then
             (if take 1 cs = ''}'' then Some (PDict [], tl cs)
              else map_option (apfst PDict) (parse_members (n - 1) cs))
           else if take 4 s = ''null'' then Some (PNone, drop 4 s)
           else if take 4 s = ''true'' then Some (PBool True, drop 4 s)
           else if take 5 s = ''false'' then Some (PBool False, drop 5 s)
           else map_option (\<lambda>v. (v, dropWhile is_num_char s)) (parse_number (takeWhile is_num_char s))))"
| "parse_elems n s =
     (if n = 0 then None else case parse_val (n - 1) s of
        Some (v, c # r) \<Rightarrow>
          (if c = CHR '','' then map_option (apfst ((#) v)) (parse_elems (n - 1) (skip_blanks r))
           else if c = CHR '']'' then Some ([v], r) else None)
      | _ \<Rightarrow> None)"
| "parse_members n s =
     (if n = 0 \<or> take 1 s \<noteq> [CHR 0x22] then None else case parse_chars (tl s) of
        Some (k, col # r) \<Rightarrow>
          (if col \<noteq> CHR '':'' then None else case parse_val (n - 1) (skip_blanks r) of
             Some (v, c # r') \<Rightarrow>
               (if c = CHR '',''
                then map_option (apfst ((#) (k, v))) (parse_members (n - 1) (skip_blanks r'))
                else if c = CHR ''}'' then Some ([(k, v)], r') else None)
           | _ \<Rightarrow> None)
      | _ \<Rightarrow> None)"

declare parse_val.simps [simp del] parse_elems.simps [simp del] parse_members.simps [simp del]

definition json_loads :: "string \<Rightarrow> pyval option" where
  "json_loads s =
     (case parse_val (length s) s of Some (v, r) \<Rightarrow> (if r = [] then Some v else None) | None \<Rightarrow> None)"

fun wf_pyval :: "pyval \<Rightarrow> bool" where
  "wf_pyval (PFloat x) = (fl x = x)"
| "wf_pyval (PList xs) = list_all wf_pyval xs"
| "wf_pyval (PDict d) = list_all (\<lambda>kv. wf_pyval (snd kv)) d"
| "wf_pyval v = True"


section \<open>Strings are read back\<close>

lemma hex_val_hex_char:
  assumes "d < 16"
  shows "hex_val (hex_char d) = d"
  using assms by (auto simp: hex_val_def hex_char_def is_digit_def digit_val_def)

lemma hex2_back:
  "char_of (16 * hex_val (hex_char (of_char c div 16 mod 16))
     + hex_val (hex_char (of_char c mod 16))) = (c :: char)"
proof -
  have "(of_char c :: nat) div 16 < 16"
    using nat_of_char_less_256 [of c] by (simp add: less_mult_imp_div_less)
  then show ?thesis by (simp add: hex_val_hex_char)
qed

lemma parse_chars_json_char:
  "parse_chars (json_char c @ t) = map_option (apfst ((#) c)) (parse_chars t)"
proof (cases "c \<in> {CHR 0x22, CHR 0x5C, CHR 0x0A, CHR 0x0D, CHR 0x09, CHR 0x08, CHR 0x0C}")
  case True
  then show ?thesis by (auto simp: json_char_def unescape_def)
next
  case False
  then show ?thesis using hex2_back [of c] by (simp add: json_char_def Let_def hex2_def)
qed

lemma parse_chars_json: "parse_chars (concat (map json_char s) @ CHR 0x22 # r) = Some (s, r)"
  by (induction s) (simp_all add: parse_chars_json_char)


section \<open>Values are read back\<close>

fun json_need :: "pyval \<Rightarrow> nat" where
  "json_need (PList xs) = Suc (sum_list (map (\<lambda>x. Suc (json_need x)) xs))"
| "json_need (PDict d) = Suc (sum_list (map (\<lambda>kv. Suc (json_need (snd kv))) d))"
| "json_need v = 1"

text \<open>What follows a printed value does not continue a number.\<close>

definition ends_number :: "string \<Rightarrow> bool" where
  "ends_number r \<longleftrightarrow> (r = [] \<or> \<not> is_num_char (hd r))"

lemma ends_number_delims [simp]:
  "ends_number []" "ends_number (CHR '','' # r)" "ends_number (CHR '']'' # r)" "ends_number (CHR ''}'' # r)"
  by (simp_all add: ends_number_def is_num_char_def)

lemma span_number:
  assumes "list_all is_num_char s" and "ends_number r"
  shows "takeWhile is_num_char (s @ r) = s" and "dropWhile is_num_char (s @ r) = r"
  using assms by (induction s) (cases r; simp add: ends_number_def)+

lemma num_char_not_special:
  "is_num_char c \<Longrightarrow>
     c \<notin> {CHR 0x22, CHR ''['', CHR ''{'', CHR '']'', CHR ''}'', CHR ''n'', CHR ''t'', CHR ''f''}"
  by (auto simp: is_num_char_def)

lemma parse_val_number:
  assumes num: "parse_number s = Some v" and chars: "list_all is_num_char s"
    and r: "ends_number r" and n: "0 < n"
  shows "parse_val n (s @ r) = Some (v, r)"
proof -
  obtain c cs where s: "s = c # cs" using parse_number_nonempty [OF num] by (cases s) auto
  have "is_num_char c" using chars s by simp
  from num_char_not_special [OF this]
  have "parse_val n (s @ r) =
      map_option (\<lambda>v. (v, dropWhile is_num_char (s @ r))) (parse_number (takeWhile is_num_char (s @ r)))"
    using n by (subst parse_val.simps) (auto simp: s)
  then show ?thesis by (simp add: span_number [OF chars r] num)
qed

lemma wf_number_text:
  "wf_pyval (PFloat x) \<Longrightarrow> float_repr x \<noteq> [] \<and> is_num_char (hd (float_repr x))"
  using parse_number_nonempty [OF parse_number_float, of x] num_chars_float_repr [of x]
  by (cases "float_repr x") auto

lemma str_int_hd: "is_num_char (hd (str_int i))"
  using str_int_nonempty [of i] num_chars_str_int [of i] by (cases "str_int i") auto

lemma json_text_start:
  assumes "wf_pyval v"
  shows "json_text ws v \<noteq> [] \<and> hd (json_text ws v) \<noteq> CHR '']'' \<and> hd (json_text ws v) \<noteq> CHR '' ''"
proof (cases v)
  case (PInt i)
  with str_int_hd [of i] str_int_nonempty [of i] show ?thesis by (auto simp: is_num_char_def is_digit_def)
next
  case (PFloat x)
  with wf_number_text [of x] assms show ?thesis by (auto simp: is_num_char_def is_digit_def)
qed (simp_all add: json_str_def)

definition blanks :: "string \<Rightarrow> bool" where
  "blanks ws \<longleftrightarrow> list_all (\<lambda>c. c = CHR '' '') ws"

lemma skip_blanks_text: "blanks ws \<Longrightarrow> s \<noteq> [] \<Longrightarrow> hd s \<noteq> CHR '' '' \<Longrightarrow> skip_blanks (ws @ s @ t) = s @ t"
  by (induction ws) (cases s; simp add: skip_blanks_def blanks_def)+

lemma skip_blanks_value:
  "blanks ws \<Longrightarrow> wf_pyval v \<Longrightarrow> skip_blanks (ws @ json_text ws v @ t) = json_text ws v @ t"
  using json_text_start [of v ws] by (intro skip_blanks_text) auto

lemma join_cons: "xs \<noteq> [] \<Longrightarrow> join sep (x # xs) = x @ sep @ join sep xs"
  by (cases xs) auto

lemma join_start: "xs \<noteq> [] \<Longrightarrow> \<exists>t. join sep (map f xs) = f (hd xs) @ t"
  by (cases xs; cases "tl xs") auto

lemma skip_blanks_join:
  assumes "blanks ws" and "xs \<noteq> []" and "\<And>x. x \<in> set xs \<Longrightarrow> f x \<noteq> [] \<and> hd (f x) \<noteq> CHR '' ''"
  shows "skip_blanks (ws @ join sep (map f xs) @ t) = join sep (map f xs) @ t"
proof -
  obtain u where u: "join sep (map f xs) = f (hd xs) @ u" using join_start [OF assms(2)] by blast
  show ?thesis
    using skip_blanks_text [of ws "f (hd xs)" "u @ t"] assms by (simp add: u)
qed

lemma parse_elems_print:
  assumes "\<And>x n r. x \<in> set xs \<Longrightarrow> json_need x \<le> n \<Longrightarrow> ends_number r \<Longrightarrow>
             parse_val n (json_text ws x @ r) = Some (x, r)"
    and "xs \<noteq> []" and "sum_list (map (\<lambda>x. Suc (json_need x)) xs) \<le> n"
    and "list_all wf_pyval xs" and ws: "blanks ws"
  shows "parse_elems n (join (CHR '','' # ws) (map (json_text ws) xs) @ CHR '']'' # r) = Some (xs, r)"
  using assms(1-4)
proof (induction xs arbitrary: n)
  case (Cons x xs)
  from Cons.prems(3) have n: "json_need x \<le> n - 1" "0 < n" by auto
  have val: "ends_number t \<Longrightarrow> parse_val (n - 1) (json_text ws x @ t) = Some (x, t)" for t
    using Cons.prems(1) n by simp
  show ?case
  proof (cases "xs = []")
    case True
    with n val [of "CHR '']'' # r"] show ?thesis by (simp add: parse_elems.simps)
  next
    case False
    let ?rest = "join (CHR '','' # ws) (map (json_text ws) xs) @ CHR '']'' # r"
    have "parse_elems (n - 1) ?rest = Some (xs, r)"
      using Cons.prems False by (intro Cons.IH) auto
    moreover have "skip_blanks (ws @ ?rest) = ?rest"
      using ws False json_text_start Cons.prems(4) by (intro skip_blanks_join) (auto simp: list_all_iff)
    ultimately show ?thesis
      using False n val [of "CHR '','' # ws @ ?rest"] by (simp add: parse_elems.simps [of n] join_cons)
  qed
qed simp

definition print_member :: "string \<Rightarrow> string \<times> pyval \<Rightarrow> string" where
  "print_member ws kv = json_str (fst kv) @ CHR '':'' # ws @ json_text ws (snd kv)"

lemma print_member_start: "print_member ws kv \<noteq> [] \<and> hd (print_member ws kv) = CHR 0x22"
  by (simp add: print_member_def json_str_def)

lemma parse_members_print:
  assumes "\<And>kv n r. kv \<in> set d \<Longrightarrow> json_need (snd kv) \<le> n \<Longrightarrow> ends_number r \<Longrightarrow>
             parse_val n (json_text ws (snd kv) @ r) = Some (snd kv, r)"
    and "d \<noteq> []" and "sum_list (map (\<lambda>kv. Suc (json_need (snd kv))) d) \<le> n"
    and "list_all (\<lambda>kv. wf_pyval (snd kv)) d" and ws: "blanks ws"
  shows "parse_members n (join (CHR '','' # ws) (map (print_member ws) d) @ CHR ''}'' # r) = Some (d, r)"
  using assms(1-4)
proof (induction d arbitrary: n)
  case (Cons kv d)
  from Cons.prems(3) have n: "json_need (snd kv) \<le> n - 1" "0 < n" by auto
  have key: "parse_chars (tl (print_member ws kv @ t)) =
      Some (fst kv, CHR '':'' # ws @ json_text ws (snd kv) @ t)"
    "take 1 (print_member ws kv @ t) = [CHR 0x22]" for t
    using parse_chars_json [of "fst kv" "CHR '':'' # ws @ json_text ws (snd kv) @ t"]
    by (simp_all add: print_member_def json_str_def)
  have val: "ends_number t \<Longrightarrow>
      parse_val (n - 1) (skip_blanks (ws @ json_text ws (snd kv) @ t)) = Some (snd kv, t)" for t
    using Cons.prems(1,4) n ws by (simp add: skip_blanks_value)
  show ?case
  proof (cases "d = []")
    case True
    then show ?thesis
      using n key [of "CHR ''}'' # r"] val [of "CHR ''}'' # r"] by (simp add: parse_members.simps)
  next
    case False
    let ?rest = "join (CHR '','' # ws) (map (print_member ws) d) @ CHR ''}'' # r"
    have "parse_members (n - 1) ?rest = Some (d, r)"
      using Cons.prems False by (intro Cons.IH) auto
    moreover have "skip_blanks (ws @ ?rest) = ?rest"
      using ws False print_member_start by (intro skip_blanks_join) auto
    ultimately show ?thesis
      using False n key [of "CHR '','' # ws @ ?rest"] val [of "CHR '','' # ws @ ?rest"]
      by (simp add: parse_members.simps [of n] join_cons)
  qed
qed simp

lemma json_text_PDict:
  "json_text ws (PDict d) = CHR ''{'' # join (CHR '','' # ws) (map (print_member ws) d) @ ''}''"
  by (simp add: print_member_def [abs_def])

lemma members_start: "d \<noteq> [] \<Longrightarrow> take 1 (join sep (map (print_member ws) d) @ t) \<noteq> ''}''"
  by (cases d; cases "tl d") (auto simp: print_member_def json_str_def)

lemma elems_start:
  assumes "xs \<noteq> []" and "list_all wf_pyval xs"
  shows "take 1 (join sep (map (json_text ws) xs) @ t) \<noteq> '']''"
proof -
  obtain x ys where xs: "xs = x # ys" using assms(1) by (cases xs) auto
  obtain c cs where c: "json_text ws x = c # cs" "c \<noteq> CHR '']''"
    using json_text_start [of x ws] assms(2) xs by (cases "json_text ws x") auto
  show ?thesis by (cases ys) (auto simp: xs c)
qed

lemma parse_val_print:
  assumes ws: "blanks ws"
  shows "wf_pyval v \<Longrightarrow> json_need v \<le> n \<Longrightarrow> ends_number r \<Longrightarrow> parse_val n (json_text ws v @ r) = Some (v, r)"
proof (induction v arbitrary: n r)
  case (PInt i)
  then show ?case
    using parse_val_number [OF parse_number_int num_chars_str_int] by simp
next
  case (PFloat x)
  then show ?case
    using parse_val_number [OF parse_number_float num_chars_float_repr] by simp
next
  case (PStr s)
  then show ?case
    using parse_chars_json [of s r] by (simp add: parse_val.simps [of n] json_str_def)
next
  case (PList xs)
  show ?case
  proof (cases "xs = []")
    case True
    with PList.prems show ?thesis by (simp add: parse_val.simps [of n])
  next
    case False
    have "parse_elems (n - 1) (join (CHR '','' # ws) (map (json_text ws) xs) @ CHR '']'' # r) = Some (xs, r)"
      using PList False ws by (intro parse_elems_print) (auto simp: list_all_iff)
    with False elems_start [OF False, of "CHR '','' # ws" ws "CHR '']'' # r"] PList.prems show ?thesis
      by (simp add: parse_val.simps [of n])
  qed
next
  case (PDict d)
  show ?case
  proof (cases "d = []")
    case True
    with PDict.prems show ?thesis by (simp add: parse_val.simps [of n])
  next
    case False
    have "parse_members (n - 1) (join (CHR '','' # ws) (map (print_member ws) d) @ CHR ''}'' # r) = Some (d, r)"
      using PDict False ws by (intro parse_members_print) (auto simp: list_all_iff)
    with False members_start [OF False, of "CHR '','' # ws" ws "CHR ''}'' # r"] PDict.prems show ?thesis
      by (simp add: parse_val.simps [of n] json_text_PDict del: json_text.simps)
  qed
qed (auto simp: parse_val.simps)

lemma length_join_comma:
  "xs \<noteq> [] \<Longrightarrow> sum_list (map (\<lambda>x. Suc (length x)) xs) \<le> Suc (length (join (CHR '','' # ws) xs))"
proof (induction xs)
  case (Cons x xs)
  then show ?case by (cases "xs = []") (simp_all add: join_cons)
qed simp

lemma sum_list_need_le:
  assumes "\<And>x. x \<in> set xs \<Longrightarrow> need x \<le> length (pr x)" and "xs \<noteq> []"
  shows "sum_list (map (\<lambda>x. Suc (need x)) xs) \<le> Suc (length (join (CHR '','' # ws) (map pr xs)))"
proof -
  have "sum_list (map (\<lambda>x. Suc (need x)) xs) \<le> sum_list (map (\<lambda>x. Suc (length x)) (map pr xs))"
    using assms(1) by (simp add: sum_list_mono comp_def del: sum_list_Suc)
  also have "\<dots> \<le> Suc (length (join (CHR '','' # ws) (map pr xs)))"
    using assms(2) by (intro length_join_comma) simp
  finally show ?thesis .
qed

lemma json_need_length: "wf_pyval v \<Longrightarrow> json_need v \<le> length (json_text ws v)"
proof (induction v)
  case (PInt i)
  then show ?case using str_int_nonempty [of i] by (cases "str_int i") auto
next
  case (PFloat x)
  then show ?case using wf_number_text [of x] by (cases "float_repr x") auto
next
  case (PList xs)
  show ?case
  proof (cases "xs = []")
    case False
    have "sum_list (map (\<lambda>x. Suc (json_need x)) xs)
        \<le> Suc (length (join (CHR '','' # ws) (map (json_text ws) xs)))"
      using PList False by (intro sum_list_need_le) (auto simp: list_all_iff)
    then show ?thesis by simp
  qed simp
next
  case (PDict d)
  show ?case
  proof (cases "d = []")
    case False
    have "sum_list (map (\<lambda>kv. Suc (json_need (snd kv))) d)
        \<le> Suc (length (join (CHR '','' # ws) (map (print_member ws) d)))"
      using PDict False
      by (intro sum_list_need_le) (fastforce simp: list_all_iff print_member_def)+
    then show ?thesis by (simp only: json_need.simps json_text_PDict) simp
  qed simp
qed (auto simp: json_str_def)

lemma json_text_roundtrip: "blanks ws \<Longrightarrow> wf_pyval v \<Longrightarrow> json_loads (json_text ws v) = Some v"
  using parse_val_print [of ws v "length (json_text ws v)" "[]"]
  by (simp add: json_loads_def json_need_length)

lemma json_roundtrip: "wf_pyval v \<Longrightarrow> json_loads (json_print v) = Some v"
  by (intro json_text_roundtrip) (simp_all add: blanks_def)

lemma json_print_inject:
  "wf_pyval v \<Longrightarrow> wf_pyval w \<Longrightarrow> json_print v = json_print w \<longleftrightarrow> v = w"
  by (metis json_roundtrip option.inject)

text \<open>Printed text is printable ASCII, so it holds no line break.\<close>

definition printable :: "char \<Rightarrow> bool" where
  "printable c \<longleftrightarrow> 32 \<le> (of_char c :: nat) \<and> (of_char c :: nat) \<le> 126"

lemma printable_chars [simp]:
  "printable (CHR 0x22)" "printable (CHR 0x5C)" "printable (CHR ''[''  )" "printable (CHR '']'')"
  "printable (CHR ''{'')" "printable (CHR ''}'')" "printable (CHR '','')" "printable (CHR '':'')"
  "printable (CHR ''n'')" "printable (CHR ''r'')" "printable (CHR ''t'')" "printable (CHR ''b'')"
  "printable (CHR ''f'')" "printable (CHR ''u'')" "printable (CHR ''0'')" "printable (CHR ''l'')"
  "printable (CHR ''e'')" "printable (CHR ''a'')" "printable (CHR ''s'')"
  by (simp_all add: printable_def)

lemma printable_num: "is_num_char c \<Longrightarrow> printable c"
  by (auto simp: is_num_char_def is_digit_def printable_def)

lemma printable_hex: "printable (hex_char (d mod 16))"
proof -
  have "d mod 16 < 16" by simp
  then show ?thesis by (simp add: printable_def hex_char_def del: mod_less_divisor)
qed

lemma printable_json_char: "list_all printable (json_char c)"
  unfolding json_char_def Let_def hex2_def
  by (simp add: printable_hex) (simp add: printable_def)

lemma printable_json_str: "list_all printable (json_str s)"
  using printable_json_char by (induction s) (simp_all add: json_str_def)

lemma printable_join:
  "list_all printable sep \<Longrightarrow> list_all (list_all printable) xs \<Longrightarrow> list_all printable (join sep xs)"
  by (induction sep xs rule: join.induct) auto

lemma printable_numbers: "list_all is_num_char s \<Longrightarrow> list_all printable s"
  by (auto simp: list_all_iff printable_num)

lemma printable_blanks: "blanks ws \<Longrightarrow> list_all printable ws"
  by (induction ws) (simp_all add: blanks_def printable_def)

lemma printable_json_text:
  assumes "blanks ws"
  shows "list_all printable (json_text ws v)"
proof (induction v)
  case (PList xs)
  then have "list_all (list_all printable) (map (json_text ws) xs)" by (auto simp: list_all_iff)
  then show ?case using printable_blanks [OF assms] by (simp add: printable_join)
next
  case (PDict d)
  then have "list_all (list_all printable) (map (print_member ws) d)"
    using printable_json_str printable_blanks [OF assms]
    by (fastforce simp: list_all_iff print_member_def)
  then show ?case
    using printable_blanks [OF assms] by (simp add: json_text_PDict printable_join del: json_text.simps)
qed (simp_all add: printable_json_str printable_numbers num_chars_str_int num_chars_float_repr)

end
