(* ===== verification/Identity.thy ===== *)
theory Identity
  imports Models Sha256 Json
begin

text \<open>
  Identity verification: the contract of \<^verbatim>\<open>identity/base.py\<close>, the static bearer tokens of
  \<^verbatim>\<open>identity/static_bearer.py\<close> and the session tokens of \<^verbatim>\<open>identity/session_token.py\<close>, signed with
  HMAC-SHA-256. The clock reading that a verification or an issue uses is an argument.
\<close>

section \<open>StaticBearerTokenVerifier\<close>

definition static_verify :: "string set \<Rightarrow> string \<Rightarrow> execution_context \<Rightarrow> bool result" where
  "static_verify valid_tokens credential ctx =
     Inr (if valid_tokens = {} then True else credential \<in> valid_tokens)"


section \<open>SessionTokenIssuer\<close>

record session_issuer =
  secret :: "byte list"
  ttl_seconds :: int

definition new_issuer :: "byte list \<Rightarrow> int \<Rightarrow> session_issuer result" where
  "new_issuer key ttl =
     (if key = [] then Inl (Exn ValueError ''secret must be non-empty'')
      else Inr \<lparr>secret = key, ttl_seconds = ttl\<rparr>)"

definition sign :: "byte list \<Rightarrow> string \<Rightarrow> string \<Rightarrow> int \<Rightarrow> string" where
  "sign key session agent expiry_epoch =
     hmac_hex key (utf8 (session @ '':'' @ agent @ '':'' @ str_int expiry_epoch))"

definition expiry_of :: "session_issuer \<Rightarrow> pyfloat \<Rightarrow> int" where
  "expiry_of iss now = py_trunc (fadd now (fl (of_int (ttl_seconds iss))))"

definition token_text :: "string \<Rightarrow> string \<Rightarrow> string \<Rightarrow> string \<Rightarrow> string" where
  "token_text session agent expiry signature =
     session @ ''.'' @ agent @ ''.'' @ expiry @ ''.'' @ signature"

definition issue :: "session_issuer \<Rightarrow> execution_context \<Rightarrow> pyfloat \<Rightarrow> string" where
  "issue iss ctx now =
     (let expiry_epoch = expiry_of iss now;
          signature = sign (secret iss) (session_id ctx) (agent_id ctx) expiry_epoch
      in token_text (session_id ctx) (agent_id ctx) (str_int expiry_epoch) signature)"

text \<open>\<open>str.split(c, n)\<close>: at most \<open>n\<close> splits, from the left.\<close>

fun split_max :: "char \<Rightarrow> nat \<Rightarrow> string \<Rightarrow> string list" where
  "split_max c n s =
     (if n = 0 \<or> c \<notin> set s then [s]
      else takeWhile (\<lambda>x. x \<noteq> c) s # split_max c (n - 1) (tl (dropWhile (\<lambda>x. x \<noteq> c) s)))"

declare split_max.simps [simp del]

text \<open>\<open>hmac.compare_digest\<close> of two strings: it raises unless both are ASCII.\<close>

definition is_ascii :: "string \<Rightarrow> bool" where
  "is_ascii s = list_all (\<lambda>c. (of_char c :: nat) < 128) s"

definition compare_digest :: "string \<Rightarrow> string \<Rightarrow> bool result" where
  "compare_digest a b =
     (if is_ascii a \<and> is_ascii b then Inr (a = b)
      else Inl (Exn TypeError ''comparing strings with non-ASCII characters is not supported''))"

definition session_verify ::
  "session_issuer \<Rightarrow> string \<Rightarrow> execution_context \<Rightarrow> pyfloat \<Rightarrow> bool result" where
  "session_verify iss credential ctx now =
     (case split_max (CHR ''.'') 3 credential of
        [session, agent, expiry_str, signature] \<Rightarrow>
          (case py_int expiry_str of
             None \<Rightarrow> Inr False
           | Some expiry_epoch \<Rightarrow>
               (if session \<noteq> session_id ctx \<or> agent \<noteq> agent_id ctx then Inr False
                else if of_int expiry_epoch < now then Inr False
                else compare_digest signature (sign (secret iss) session agent expiry_epoch)))
      | _ \<Rightarrow> Inr False)"


section \<open>The contract of a verifier\<close>

text \<open>
  What a gateway may rely on, and all it may rely on: a verification looks at the session and the
  agent of a context, at nothing else of it.
\<close>

locale identity_verifier =
  fixes verify :: "string \<Rightarrow> execution_context \<Rightarrow> bool result"
  assumes session_agent_only:
    "session_id c = session_id c' \<Longrightarrow> agent_id c = agent_id c' \<Longrightarrow> verify cred c = verify cred c'"
begin

lemma other_fields_unchecked:
  "verify cred (c\<lparr>user_id := u, roles := rs, delegated_scopes := ds, metadata := md\<rparr>) = verify cred c"
  by (rule session_agent_only) simp_all

end

interpretation bearer: identity_verifier "static_verify valid" for valid
  by unfold_locales (simp add: static_verify_def)

interpretation session: identity_verifier "\<lambda>cred ctx. session_verify iss cred ctx now" for iss now
proof (unfold_locales, goal_cases)
  case (1 c c' cred)
  show ?case unfolding session_verify_def 1 by (rule refl)
qed


section \<open>Facts\<close>

lemma split_max_sep:
  assumes "c \<notin> set a" and "n \<noteq> 0"
  shows "split_max c n (a @ c # b) = a # split_max c (n - 1) b"
  using assms by (subst split_max.simps) (simp add: takeWhile_sep dropWhile_sep)

lemma split_max_0: "split_max c 0 s = [s]"
  by (subst split_max.simps) simp

text \<open>The four parts of a split are the text, and the first three avoid the separator.\<close>

lemma split_max_step:
  assumes "split_max c (Suc n) s = x # y # ys"
  shows "s = x @ c # tl (dropWhile (\<lambda>x. x \<noteq> c) s) \<and> c \<notin> set x \<and>
         split_max c n (tl (dropWhile (\<lambda>x. x \<noteq> c) s)) = y # ys"
proof -
  have c: "c \<in> set s"
    using assms by (subst (asm) split_max.simps) (auto split: if_splits)
  then have parts: "x = takeWhile (\<lambda>x. x \<noteq> c) s" "split_max c n (tl (dropWhile (\<lambda>x. x \<noteq> c) s)) = y # ys"
    using assms by (subst (asm) split_max.simps; simp)+
  have "dropWhile (\<lambda>x. x \<noteq> c) s = c # tl (dropWhile (\<lambda>x. x \<noteq> c) s)"
    using c by (induction s) auto
  then have "s = takeWhile (\<lambda>x. x \<noteq> c) s @ c # tl (dropWhile (\<lambda>x. x \<noteq> c) s)"
    by (metis takeWhile_dropWhile_id)
  with parts show ?thesis by (auto dest: set_takeWhileD)
qed

lemma split_max_4:
  assumes "split_max c 3 s = [a, b, d, e]"
  shows "s = a @ c # b @ c # d @ c # e \<and> c \<notin> set a \<and> c \<notin> set b \<and> c \<notin> set d"
proof -
  let ?t = "\<lambda>s. tl (dropWhile (\<lambda>x. x \<noteq> c) s)"
  have 1: "s = a @ c # ?t s" "c \<notin> set a" "split_max c 2 (?t s) = [b, d, e]"
    using split_max_step [of c 2 s] assms by (simp_all add: numeral_3_eq_3 numeral_2_eq_2)
  have 2: "?t s = b @ c # ?t (?t s)" "c \<notin> set b" "split_max c 1 (?t (?t s)) = [d, e]"
    using split_max_step [of c 1 "?t s"] 1(3) by (simp_all add: numeral_2_eq_2)
  have 3: "?t (?t s) = d @ c # ?t (?t (?t s))" "c \<notin> set d" "split_max c 0 (?t (?t (?t s))) = [e]"
    using split_max_step [of c 0 "?t (?t s)"] 2(3) by simp_all
  have "?t (?t (?t s)) = e" using 3(3) by (simp add: split_max_0)
  then show ?thesis using 1 2 3 by metis
qed

lemma digits_val_digits:
  "list_all is_digit ds \<Longrightarrow> ds \<noteq> [] \<Longrightarrow>
     digits_val acc ds = Some (foldl (\<lambda>n c. 10 * n + digit_val c) acc ds)"
proof (induction acc ds rule: digits_val.induct)
  case (3 acc c d cs)
  moreover have "\<not> is_digit (CHR ''_'')" by (simp add: is_digit_def)
  ultimately show ?case by auto
qed auto

lemma strip_id:
  assumes "s \<noteq> []" and "\<not> is_space (hd s)" and "\<not> is_space (last s)"
  shows "strip s = s"
proof -
  have keep: "dropWhile is_space xs = xs" if "xs \<noteq> []" "\<not> is_space (hd xs)" for xs
    using that by (cases xs) simp_all
  show ?thesis
    using assms keep [of s] keep [of "rev s"] by (simp add: strip_def hd_rev)
qed

lemma digit_not_space: "is_digit c \<Longrightarrow> \<not> is_space c"
  by (auto simp: is_digit_def is_space_def Let_def)

lemma str_nat_ends: "is_digit (hd (str_nat n))" "is_digit (last (str_nat n))"
  using str_nat_digits [of n] str_nat_nonempty [of n] by (auto simp: list_all_iff)

lemma py_int_str_int: "py_int (str_int i) = Some i"
proof -
  have val: "digits_val 0 (str_nat n) = Some n" for n
    using digits_val_digits [OF str_nat_digits str_nat_nonempty, of 0 n] dec_val_str_nat [of n]
    by (simp add: dec_val_def)
  show ?thesis
  proof (cases "i < 0")
    case True
    have "\<not> is_space (CHR ''-'')" by (simp add: is_space_def)
    then have "strip (str_int i) = str_int i"
      using True str_nat_ends(2) str_nat_nonempty
      by (intro strip_id) (auto simp: str_int_def digit_not_space)
    then show ?thesis using True val by (simp add: py_int_def str_int_def)
  next
    case False
    then have "strip (str_int i) = str_int i"
      using str_nat_ends str_nat_nonempty by (intro strip_id) (auto simp: str_int_def digit_not_space)
    moreover obtain c cs where c: "str_nat (nat i) = c # cs" "is_digit c"
      using str_nat_ends(1) [of "nat i"] str_nat_nonempty [of "nat i"] by (cases "str_nat (nat i)") auto
    moreover have "c \<noteq> CHR ''-''" "c \<noteq> CHR ''+''" using c(2) by (auto simp: is_digit_def)
    ultimately show ?thesis using False val [of "nat i"] by (simp add: py_int_def str_int_def)
  qed
qed

lemma str_int_no_dot: "CHR ''.'' \<notin> set (str_int i)"
  using str_nat_no_point(1) by (simp add: str_int_def)

lemma hex_char_ascii: "d < 16 \<Longrightarrow> (of_char (hex_char d) :: nat) < 128"
  by (simp add: hex_char_def)

lemma hexdigest_ascii: "is_ascii (hexdigest bs)"
proof -
  have "(of_char (hex_char (n mod 16)) :: nat) < 128" for n by (rule hex_char_ascii) simp
  then show ?thesis by (auto simp: is_ascii_def hexdigest_def hex_byte_def hex2_def list_all_iff)
qed

lemma sign_ascii: "is_ascii (sign key s a e)"
  by (simp add: sign_def hmac_hex_def hexdigest_ascii)

lemma split_token:
  assumes "CHR ''.'' \<notin> set s" and "CHR ''.'' \<notin> set a" and "CHR ''.'' \<notin> set e"
  shows "split_max (CHR ''.'') 3 (token_text s a e g) = [s, a, e, g]"
  using split_max_sep [OF assms(1), of 3 "a @ ''.'' @ e @ ''.'' @ g"]
    split_max_sep [OF assms(2), of 2 "e @ ''.'' @ g"] split_max_sep [OF assms(3), of 1 g]
  by (simp add: token_text_def split_max_0)

lemma session_verify_token:
  assumes "CHR ''.'' \<notin> set (session_id ctx)" and "CHR ''.'' \<notin> set (agent_id ctx)"
    and "CHR ''.'' \<notin> set e" and "py_int e = Some n" and "now \<le> of_int n"
  shows "session_verify iss (token_text (session_id ctx) (agent_id ctx) e g) ctx now =
           compare_digest g (sign (secret iss) (session_id ctx) (agent_id ctx) n)"
  using assms(4,5) by (simp add: session_verify_def split_token [OF assms(1-3)])


text \<open>What a credential that verifies looks like.\<close>

lemma session_verify_sound:
  assumes "session_verify iss credential ctx now = Inr True"
  shows "\<exists>e n. py_int e = Some n \<and> now \<le> of_int n \<and>
           credential = token_text (session_id ctx) (agent_id ctx) e
             (sign (secret iss) (session_id ctx) (agent_id ctx) n) \<and>
           CHR ''.'' \<notin> set (session_id ctx) \<and> CHR ''.'' \<notin> set (agent_id ctx)"
proof -
  obtain s a e g where parts: "split_max (CHR ''.'') 3 credential = [s, a, e, g]"
    using assms by (auto simp: session_verify_def split: list.split_asm)
  with assms obtain n where "py_int e = Some n" "s = session_id ctx" "a = agent_id ctx" "now \<le> of_int n"
    "compare_digest g (sign (secret iss) s a n) = Inr True"
    by (auto simp: session_verify_def split: option.split_asm if_split_asm)
  moreover have "credential = token_text s a e g \<and> CHR ''.'' \<notin> set s \<and> CHR ''.'' \<notin> set a"
    using split_max_4 [OF parts] by (simp add: token_text_def)
  ultimately show ?thesis by (auto simp: compare_digest_def split: if_split_asm)
qed


text \<open>What an issued token is worth.\<close>

lemma session_verify_issued:
  assumes "CHR ''.'' \<notin> set (session_id ctx)" and "CHR ''.'' \<notin> set (agent_id ctx)"
  shows "session_verify iss (issue iss ctx now) ctx later = Inr (later \<le> of_int (expiry_of iss now))"
proof (cases "later \<le> of_int (expiry_of iss now)")
  case True
  from session_verify_token [OF assms str_int_no_dot py_int_str_int True] True show ?thesis
    by (simp add: issue_def Let_def compare_digest_def sign_ascii)
next
  case False
  then show ?thesis
    by (simp add: issue_def Let_def session_verify_def split_token [OF assms str_int_no_dot]
        py_int_str_int)
qed


section \<open>Properties\<close>

definition sample_issuer :: session_issuer where
  "sample_issuer = \<lparr>secret = utf8 ''k'', ttl_seconds = 900\<rparr>"

definition sample_session :: "string \<Rightarrow> string \<Rightarrow> execution_context" where
  "sample_session s a =
     \<lparr>user_id = ''u'', agent_id = a, session_id = s, roles = [], delegated_scopes = [], metadata = []\<rparr>"

text \<open>
  C30: Issue and verify: a session token verifies for the context it was issued for until its expiry,
  and no longer, provided that neither the session nor the agent identifier holds a dot.
\<close>

theorem session_token_roundtrip:
  assumes "CHR ''.'' \<notin> set (session_id ctx)" and "CHR ''.'' \<notin> set (agent_id ctx)"
  shows "session_verify iss (issue iss ctx now) ctx later = Inr (later \<le> of_int (expiry_of iss now))"
  by (rule session_verify_issued [OF assms])

theorem session_token_roundtrip_witness:
  "session_verify sample_issuer (issue sample_issuer (sample_session ''s1'' ''a1'') 100)
     (sample_session ''s1'' ''a1'') 1001 = Inr False"
proof -
  have "expiry_of sample_issuer 100 = 1000" by code_simp
  then show ?thesis
    using session_token_roundtrip [of "sample_session ''s1'' ''a1''" sample_issuer 100 1001]
    by (simp add: sample_session_def)
qed

text \<open>
  C29: What a session token proves: if a credential verifies, it spells out the session and the agent
  of the context, an expiry that has not passed, and the keyed hash of exactly these three under the
  issuer's secret; and both identifiers are free of dots.
\<close>

theorem session_token_sound:
  assumes "session_verify iss credential ctx now = Inr True"
  shows "\<exists>e n. py_int e = Some n \<and> now \<le> of_int n \<and>
           credential = token_text (session_id ctx) (agent_id ctx) e
             (sign (secret iss) (session_id ctx) (agent_id ctx) n) \<and>
           CHR ''.'' \<notin> set (session_id ctx) \<and> CHR ''.'' \<notin> set (agent_id ctx)"
  by (rule session_verify_sound [OF assms])

theorem session_token_sound_witness:
  "\<exists>e n. py_int e = Some n \<and> (500 :: pyfloat) \<le> of_int n \<and>
     issue sample_issuer (sample_session ''s1'' ''a1'') 100 =
       token_text ''s1'' ''a1'' e (sign (secret sample_issuer) ''s1'' ''a1'' n)"
proof -
  have "expiry_of sample_issuer 100 = 1000" by code_simp
  then have "py_int (str_int 1000) = Some 1000" and
    tok: "issue sample_issuer (sample_session ''s1'' ''a1'') 100 =
      token_text ''s1'' ''a1'' (str_int 1000) (sign (secret sample_issuer) ''s1'' ''a1'' 1000)"
    by (simp_all add: py_int_str_int issue_def Let_def sample_session_def)
  have ids: "session_id (sample_session ''s1'' ''a1'') = ''s1''" "agent_id (sample_session ''s1'' ''a1'') = ''a1''"
    by (simp_all add: sample_session_def)
  have "session_verify sample_issuer (issue sample_issuer (sample_session ''s1'' ''a1'') 100)
      (sample_session ''s1'' ''a1'') 500 = Inr True"
    unfolding tok using session_verify_token [of "sample_session ''s1'' ''a1''" "str_int 1000" 1000 500
        sample_issuer "sign (secret sample_issuer) ''s1'' ''a1'' 1000"]
    by (simp add: ids str_int_no_dot py_int_str_int compare_digest_def sign_ascii)
  from session_token_sound [OF this] show ?thesis unfolding ids by blast
qed

text \<open>
  What a session token does not prove: the signed text joins session, agent and expiry by colons,
  so the signature of a token for the session \<open>x:y\<close> and the agent \<open>a\<close> is also that for the session \<open>x\<close>
  and the agent \<open>y:a\<close>; its holder can respell it for the other pair and it verifies there.
\<close>

theorem session_token_respelled:
  assumes "CHR ''.'' \<notin> set (x @ y @ a)" and "session_id ctx = x @ '':'' @ y" and "agent_id ctx = a"
    and "session_id ctx' = x" and "agent_id ctx' = y @ '':'' @ a"
    and "later \<le> of_int (expiry_of iss now)"
  shows "session_verify iss
           (token_text x (y @ '':'' @ a) (str_int (expiry_of iss now))
              (sign (secret iss) (session_id ctx) (agent_id ctx) (expiry_of iss now))) ctx' later = Inr True"
proof -
  let ?n = "expiry_of iss now"
  have same: "sign (secret iss) (session_id ctx) (agent_id ctx) ?n =
      sign (secret iss) (session_id ctx') (agent_id ctx') ?n"
    by (simp add: sign_def assms(2-5))
  have dots: "CHR ''.'' \<notin> set (session_id ctx')" "CHR ''.'' \<notin> set (agent_id ctx')"
    using assms(1) by (auto simp: assms(4,5))
  from session_verify_token [OF this str_int_no_dot py_int_str_int assms(6), of iss] show ?thesis
    unfolding same by (simp add: assms(4,5) compare_digest_def sign_ascii)
qed

theorem session_token_respelled_witness:
  "session_verify sample_issuer
     (token_text ''s'' ''t:a'' (str_int (expiry_of sample_issuer 100))
        (sign (secret sample_issuer) ''s:t'' ''a'' (expiry_of sample_issuer 100)))
     (sample_session ''s'' ''t:a'') 1000 = Inr True"
proof -
  have "1000 \<le> (of_int (expiry_of sample_issuer 100) :: pyfloat)" by code_simp
  then show ?thesis
    using session_token_respelled [of "''s''" "''t''" "''a''" "sample_session ''s:t'' ''a''"
        "sample_session ''s'' ''t:a''" 1000 sample_issuer 100]
    by (simp add: sample_session_def)
qed

text \<open>
  A verification of a session token can raise: a credential with the right session and agent, an
  expiry that has not passed and a signature with a character beyond ASCII ends in the \<open>TypeError\<close> of
  the digest comparison instead of a refusal; every other credential gets an answer.
\<close>

theorem session_verify_raises_iff:
  "session_verify iss credential ctx now = Inl err \<longleftrightarrow>
     (\<exists>e n g. split_max (CHR ''.'') 3 credential = [session_id ctx, agent_id ctx, e, g] \<and>
        py_int e = Some n \<and> now \<le> of_int n \<and> \<not> is_ascii g \<and>
        err = Exn TypeError ''comparing strings with non-ASCII characters is not supported'')"
proof
  assume L: "session_verify iss credential ctx now = Inl err"
  then obtain s a e g where parts: "split_max (CHR ''.'') 3 credential = [s, a, e, g]"
    by (auto simp: session_verify_def split: list.split_asm)
  with L show "\<exists>e n g. split_max (CHR ''.'') 3 credential = [session_id ctx, agent_id ctx, e, g] \<and>
        py_int e = Some n \<and> now \<le> of_int n \<and> \<not> is_ascii g \<and>
        err = Exn TypeError ''comparing strings with non-ASCII characters is not supported''"
    by (auto simp: session_verify_def compare_digest_def sign_ascii split: option.split_asm if_split_asm)
next
  assume "\<exists>e n g. split_max (CHR ''.'') 3 credential = [session_id ctx, agent_id ctx, e, g] \<and>
        py_int e = Some n \<and> now \<le> of_int n \<and> \<not> is_ascii g \<and>
        err = Exn TypeError ''comparing strings with non-ASCII characters is not supported''"
  then show "session_verify iss credential ctx now = Inl err"
    by (auto simp: session_verify_def compare_digest_def)
qed

end
