(* ===== verification/Gateway.thy ===== *)
theory Gateway
  imports SemanticDlp Identity
begin

text \<open>
  The gateway and the scripted client of \<^verbatim>\<open>gateway/shim.py\<close>: bearer-token identity, the rate limit per
  agent, and the masking pass ahead of the guardrail. A gateway is built over a verifier of the
  contract in \<open>Identity\<close>; the clock reading that its verification takes is an argument.

  \<open>identified_count\<close> and \<open>admission\<close> are the specification of the counters: how often the agent was
  identified before a request, and what that decides. \<open>gateway_enforces_limit\<close> shows that a gateway
  answers every sequence of requests by them.
\<close>

section \<open>LiteLLMGatewayShim\<close>

type_synonym verifier = "pyfloat \<Rightarrow> string \<Rightarrow> execution_context \<Rightarrow> bool result"

text \<open>The two verifiers of the code as such.\<close>

definition bearer_verifier :: "string set \<Rightarrow> verifier" where
  "bearer_verifier valid_tokens now credential ctx = static_verify valid_tokens credential ctx"

definition session_verifier :: "session_issuer \<Rightarrow> verifier" where
  "session_verifier iss now credential ctx = session_verify iss credential ctx now"

record gateway =
  identity_verifier :: verifier
  rate_limit_per_minute :: int
  call_counts :: "string \<rightharpoonup> int"

text \<open>The defaults of the fields.\<close>

definition new_gateway :: "verifier \<Rightarrow> gateway" where
  "new_gateway verify =
     \<lparr>identity_verifier = verify, rate_limit_per_minute = 100, call_counts = Map.empty\<rparr>"

definition default_gateway :: gateway where
  "default_gateway = new_gateway (bearer_verifier {})"

definition authenticate :: "gateway \<Rightarrow> pyfloat \<Rightarrow> string \<Rightarrow> execution_context \<Rightarrow> unit result" where
  "authenticate gw now credential ctx =
     (case identity_verifier gw now credential ctx of
        Inl e \<Rightarrow> Inl e
      | Inr ok \<Rightarrow>
          (if \<not> ok then Inl (Exn GatewayAuthError ''identity verification failed'') else Inr ()))"

text \<open>\<open>self._call_counts[agent_id]\<close> of a \<open>defaultdict(int)\<close>: reading a missing key stores a zero.\<close>

definition call_count :: "gateway \<Rightarrow> string \<Rightarrow> int \<times> gateway" where
  "call_count gw agent =
     (case call_counts gw agent of
        Some n \<Rightarrow> (n, gw)
      | None \<Rightarrow> (0, gw\<lparr>call_counts := (call_counts gw)(agent \<mapsto> 0)\<rparr>))"

definition check_rate_limit :: "gateway \<Rightarrow> string \<Rightarrow> unit result \<times> gateway" where
  "check_rate_limit gw agent =
     (let n = fst (call_count gw agent) + 1;
          gw' = gw\<lparr>call_counts := (call_counts gw)(agent \<mapsto> n)\<rparr>
      in if rate_limit_per_minute gw < n
         then (Inl (Exn GatewayAuthError (''rate limit exceeded for agent '' @ squote agent)), gw')
         else (Inr (), gw'))"

definition handle_inbound ::
  "gateway \<Rightarrow> pyfloat \<Rightarrow> string \<Rightarrow> execution_context \<Rightarrow> string \<Rightarrow> string result \<times> gateway" where
  "handle_inbound gw now prompt ctx bearer_token =
     (case authenticate gw now bearer_token ctx of
        Inl e \<Rightarrow> (Inl e, gw)
      | Inr _ \<Rightarrow>
          (case check_rate_limit gw (agent_id ctx) of
             (Inl e, gw') \<Rightarrow> (Inl e, gw')
           | (Inr _, gw') \<Rightarrow> (Inr (mask prompt), gw')))"


section \<open>FakeLLMClient\<close>

record proposed_tool_call =
  p_tool_name :: string
  p_function_name :: string
  p_parameters :: params
  p_call_id :: string

definition to_tool_request :: "proposed_tool_call \<Rightarrow> tool_request" where
  "to_tool_request p =
     \<lparr>tool_name = p_tool_name p, function_name = p_function_name p, parameters = p_parameters p,
      call_id = p_call_id p\<rparr>"

record llm_client =
  scripted_tool_calls :: "proposed_tool_call list"
  final_response :: string

definition new_llm_client :: llm_client where
  "new_llm_client = \<lparr>scripted_tool_calls = [], final_response = ''acknowledged''\<rparr>"

definition script_tool_call :: "proposed_tool_call \<Rightarrow> llm_client \<Rightarrow> llm_client" where
  "script_tool_call call c = c\<lparr>scripted_tool_calls := scripted_tool_calls c @ [call]\<rparr>"

definition clear_scripted_calls :: "llm_client \<Rightarrow> llm_client" where
  "clear_scripted_calls c = c\<lparr>scripted_tool_calls := []\<rparr>"

definition set_final_response :: "string \<Rightarrow> llm_client \<Rightarrow> llm_client" where
  "set_final_response response c = c\<lparr>final_response := response\<rparr>"

definition propose_tool_calls ::
  "llm_client \<Rightarrow> string \<Rightarrow> execution_context \<Rightarrow> proposed_tool_call list" where
  "propose_tool_calls c prompt ctx = scripted_tool_calls c"

definition complete :: "llm_client \<Rightarrow> string \<Rightarrow> execution_context \<Rightarrow> string" where
  "complete c prompt ctx = final_response c"


section \<open>Sequences of inbound requests\<close>

record inbound =
  in_now :: pyfloat
  in_prompt :: string
  in_context :: execution_context
  in_token :: string

fun inbound_seq :: "inbound list \<Rightarrow> gateway \<Rightarrow> string result list \<times> gateway" where
  "inbound_seq [] gw = ([], gw)"
| "inbound_seq (q # qs) gw =
     (let (r, gw') = handle_inbound gw (in_now q) (in_prompt q) (in_context q) (in_token q);
          (rs, gw'') = inbound_seq qs gw'
      in (r # rs, gw''))"

definition in_agent :: "inbound \<Rightarrow> string" where
  "in_agent q = agent_id (in_context q)"

definition identified :: "verifier \<Rightarrow> inbound \<Rightarrow> bool" where
  "identified verify q \<longleftrightarrow> verify (in_now q) (in_token q) (in_context q) = Inr True"

text \<open>How many requests of an agent in a list were identified.\<close>

definition identified_count :: "verifier \<Rightarrow> string \<Rightarrow> inbound list \<Rightarrow> int" where
  "identified_count verify agent qs =
     int (length (filter (\<lambda>q. identified verify q \<and> in_agent q = agent) qs))"

text \<open>
  What a gateway answers to a request whose agent was identified \<open>n\<close> times before, and to each of
  a list of requests, stated without state.
\<close>

definition answer_after :: "verifier \<Rightarrow> int \<Rightarrow> int \<Rightarrow> inbound \<Rightarrow> string result" where
  "answer_after verify limit n q =
     (case verify (in_now q) (in_token q) (in_context q) of
        Inl e \<Rightarrow> Inl e
      | Inr ok \<Rightarrow>
          (if \<not> ok then Inl (Exn GatewayAuthError ''identity verification failed'')
           else if n < limit then Inr (mask (in_prompt q))
           else Inl (Exn GatewayAuthError (''rate limit exceeded for agent '' @ squote (in_agent q)))))"

definition admission :: "verifier \<Rightarrow> int \<Rightarrow> inbound list \<Rightarrow> string result list" where
  "admission verify limit qs =
     map (\<lambda>i. answer_after verify limit (identified_count verify (in_agent (qs ! i)) (take i qs)) (qs ! i))
       [0..<length qs]"


section \<open>Facts\<close>

definition count_of :: "gateway \<Rightarrow> string \<Rightarrow> int" where
  "count_of gw agent = (case call_counts gw agent of None \<Rightarrow> 0 | Some n \<Rightarrow> n)"

lemma call_count_fst [simp]: "fst (call_count gw agent) = count_of gw agent"
  by (simp add: call_count_def count_of_def split: option.split)

lemma call_count_frame:
  "count_of (snd (call_count gw agent)) a = count_of gw a"
  by (simp add: call_count_def count_of_def split: option.split)

lemma count_of_upd [simp]:
  "count_of (gw\<lparr>call_counts := (call_counts gw)(agent \<mapsto> n)\<rparr>) a = (if a = agent then n else count_of gw a)"
  by (simp add: count_of_def)

lemma handle_inbound_eq:
  "handle_inbound gw now prompt ctx token =
     (case identity_verifier gw now token ctx of
        Inl e \<Rightarrow> (Inl e, gw)
      | Inr ok \<Rightarrow>
          (if \<not> ok then (Inl (Exn GatewayAuthError ''identity verification failed''), gw)
           else (if count_of gw (agent_id ctx) < rate_limit_per_minute gw then Inr (mask prompt)
                 else Inl (Exn GatewayAuthError
                        (''rate limit exceeded for agent '' @ squote (agent_id ctx))),
                 gw\<lparr>call_counts := (call_counts gw)(agent_id ctx \<mapsto> count_of gw (agent_id ctx) + 1)\<rparr>)))"
  by (simp add: handle_inbound_def authenticate_def check_rate_limit_def Let_def split: sum.split)

lemma handle_inbound_counts:
  assumes "handle_inbound gw (in_now q) (in_prompt q) (in_context q) (in_token q) = (r, gw')"
  shows "identity_verifier gw' = identity_verifier gw"
    and "rate_limit_per_minute gw' = rate_limit_per_minute gw"
    and "count_of gw' a =
      count_of gw a + of_bool (identified (identity_verifier gw) q \<and> in_agent q = a)"
  using assms
  by (auto simp: handle_inbound_eq identified_def in_agent_def split: sum.split_asm if_split_asm)

lemma identified_count_simps [simp]:
  "identified_count v a [] = 0"
  "identified_count v a (q # qs) = of_bool (identified v q \<and> in_agent q = a) + identified_count v a qs"
  by (simp_all add: identified_count_def)

text \<open>The answers of a gateway that has already counted some requests.\<close>

lemma handle_inbound_answer:
  assumes "handle_inbound gw (in_now q) (in_prompt q) (in_context q) (in_token q) = (r, gw')"
  shows "r = answer_after (identity_verifier gw) (rate_limit_per_minute gw) (count_of gw (in_agent q)) q"
  using assms
  by (auto simp: answer_after_def handle_inbound_eq in_agent_def split: sum.split if_split_asm)

lemma inbound_seq_from:
  "fst (inbound_seq qs gw) =
     map (\<lambda>i. answer_after (identity_verifier gw) (rate_limit_per_minute gw)
            (count_of gw (in_agent (qs ! i))
               + identified_count (identity_verifier gw) (in_agent (qs ! i)) (take i qs)) (qs ! i))
       [0..<length qs]"
proof (induction qs arbitrary: gw)
  case (Cons q qs)
  obtain r gw' where h: "handle_inbound gw (in_now q) (in_prompt q) (in_context q) (in_token q) = (r, gw')"
    by fastforce
  have range: "[0..<length (q # qs)] = 0 # map Suc [0..<length qs]"
    by (simp add: upt_conv_Cons map_Suc_upt del: upt_Suc)
  show ?case
    unfolding range
    by (simp add: h Let_def split_beta Cons.IH handle_inbound_answer [OF h] handle_inbound_counts [OF h]
          add.assoc)
qed simp

lemma inbound_seq_counts:
  "count_of (snd (inbound_seq qs gw)) a = count_of gw a + identified_count (identity_verifier gw) a qs \<and>
   identity_verifier (snd (inbound_seq qs gw)) = identity_verifier gw \<and>
   rate_limit_per_minute (snd (inbound_seq qs gw)) = rate_limit_per_minute gw"
proof (induction qs arbitrary: gw)
  case (Cons q qs)
  obtain r gw' where h: "handle_inbound gw (in_now q) (in_prompt q) (in_context q) (in_token q) = (r, gw')"
    by fastforce
  show ?case by (simp add: h Let_def split_beta Cons.IH handle_inbound_counts [OF h])
qed simp

section \<open>Properties\<close>

text \<open>
  C28: The gateway's answers to any sequence of requests, from a fresh gateway: a request that the
  verifier refuses or fails on is refused and not counted; an identified request of an agent passes,
  with its prompt masked, exactly when fewer than the limit of that agent's requests were identified
  before it, whatever other agents sent in between; and afterwards \<open>call_count\<close> of an agent is the
  number of its identified requests, the refused ones included.
\<close>

theorem gateway_enforces_limit:
  "fst (inbound_seq qs \<lparr>identity_verifier = v, rate_limit_per_minute = n, call_counts = Map.empty\<rparr>) =
     admission v n qs \<and>
   fst (call_count
     (snd (inbound_seq qs \<lparr>identity_verifier = v, rate_limit_per_minute = n, call_counts = Map.empty\<rparr>))
     agent) = identified_count v agent qs"
  by (simp add: inbound_seq_from inbound_seq_counts admission_def) (simp add: count_of_def)

text \<open>
  The limit is one for the lifetime of the gateway, not per minute: once an agent has been
  identified as often as the limit says, every later request of it is refused, at whatever time it
  comes; a request of an agent that is below the limit passes if it is identified.
\<close>

theorem rate_limit_for_lifetime:
  assumes "identity_verifier gw now token ctx = Inr True"
    and "call_counts gw = Map.empty"
  shows "fst (handle_inbound (snd (inbound_seq qs gw)) now prompt ctx token) =
           (if rate_limit_per_minute gw \<le> identified_count (identity_verifier gw) (agent_id ctx) qs
            then Inl (Exn GatewayAuthError (''rate limit exceeded for agent '' @ squote (agent_id ctx)))
            else Inr (mask prompt))"
  using assms by (simp add: handle_inbound_eq inbound_seq_counts) (simp add: count_of_def)

definition sample_inbound :: "pyfloat \<Rightarrow> inbound" where
  "sample_inbound now =
     \<lparr>in_now = now, in_prompt = ''hi'', in_context = sample_session ''s1'' ''a1'', in_token = ''t''\<rparr>"

theorem rate_limit_for_lifetime_witness:
  "fst (handle_inbound
     (snd (inbound_seq (map sample_inbound [0, 3600]) (default_gateway\<lparr>rate_limit_per_minute := 2\<rparr>)))
     7200 ''hi'' (sample_session ''s1'' ''a1'') ''t'') =
   Inl (Exn GatewayAuthError (''rate limit exceeded for agent '' @ squote ''a1''))"
proof -
  let ?gw = "default_gateway\<lparr>rate_limit_per_minute := 2\<rparr>"
  have "identity_verifier ?gw 7200 ''t'' (sample_session ''s1'' ''a1'') = Inr True"
    by (simp add: default_gateway_def new_gateway_def bearer_verifier_def static_verify_def)
  moreover have "identified_count (identity_verifier ?gw) ''a1'' (map sample_inbound [0, 3600]) = 2"
    by (simp add: default_gateway_def new_gateway_def bearer_verifier_def static_verify_def
          identified_def in_agent_def sample_inbound_def sample_session_def)
  ultimately show ?thesis
    using rate_limit_for_lifetime [of ?gw 7200 "''t''" "sample_session ''s1'' ''a1''"
        "map sample_inbound [0, 3600]" "''hi''"]
    by (simp add: default_gateway_def new_gateway_def sample_session_def)
qed

end
