(* ===== verification/Breaker.thy ===== *)
theory Breaker
  imports PyFloat
begin

text \<open>
  The circuit breaker of \<^verbatim>\<open>reliability/circuit_breaker.py\<close>: the backend interface, the in-memory
  backend with its deque of timed outcomes per key, and the facade that derives keys from
  agent and tool. Each operation takes the reading \<open>now\<close> of the monotonic clock.

  \<open>window_outcomes\<close> is the specification of the deque: the outcomes of the whole history since
  the last reset that are still inside the window. The deque that the code prunes from the
  front holds exactly those, for every sequence of operations under a clock that does not run
  backwards (\<open>mem_sim\<close>). The locale \<open>breaker_backend\<close> states what a client may rely on.
\<close>

record breaker_config =
  window_seconds :: pyfloat
  failure_threshold :: pyfloat
  min_samples :: int
  cooldown_seconds :: pyfloat

text \<open>The defaults of the constructor.\<close>

definition default_breaker_config :: breaker_config where
  "default_breaker_config =
     \<lparr>window_seconds = 60, failure_threshold = fl (1 / 2), min_samples = 5, cooldown_seconds = 30\<rparr>"

type_synonym outcome = "pyfloat \<times> bool"

record mem_backend =
  events :: "string \<rightharpoonup> outcome list"
  tripped_at :: "string \<rightharpoonup> pyfloat"

definition mem_init :: mem_backend where
  "mem_init = \<lparr>events = Map.empty, tripped_at = Map.empty\<rparr>"

text \<open>\<open>self._events.setdefault(key, deque())\<close>, read as the deque.\<close>

definition key_events :: "mem_backend \<Rightarrow> string \<Rightarrow> outcome list" where
  "key_events st key = (case events st key of None \<Rightarrow> [] | Some evs \<Rightarrow> evs)"

definition mem_prune ::
  "breaker_config \<Rightarrow> string \<Rightarrow> pyfloat \<Rightarrow> mem_backend \<Rightarrow> outcome list \<times> mem_backend" where
  "mem_prune cfg key now st =
     (let cutoff = fsub now (window_seconds cfg);
          evs = dropWhile (\<lambda>ev. fst ev < cutoff) (key_events st key)
      in (evs, st\<lparr>events := (events st)(key \<mapsto> evs)\<rparr>))"

definition mem_append ::
  "breaker_config \<Rightarrow> string \<Rightarrow> bool \<Rightarrow> pyfloat \<Rightarrow> mem_backend \<Rightarrow> mem_backend" where
  "mem_append cfg key success now st =
     (let (evs, st') = mem_prune cfg key now st
      in st'\<lparr>events := (events st')(key \<mapsto> evs @ [(now, success)])\<rparr>)"

definition mem_record_success ::
  "breaker_config \<Rightarrow> string \<Rightarrow> pyfloat \<Rightarrow> mem_backend \<Rightarrow> mem_backend" where
  "mem_record_success cfg key now st = mem_append cfg key True now st"

definition mem_record_failure ::
  "breaker_config \<Rightarrow> string \<Rightarrow> pyfloat \<Rightarrow> mem_backend \<Rightarrow> mem_backend" where
  "mem_record_failure cfg key now st = mem_append cfg key False now st"

definition failures :: "outcome list \<Rightarrow> nat" where
  "failures evs = length (filter (\<lambda>(t, success). \<not> success) evs)"

definition mem_score ::
  "breaker_config \<Rightarrow> string \<Rightarrow> pyfloat \<Rightarrow> mem_backend \<Rightarrow> pyfloat \<times> mem_backend" where
  "mem_score cfg key now st =
     (let (evs, st') = mem_prune cfg key now st
      in (if evs = [] then 0 else int_div (failures evs) (length evs), st'))"

definition mem_is_open ::
  "breaker_config \<Rightarrow> string \<Rightarrow> pyfloat \<Rightarrow> mem_backend \<Rightarrow> bool result \<times> mem_backend" where
  "mem_is_open cfg key now st =
     (case tripped_at st key of
        Some t \<Rightarrow>
          (if fsub now t < cooldown_seconds cfg then (Inr True, st)
           else (Inr False, st\<lparr>tripped_at := (tripped_at st)(key := None),
                               events := (events st)(key \<mapsto> [])\<rparr>))
      | None \<Rightarrow>
          (let (evs, st') = mem_prune cfg key now st in
           if int (length evs) < min_samples cfg then (Inr False, st')
           else if evs = [] then (Inl (Exn ZeroDivisionError ''division by zero''), st')
           else if failure_threshold cfg \<le> int_div (failures evs) (length evs)
           then (Inr True, st'\<lparr>tripped_at := (tripped_at st')(key \<mapsto> now)\<rparr>)
           else (Inr False, st')))"


section \<open>The backend interface and the facade\<close>

text \<open>The methods of \<open>BaseCircuitBreakerBackend\<close>; a backend over a network may raise.\<close>

record 's backend_ops =
  op_record_success :: "string \<Rightarrow> pyfloat \<Rightarrow> 's \<Rightarrow> unit result \<times> 's"
  op_record_failure :: "string \<Rightarrow> pyfloat \<Rightarrow> 's \<Rightarrow> unit result \<times> 's"
  op_is_open :: "string \<Rightarrow> pyfloat \<Rightarrow> 's \<Rightarrow> bool result \<times> 's"
  op_score :: "string \<Rightarrow> pyfloat \<Rightarrow> 's \<Rightarrow> pyfloat result \<times> 's"

definition mem_backend_ops :: "breaker_config \<Rightarrow> mem_backend backend_ops" where
  "mem_backend_ops cfg =
     \<lparr>op_record_success = (\<lambda>key now st. (Inr (), mem_record_success cfg key now st)),
      op_record_failure = (\<lambda>key now st. (Inr (), mem_record_failure cfg key now st)),
      op_is_open = mem_is_open cfg,
      op_score = (\<lambda>key now st. apfst Inr (mem_score cfg key now st))\<rparr>"

definition key_for :: "string \<Rightarrow> string \<Rightarrow> string" where
  "key_for agent tool = agent @ '':'' @ tool"

definition breaker_check ::
  "'s backend_ops \<Rightarrow> string \<Rightarrow> string \<Rightarrow> pyfloat \<Rightarrow> 's \<Rightarrow> bool result \<times> 's" where
  "breaker_check ops agent tool now st =
     (case op_is_open ops (key_for agent tool) now st of
        (Inl e, st') \<Rightarrow> (Inl e, st')
      | (Inr opened, st') \<Rightarrow> (Inr (\<not> opened), st'))"

definition breaker_record_result ::
  "'s backend_ops \<Rightarrow> string \<Rightarrow> string \<Rightarrow> bool \<Rightarrow> pyfloat \<Rightarrow> 's \<Rightarrow> unit result \<times> 's" where
  "breaker_record_result ops agent tool success now st =
     (let key = key_for agent tool in
      if success then op_record_success ops key now st else op_record_failure ops key now st)"

definition breaker_score ::
  "'s backend_ops \<Rightarrow> string \<Rightarrow> string \<Rightarrow> pyfloat \<Rightarrow> 's \<Rightarrow> pyfloat result \<times> 's" where
  "breaker_score ops agent tool now st = op_score ops (key_for agent tool) now st"


section \<open>Equations of the operations\<close>

lemma failures_le [simp]: "failures evs \<le> length evs"
  by (simp add: failures_def)

lemma failures_Nil [simp]: "failures [] = 0"
  by (simp add: failures_def)

lemma failures_append [simp]: "failures (xs @ ys) = failures xs + failures ys"
  by (simp add: failures_def)

definition rate :: "outcome list \<Rightarrow> pyfloat" where
  "rate evs = (if evs = [] then 0 else int_div (failures evs) (length evs))"

lemma rate_unit: "0 \<le> rate evs \<and> rate evs \<le> 1"
  using int_div_unit [of "failures evs" "length evs"] by (simp add: rate_def)

lemma rate_all_failures:
  assumes "evs \<noteq> []" and "\<forall>ev \<in> set evs. \<not> snd ev"
  shows "rate evs = 1"
proof -
  have "failures evs = length evs" using assms(2) by (simp add: failures_def split_beta)
  with assms(1) show ?thesis by (simp add: rate_def int_div_full)
qed

lemma key_events_upd [simp]:
  "key_events (st\<lparr>events := (events st)(k \<mapsto> evs)\<rparr>) j = (if j = k then evs else key_events st j)"
  by (simp add: key_events_def)

lemma key_events_trip [simp]: "key_events (st\<lparr>tripped_at := t\<rparr>) j = key_events st j"
  by (simp add: key_events_def)

definition pruned :: "breaker_config \<Rightarrow> pyfloat \<Rightarrow> outcome list \<Rightarrow> outcome list" where
  "pruned cfg now evs = dropWhile (\<lambda>ev. fst ev < fsub now (window_seconds cfg)) evs"

lemma mem_prune_eq [breaker_simps]:
  "mem_prune cfg key now st =
     (pruned cfg now (key_events st key),
      st\<lparr>events := (events st)(key \<mapsto> pruned cfg now (key_events st key))\<rparr>)"
  by (simp add: mem_prune_def pruned_def Let_def)

lemma mem_append_view [breaker_simps]:
  "key_events (mem_append cfg key b now st) j =
     (if j = key then pruned cfg now (key_events st key) @ [(now, b)] else key_events st j)"
  "tripped_at (mem_append cfg key b now st) = tripped_at st"
  by (simp_all add: mem_append_def mem_prune_eq key_events_def)

lemma mem_score_eq [breaker_simps]:
  "mem_score cfg key now st =
     (rate (pruned cfg now (key_events st key)),
      st\<lparr>events := (events st)(key \<mapsto> pruned cfg now (key_events st key))\<rparr>)"
  by (simp add: mem_score_def mem_prune_eq rate_def)

text \<open>The decision of \<open>is_open\<close> on what the key's deque and trip time are.\<close>

definition open_verdict ::
  "breaker_config \<Rightarrow> pyfloat \<Rightarrow> pyfloat option \<Rightarrow> outcome list \<Rightarrow> bool result" where
  "open_verdict cfg now trip evs =
     (case trip of
        Some t \<Rightarrow> Inr (fsub now t < cooldown_seconds cfg)
      | None \<Rightarrow>
          if int (length evs) < min_samples cfg then Inr False
          else if evs = [] then Inl (Exn ZeroDivisionError ''division by zero'')
          else Inr (failure_threshold cfg \<le> rate evs))"

lemma mem_is_open_verdict [breaker_simps]:
  "fst (mem_is_open cfg key now st) =
     open_verdict cfg now (tripped_at st key) (pruned cfg now (key_events st key))"
  by (simp add: mem_is_open_def open_verdict_def mem_prune_eq rate_def split: option.splits)


section \<open>Runs, and the specification by history\<close>

datatype breaker_op = RecordOp string bool | CheckOp string | ScoreOp string

fun mem_step :: "breaker_config \<Rightarrow> pyfloat \<Rightarrow> breaker_op \<Rightarrow> mem_backend \<Rightarrow> mem_backend" where
  "mem_step cfg now (RecordOp k b) st =
     (if b then mem_record_success cfg k now st else mem_record_failure cfg k now st)"
| "mem_step cfg now (CheckOp k) st = snd (mem_is_open cfg k now st)"
| "mem_step cfg now (ScoreOp k) st = snd (mem_score cfg k now st)"

fun mem_run :: "breaker_config \<Rightarrow> (pyfloat \<times> breaker_op) list \<Rightarrow> mem_backend \<Rightarrow> mem_backend" where
  "mem_run cfg [] st = st"
| "mem_run cfg ((now, op) # ops) st = mem_run cfg ops (mem_step cfg now op st)"

record spec_breaker =
  hist :: "string \<Rightarrow> outcome list"
  trip :: "string \<Rightarrow> pyfloat option"

definition spec_init :: spec_breaker where
  "spec_init = \<lparr>hist = (\<lambda>_. []), trip = (\<lambda>_. None)\<rparr>"

definition window_outcomes :: "breaker_config \<Rightarrow> pyfloat \<Rightarrow> outcome list \<Rightarrow> outcome list" where
  "window_outcomes cfg now h = filter (\<lambda>ev. fsub now (window_seconds cfg) \<le> fst ev) h"

definition spec_open :: "breaker_config \<Rightarrow> string \<Rightarrow> pyfloat \<Rightarrow> spec_breaker \<Rightarrow> bool result" where
  "spec_open cfg k now s = open_verdict cfg now (trip s k) (window_outcomes cfg now (hist s k))"

fun spec_step :: "breaker_config \<Rightarrow> pyfloat \<Rightarrow> breaker_op \<Rightarrow> spec_breaker \<Rightarrow> spec_breaker" where
  "spec_step cfg now (RecordOp k b) s = s\<lparr>hist := (hist s)(k := hist s k @ [(now, b)])\<rparr>"
| "spec_step cfg now (CheckOp k) s =
     (case trip s k of
        Some t \<Rightarrow>
          (if spec_open cfg k now s = Inr True then s
           else s\<lparr>trip := (trip s)(k := None), hist := (hist s)(k := [])\<rparr>)
      | None \<Rightarrow>
          (if spec_open cfg k now s = Inr True then s\<lparr>trip := (trip s)(k := Some now)\<rparr> else s))"
| "spec_step cfg now (ScoreOp k) s = s"

fun spec_run :: "breaker_config \<Rightarrow> (pyfloat \<times> breaker_op) list \<Rightarrow> spec_breaker \<Rightarrow> spec_breaker" where
  "spec_run cfg [] s = s"
| "spec_run cfg ((now, op) # ops) s = spec_run cfg ops (spec_step cfg now op s)"

definition mem_sim :: "breaker_config \<Rightarrow> pyfloat \<Rightarrow> mem_backend \<Rightarrow> spec_breaker \<Rightarrow> bool" where
  "mem_sim cfg now st s \<longleftrightarrow>
     (\<forall>k. tripped_at st k = trip s k \<and>
          sorted (map fst (key_events st k)) \<and>
          (\<forall>ev \<in> set (key_events st k). fst ev \<le> now) \<and>
          (\<forall>later \<ge> now.
             window_outcomes cfg later (key_events st k) = window_outcomes cfg later (hist s k)))"

lemma dropWhile_sorted:
  "sorted (map fst evs) \<Longrightarrow> dropWhile (\<lambda>ev. fst ev < c) evs = filter (\<lambda>ev. c \<le> fst ev) evs"
  by (induction evs) (auto simp: not_less intro!: filter_True [symmetric])

lemma pruned_sorted: "sorted (map fst evs) \<Longrightarrow> pruned cfg now evs = window_outcomes cfg now evs"
  by (simp add: pruned_def window_outcomes_def dropWhile_sorted)

lemma sorted_window:
  "sorted (map fst evs) \<Longrightarrow> sorted (map fst (window_outcomes cfg now evs))"
  by (simp add: window_outcomes_def sorted_filter)

lemma window_window:
  assumes "now \<le> later"
  shows "window_outcomes cfg later (window_outcomes cfg now evs) = window_outcomes cfg later evs"
  using fsub_mono [OF assms, of "window_seconds cfg"]
  by (auto simp: window_outcomes_def intro!: filter_cong)

lemma mem_simI:
  assumes "\<And>k. tripped_at st k = trip s k" and "\<And>k. sorted (map fst (key_events st k))"
    and "\<And>k ev. ev \<in> set (key_events st k) \<Longrightarrow> fst ev \<le> now"
    and "\<And>k later. now \<le> later \<Longrightarrow>
           window_outcomes cfg later (key_events st k) = window_outcomes cfg later (hist s k)"
  shows "mem_sim cfg now st s"
  using assms by (auto simp: mem_sim_def)

lemma mem_simD:
  assumes "mem_sim cfg now st s"
  shows "tripped_at st k = trip s k" and "sorted (map fst (key_events st k))"
    and "ev \<in> set (key_events st k) \<Longrightarrow> fst ev \<le> now"
    and "now \<le> later \<Longrightarrow>
           window_outcomes cfg later (key_events st k) = window_outcomes cfg later (hist s k)"
  using assms by (auto simp: mem_sim_def)

lemma mem_sim_open:
  assumes "mem_sim cfg now st s" and "now \<le> later"
  shows "fst (mem_is_open cfg k later st) = spec_open cfg k later s"
  using mem_simD [OF assms(1)] assms(2)
  by (simp add: mem_is_open_verdict spec_open_def pruned_sorted)

lemma mem_sim_prune:
  assumes sim: "mem_sim cfg now st s" and le: "now \<le> later"
  shows "mem_sim cfg later (snd (mem_prune cfg k later st)) s"
proof (rule mem_simI)
  fix j
  show "tripped_at (snd (mem_prune cfg k later st)) j = trip s j"
    using mem_simD(1) [OF sim] by (simp add: mem_prune_eq)
  show "sorted (map fst (key_events (snd (mem_prune cfg k later st)) j))"
    using mem_simD(2) [OF sim] by (simp add: mem_prune_eq pruned_sorted sorted_window)
next
  fix j ev
  assume "ev \<in> set (key_events (snd (mem_prune cfg k later st)) j)"
  then have "ev \<in> set (key_events st j)"
    by (auto simp: mem_prune_eq pruned_def split: if_splits dest: set_dropWhileD)
  then show "fst ev \<le> later" using mem_simD(3) [OF sim] le by fastforce
next
  fix j t
  assume "later \<le> t"
  with le show "window_outcomes cfg t (key_events (snd (mem_prune cfg k later st)) j) =
      window_outcomes cfg t (hist s j)"
    using mem_simD(2,4) [OF sim] by (simp add: mem_prune_eq pruned_sorted window_window)
qed

lemma mem_sim_append:
  assumes sim: "mem_sim cfg now st s" and le: "now \<le> later"
  shows "mem_sim cfg later (mem_append cfg k b later st) (spec_step cfg later (RecordOp k b) s)"
proof (rule mem_simI)
  fix j
  show "tripped_at (mem_append cfg k b later st) j = trip (spec_step cfg later (RecordOp k b) s) j"
    using mem_simD(1) [OF sim] by (simp add: mem_append_view)
  have "ev \<in> set (window_outcomes cfg later (key_events st k)) \<Longrightarrow> fst ev \<le> later" for ev
    using mem_simD(3) [OF sim, of ev k] le by (auto simp: window_outcomes_def)
  then show "sorted (map fst (key_events (mem_append cfg k b later st) j))"
    using mem_simD(2) [OF sim]
    by (simp add: mem_append_view pruned_sorted sorted_window sorted_append)
next
  fix j ev
  assume "ev \<in> set (key_events (mem_append cfg k b later st) j)"
  then have "ev \<in> set (key_events st j) \<or> fst ev = later"
    by (auto simp: mem_append_view pruned_def split: if_splits dest: set_dropWhileD)
  then show "fst ev \<le> later" using mem_simD(3) [OF sim] le by fastforce
next
  fix j t
  assume "later \<le> t"
  moreover have "window_outcomes cfg t (xs @ ys) = window_outcomes cfg t xs @ window_outcomes cfg t ys"
    for xs ys by (simp add: window_outcomes_def)
  ultimately show "window_outcomes cfg t (key_events (mem_append cfg k b later st) j) =
      window_outcomes cfg t (hist (spec_step cfg later (RecordOp k b) s) j)"
    using mem_simD(2,4) [OF sim] le by (simp add: mem_append_view pruned_sorted window_window)
qed

lemma mem_sim_later: "mem_sim cfg now st s \<Longrightarrow> now \<le> later \<Longrightarrow> mem_sim cfg later st s"
  by (fastforce simp: mem_sim_def)

lemma mem_is_open_state:
  "snd (mem_is_open cfg k now st) =
     (case tripped_at st k of
        Some t \<Rightarrow>
          (if fst (mem_is_open cfg k now st) = Inr True then st
           else st\<lparr>tripped_at := (tripped_at st)(k := None), events := (events st)(k \<mapsto> [])\<rparr>)
      | None \<Rightarrow>
          (let st' = snd (mem_prune cfg k now st) in
           if fst (mem_is_open cfg k now st) = Inr True
           then st'\<lparr>tripped_at := (tripped_at st')(k \<mapsto> now)\<rparr> else st'))"
  by (simp add: mem_is_open_def mem_prune_eq Let_def split: option.splits)

lemma mem_sim_reset:
  assumes sim: "mem_sim cfg now st s" and le: "now \<le> later"
  shows "mem_sim cfg later
           (st\<lparr>tripped_at := (tripped_at st)(k := None), events := (events st)(k \<mapsto> [])\<rparr>)
           (s\<lparr>trip := (trip s)(k := None), hist := (hist s)(k := [])\<rparr>)"
  using mem_sim_later [OF sim le]
  by (auto simp: mem_sim_def key_events_def window_outcomes_def)

lemma mem_sim_trip:
  "mem_sim cfg now st s \<Longrightarrow>
     mem_sim cfg now (st\<lparr>tripped_at := (tripped_at st)(k := t)\<rparr>) (s\<lparr>trip := (trip s)(k := t)\<rparr>)"
  by (simp add: mem_sim_def)

lemma mem_sim_check:
  assumes sim: "mem_sim cfg now st s" and le: "now \<le> later"
  shows "mem_sim cfg later (snd (mem_is_open cfg k later st)) (spec_step cfg later (CheckOp k) s)"
proof -
  note verdict = mem_sim_open [OF sim le, of k]
  have trip: "tripped_at st k = trip s k" by (rule mem_simD(1) [OF sim])
  show ?thesis
  proof (cases "trip s k")
    case None
    note prune = mem_sim_prune [OF sim le, of k]
    show ?thesis
      using prune mem_sim_trip [OF prune, of k "Some later"]
      by (simp add: mem_is_open_state verdict trip None Let_def)
  next
    case (Some t)
    then show ?thesis
      using mem_sim_later [OF sim le] mem_sim_reset [OF sim le, of k]
      by (simp add: mem_is_open_state verdict trip)
  qed
qed

lemma mem_sim_step:
  assumes sim: "mem_sim cfg now st s" and le: "now \<le> later"
  shows "mem_sim cfg later (mem_step cfg later op st) (spec_step cfg later op s)"
proof (cases op)
  case (RecordOp k b)
  then show ?thesis
    using mem_sim_append [OF sim le, of k b]
    by (cases b) (simp_all add: mem_record_success_def mem_record_failure_def del: spec_step.simps)
next
  case (CheckOp k)
  then show ?thesis using mem_sim_check [OF sim le, of k] by (simp del: spec_step.simps)
next
  case (ScoreOp k)
  then show ?thesis
    using mem_sim_prune [OF sim le, of k] by (simp add: mem_score_eq mem_prune_eq)
qed

lemma mem_sim_init: "mem_sim cfg now mem_init spec_init"
  by (simp add: mem_sim_def mem_init_def spec_init_def key_events_def)

text \<open>Clock readings that do not decrease, from a first reading on.\<close>

fun clock_from :: "pyfloat \<Rightarrow> (pyfloat \<times> breaker_op) list \<Rightarrow> bool" where
  "clock_from t [] = True"
| "clock_from t ((now, op) # ops) = (t \<le> now \<and> clock_from now ops)"

definition clock_end :: "pyfloat \<Rightarrow> (pyfloat \<times> breaker_op) list \<Rightarrow> pyfloat" where
  "clock_end t ops = (if ops = [] then t else fst (last ops))"

lemma mem_sim_run:
  assumes "mem_sim cfg t st s" and "clock_from t ops"
  shows "mem_sim cfg (clock_end t ops) (mem_run cfg ops st) (spec_run cfg ops s)"
  using assms
proof (induction cfg ops st arbitrary: t s rule: mem_run.induct)
  case (1 cfg st)
  then show ?case by (simp add: clock_end_def)
next
  case (2 cfg now op ops st)
  then have "mem_sim cfg (clock_end now ops) (mem_run cfg ops (mem_step cfg now op st))
      (spec_run cfg ops (spec_step cfg now op s))"
    by (intro "2.IH") (auto intro: mem_sim_step)
  then show ?case by (simp add: clock_end_def split: if_splits)
qed


section \<open>What a client of a backend relies on\<close>

locale breaker_backend =
  fixes ops :: "'s backend_ops"
    and view :: "'s \<Rightarrow> string \<Rightarrow> 'v"
  assumes success_frame: "j \<noteq> k \<Longrightarrow> view (snd (op_record_success ops k now st)) j = view st j"
    and failure_frame: "j \<noteq> k \<Longrightarrow> view (snd (op_record_failure ops k now st)) j = view st j"
    and open_frame: "j \<noteq> k \<Longrightarrow> view (snd (op_is_open ops k now st)) j = view st j"
    and open_local: "view st k = view st' k \<Longrightarrow>
          fst (op_is_open ops k now st) = fst (op_is_open ops k now st')"
    and score_unit: "fst (op_score ops k now st) = Inr x \<Longrightarrow> 0 \<le> x \<and> x \<le> 1"
begin

lemma check_local:
  assumes "view st (key_for a t) = view st' (key_for a t)"
  shows "fst (breaker_check ops a t now st) = fst (breaker_check ops a t now st')"
  using open_local [OF assms, of now]
  by (auto simp: breaker_check_def split: prod.splits sum.splits)

lemma record_result_frame:
  "j \<noteq> key_for a t \<Longrightarrow> view (snd (breaker_record_result ops a t b now st)) j = view st j"
  by (simp add: breaker_record_result_def Let_def success_frame failure_frame)

lemma check_frame: "j \<noteq> key_for a t \<Longrightarrow> view (snd (breaker_check ops a t now st)) j = view st j"
  using open_frame [of j "key_for a t" now st]
  by (auto simp: breaker_check_def split: prod.splits sum.splits)

lemma record_isolated:
  assumes "key_for a t \<noteq> key_for a' t'"
  shows "fst (breaker_check ops a' t' later (snd (breaker_record_result ops a t b now st))) =
         fst (breaker_check ops a' t' later st)"
  using assms by (intro check_local record_result_frame) simp

lemma facade_score_unit:
  "fst (breaker_score ops a t now st) = Inr x \<Longrightarrow> 0 \<le> x \<and> x \<le> 1"
  unfolding breaker_score_def by (rule score_unit)

end

definition mem_view :: "mem_backend \<Rightarrow> string \<Rightarrow> outcome list \<times> pyfloat option" where
  "mem_view st k = (key_events st k, tripped_at st k)"

lemma mem_append_frame: "j \<noteq> k \<Longrightarrow> mem_view (mem_append cfg k b now st) j = mem_view st j"
  by (simp add: mem_view_def mem_append_view)

lemma mem_is_open_frame: "j \<noteq> k \<Longrightarrow> mem_view (snd (mem_is_open cfg k now st)) j = mem_view st j"
  by (auto simp: mem_view_def mem_is_open_state mem_prune_eq key_events_def Let_def
        split: option.splits)

interpretation mem: breaker_backend "mem_backend_ops cfg" mem_view for cfg
proof (unfold_locales, goal_cases)
  case (1 j k now st)
  then show ?case by (simp add: mem_backend_ops_def mem_record_success_def mem_append_frame)
next
  case (2 j k now st)
  then show ?case by (simp add: mem_backend_ops_def mem_record_failure_def mem_append_frame)
next
  case (3 j k now st)
  then show ?case by (simp add: mem_backend_ops_def mem_is_open_frame)
next
  case (4 st k st' now)
  then show ?case by (simp add: mem_backend_ops_def mem_is_open_verdict mem_view_def)
next
  case (5 k now st x)
  then show ?case using rate_unit by (auto simp: mem_backend_ops_def mem_score_eq)
qed

lemma key_for_inject:
  assumes "CHR '':'' \<notin> set a" and "CHR '':'' \<notin> set a'"
  shows "key_for a t = key_for a' t' \<longleftrightarrow> a = a' \<and> t = t'"
  using append_sep_inject [OF assms, of t t'] by (auto simp: key_for_def)

section \<open>Properties\<close>

text \<open>
  C17: Window refinement: after any sequence of recorded outcomes, checks and score readings on any
  keys, under a clock that does not run backwards, the in-memory backend answers \<open>is_open\<close> and
  \<open>score\<close> as the specification does that keeps the whole history since the last reset and looks at
  the outcomes inside the window. Pruning the deque from the front loses nothing.
\<close>

theorem mem_backend_refines_history:
  assumes "clock_from t ops" and "clock_end t ops \<le> now"
  shows "fst (mem_is_open cfg k now (mem_run cfg ops mem_init)) =
           spec_open cfg k now (spec_run cfg ops spec_init) \<and>
         fst (mem_score cfg k now (mem_run cfg ops mem_init)) =
           rate (window_outcomes cfg now (hist (spec_run cfg ops spec_init) k))"
proof -
  have sim: "mem_sim cfg (clock_end t ops) (mem_run cfg ops mem_init) (spec_run cfg ops spec_init)"
    by (rule mem_sim_run [OF mem_sim_init assms(1)])
  show ?thesis
    using mem_sim_open [OF sim assms(2)] mem_simD(2,4) [OF sim] assms(2)
    by (simp add: mem_score_eq pruned_sorted)
qed

definition sample_config :: breaker_config where
  "sample_config =
     \<lparr>window_seconds = 10, failure_threshold = 1, min_samples = 2, cooldown_seconds = 5\<rparr>"

theorem mem_backend_refines_history_witness:
  "let ops = [(0, RecordOp ''a:t'' True), (3, RecordOp ''a:t'' False), (12, RecordOp ''a:t'' False)]
   in fst (mem_is_open sample_config ''a:t'' 13 (mem_run sample_config ops mem_init)) =
        spec_open sample_config ''a:t'' 13 (spec_run sample_config ops spec_init) \<and>
      fst (mem_score sample_config ''a:t'' 13 (mem_run sample_config ops mem_init)) =
        rate (window_outcomes sample_config 13 (hist (spec_run sample_config ops spec_init) ''a:t''))"
  unfolding Let_def
  by (rule mem_backend_refines_history [where t = 0]) (simp_all add: clock_end_def)

lemma tripped_step:
  assumes "tripped_at st k = Some t" and "fsub now t < cooldown_seconds cfg"
  shows "tripped_at (mem_step cfg now op st) k = Some t"
proof (cases op)
  case (RecordOp j b)
  with assms show ?thesis
    by (simp add: mem_record_success_def mem_record_failure_def mem_append_view)
next
  case (CheckOp j)
  with assms show ?thesis
    by (auto simp: mem_is_open_def mem_prune_eq Let_def split: option.split)
next
  case (ScoreOp j)
  with assms show ?thesis by (simp add: mem_score_eq)
qed

lemma tripped_run:
  assumes "tripped_at st k = Some t" and "\<forall>(now, op) \<in> set ops. fsub now t < cooldown_seconds cfg"
  shows "tripped_at (mem_run cfg ops st) k = Some t"
  using assms by (induction cfg ops st rule: mem_run.induct) (auto simp: tripped_step)

text \<open>
  C34: Once a check has opened the breaker for a key, it stays open for the whole cooldown, whatever
  is recorded, checked or read for this or other keys meanwhile; the first check after the
  cooldown closes it and forgets the key's outcomes, so that the key starts afresh.
\<close>

theorem breaker_open_for_cooldown:
  assumes "mem_is_open cfg k t st = (Inr True, st')" and "tripped_at st k = None"
    and "\<forall>(now, op) \<in> set ops. fsub now t < cooldown_seconds cfg"
  shows "if fsub now t < cooldown_seconds cfg
         then mem_is_open cfg k now (mem_run cfg ops st') = (Inr True, mem_run cfg ops st')
         else fst (mem_is_open cfg k now (mem_run cfg ops st')) = Inr False \<and>
              mem_view (snd (mem_is_open cfg k now (mem_run cfg ops st'))) k = ([], None)"
proof -
  have "tripped_at st' k = Some t"
    using assms(1,2) by (auto simp: mem_is_open_def mem_prune_eq split: if_splits)
  note trip = tripped_run [OF this assms(3)]
  then show ?thesis by (simp add: mem_is_open_def mem_view_def key_events_def)
qed

definition tripped_sample :: mem_backend where
  "tripped_sample =
     mem_run sample_config [(0, RecordOp ''a:t'' False), (1, RecordOp ''a:t'' False)] mem_init"

theorem breaker_open_for_cooldown_witness:
  "fst (mem_is_open sample_config ''a:t'' 4
     (mem_run sample_config [(3, RecordOp ''a:t'' True)]
        (snd (mem_is_open sample_config ''a:t'' 2 tripped_sample)))) = Inr True \<and>
   fst (mem_is_open sample_config ''a:t'' 7
     (mem_run sample_config [(3, RecordOp ''a:t'' True)]
        (snd (mem_is_open sample_config ''a:t'' 2 tripped_sample)))) = Inr False"
proof -
  have "fst (mem_is_open sample_config ''a:t'' 2 tripped_sample) = Inr True" by code_simp
  then have opened: "mem_is_open sample_config ''a:t'' 2 tripped_sample =
      (Inr True, snd (mem_is_open sample_config ''a:t'' 2 tripped_sample))"
    by (metis prod.collapse)
  have closed: "tripped_at tripped_sample ''a:t'' = None" by code_simp
  have ops: "\<forall>(now, op) \<in> set [(3, RecordOp ''a:t'' True)]. fsub now 2 < cooldown_seconds sample_config"
    by code_simp
  have "fsub 4 2 < cooldown_seconds sample_config" by code_simp
  moreover have "\<not> fsub 7 2 < cooldown_seconds sample_config" by code_simp
  ultimately show ?thesis
    using breaker_open_for_cooldown [OF opened closed ops, of 4]
      breaker_open_for_cooldown [OF opened closed ops, of 7] by simp
qed

text \<open>
  The only error of the in-memory \<open>is_open\<close> is a division by zero, and it occurs exactly when the
  breaker is configured with \<open>min_samples\<close> of zero or less and an untripped key has no outcome in
  the window.
\<close>

theorem mem_is_open_error_iff:
  "fst (mem_is_open cfg k now st) = Inl e \<longleftrightarrow>
     tripped_at st k = None \<and> pruned cfg now (key_events st k) = [] \<and> min_samples cfg \<le> 0 \<and>
     e = Exn ZeroDivisionError ''division by zero''"
  by (auto simp: mem_is_open_verdict open_verdict_def split: option.splits)

text \<open>
  Outcomes of one agent and tool never change the verdict for another pair, as long as agent
  identifiers contain no colon (the separator of the key); and every score lies between 0 and 1.
\<close>

theorem breaker_keys_isolated:
  assumes "CHR '':'' \<notin> set a" and "CHR '':'' \<notin> set a'" and "(a, t) \<noteq> (a', t')"
  shows "fst (breaker_check (mem_backend_ops cfg) a' t' later
           (snd (breaker_record_result (mem_backend_ops cfg) a t b now st))) =
         fst (breaker_check (mem_backend_ops cfg) a' t' later st) \<and>
         (\<exists>x. fst (breaker_score (mem_backend_ops cfg) a t now st) = Inr x \<and> 0 \<le> x \<and> x \<le> 1)"
proof -
  have "\<exists>x. fst (breaker_score (mem_backend_ops cfg) a t now st) = Inr x"
    by (simp add: breaker_score_def mem_backend_ops_def)
  then show ?thesis
    using mem.record_isolated [of a t a' t' cfg] mem.facade_score_unit assms
    by (auto simp: key_for_inject)
qed

theorem breaker_keys_isolated_witness:
  "fst (breaker_check (mem_backend_ops sample_config) ''b'' ''t'' 2
     (snd (breaker_record_result (mem_backend_ops sample_config) ''a'' ''t'' False 1 tripped_sample))) =
   fst (breaker_check (mem_backend_ops sample_config) ''b'' ''t'' 2 tripped_sample)"
  using breaker_keys_isolated [of "''a''" "''b''" "''t''" "''t''" sample_config 2 False 1 tripped_sample]
  by simp

end
