(* ===== verification/Hitl.thy ===== *)
theory Hitl
  imports Models
begin

text \<open>
  Human-in-the-loop approval, \<^verbatim>\<open>hitl/approval.py\<close>: the callback signature and the in-memory queue.
  A callback reads and changes a state of its own; what it raises is a value.
\<close>

type_synonym 'a approval_callback =
  "execution_context \<Rightarrow> tool_request \<Rightarrow> policy_decision \<Rightarrow> 'a \<Rightarrow> bool result \<times> 'a"

record approval_queue =
  decisions :: "bool dict"
  default_decision :: bool
  received :: "(execution_context \<times> tool_request \<times> policy_decision) list"

definition approval_queue_init :: "bool \<Rightarrow> approval_queue" where
  "approval_queue_init dflt = \<lparr>decisions = [], default_decision = dflt, received = []\<rparr>"

definition set_decision :: "string \<Rightarrow> bool \<Rightarrow> approval_queue \<Rightarrow> approval_queue" where
  "set_decision cid approved q = q\<lparr>decisions := AList.update cid approved (decisions q)\<rparr>"

definition queue_call :: "approval_queue approval_callback" where
  "queue_call ctx req d q =
     (let q' = q\<lparr>received := received q @ [(ctx, req, d)]\<rparr>
      in (Inr (case map_of (decisions q') (call_id req) of
                 None \<Rightarrow> default_decision q' | Some b \<Rightarrow> b), q'))"

text \<open>What a reviewer answers to a call, as the queue stands.\<close>

definition answer :: "approval_queue \<Rightarrow> string \<Rightarrow> bool" where
  "answer q cid = (case map_of (decisions q) cid of None \<Rightarrow> default_decision q | Some b \<Rightarrow> b)"

lemma answer_init [simp]: "answer (approval_queue_init b) cid = b"
  by (simp add: answer_def approval_queue_init_def)

lemma answer_set [simp]:
  "answer (set_decision cid b q) cid' = (if cid' = cid then b else answer q cid')"
  by (simp add: answer_def set_decision_def update_conv' split: option.split)

lemma queue_call_eq:
  "queue_call ctx req d q =
     (Inr (answer q (call_id req)), q\<lparr>received := received q @ [(ctx, req, d)]\<rparr>)"
  by (simp add: queue_call_def answer_def Let_def split: option.split)

lemma answer_received [simp]: "answer (q\<lparr>received := xs\<rparr>) cid = answer q cid"
  by (simp add: answer_def split: option.split)

end
