(* ===== verification/Sandbox.thy ===== *)
theory Sandbox
  imports Models Sha256
begin

text \<open>
  The sandboxes: \<^verbatim>\<open>sandbox/base.py\<close>, the in-process stub \<^verbatim>\<open>sandbox/subprocess_sandbox.py\<close> and the
  container sandboxes of \<^verbatim>\<open>sandbox/docker_sandbox.py\<close>. Tool implementations and the operating
  system's process machinery are parameters; the clock readings around a call are arguments.
  The locale \<open>sandbox_contract\<close> is what the interceptor reads off a result: a call that timed
  out never carries the exit code of success.
\<close>

record sandbox_result =
  stdout :: string
  stderr :: string
  exit_code :: int
  duration_ms :: pyfloat
  timed_out :: bool

text \<open>The readings of the monotonic clock before and after a call.\<close>

type_synonym span = "pyfloat \<times> pyfloat"

definition span_ms :: "span \<Rightarrow> pyfloat" where
  "span_ms sp = fmul (fsub (snd sp) (fst sp)) 1000"

definition mk_result :: "string \<Rightarrow> string \<Rightarrow> int \<Rightarrow> pyfloat \<Rightarrow> sandbox_result" where
  "mk_result out err code ms =
     \<lparr>stdout = out, stderr = err, exit_code = code, duration_ms = ms, timed_out = False\<rparr>"


section \<open>SubprocessSandbox\<close>

type_synonym tool_implementation = "tool_request \<Rightarrow> execution_context \<Rightarrow> string awaited"

record subprocess_sandbox =
  implementations :: "tool_implementation dict"
  sp_timeout_s :: pyfloat

text \<open>The constructor with its defaults.\<close>

definition new_subprocess_sandbox :: subprocess_sandbox where
  "new_subprocess_sandbox = \<lparr>implementations = [], sp_timeout_s = 5\<rparr>"

definition default_implementation :: tool_implementation where
  "default_implementation req ctx =
     (0, Inr (''ok: executed '' @ tool_name req @ ''.'' @ function_name req))"

definition sp_register ::
  "string \<Rightarrow> string \<Rightarrow> tool_implementation \<Rightarrow> subprocess_sandbox \<Rightarrow> subprocess_sandbox" where
  "sp_register tool fn impl sb =
     sb\<lparr>implementations := AList.update (tool @ ''.'' @ fn) impl (implementations sb)\<rparr>"

definition sp_execute ::
  "subprocess_sandbox \<Rightarrow> span \<Rightarrow> tool_request \<Rightarrow> execution_context \<Rightarrow> sandbox_result result" where
  "sp_execute sb sp req ctx =
     (let key = tool_name req @ ''.'' @ function_name req;
          impl = (case map_of (implementations sb) key of
                    None \<Rightarrow> default_implementation | Some i \<Rightarrow> i)
      in case wait_for (sp_timeout_s sb) (impl req ctx) of
           Inr out \<Rightarrow> Inr (mk_result out '''' 0 (span_ms sp))
         | Inl e \<Rightarrow>
             (if exn_class e = TimeoutError
              then Inr ((mk_result '''' (''execution exceeded '' @ float_repr (sp_timeout_s sb)
                                        @ ''s timeout'') 124 (span_ms sp))\<lparr>timed_out := True\<rparr>)
              else if is_Exception e then Inr (mk_result '''' (exn_str e) 1 (span_ms sp))
              else Inl e))"


section \<open>DockerSandbox and RestrictedDockerSandbox\<close>

record docker_config =
  image :: string
  dk_timeout_s :: pyfloat
  memory_limit :: string
  cpus :: string

definition default_docker_config :: docker_config where
  "default_docker_config =
     \<lparr>image = ''python:3.11-slim'', dk_timeout_s = 15, memory_limit = ''256m'', cpus = ''1''\<rparr>"

datatype docker_class = DockerSandbox | RestrictedDockerSandbox

fun extra_docker_flags :: "docker_class \<Rightarrow> string list" where
  "extra_docker_flags DockerSandbox = []"
| "extra_docker_flags RestrictedDockerSandbox =
     [''--user'', ''65534:65534'', ''--read-only'', ''--tmpfs'', ''/tmp'', ''--cap-drop'', ''ALL'',
      ''--security-opt'', ''no-new-privileges'']"

text \<open>\<open>_build_command\<close>: the \<open>ValueError\<close> is \<open>Inl\<close> of its message.\<close>

definition build_command :: "tool_request \<Rightarrow> string + string list" where
  "build_command req =
     (case dict_get (parameters req) ''command'' of
        PList parts \<Rightarrow>
          (if parts = []
           then Inl (''DockerSandbox requires request.parameters['' @ squote ''command''
                     @ ''] to be a list of args'')
           else Inr (map py_str parts))
      | _ \<Rightarrow> Inl (''DockerSandbox requires request.parameters['' @ squote ''command''
                  @ ''] to be a list of args''))"

definition docker_command :: "docker_class \<Rightarrow> docker_config \<Rightarrow> string list \<Rightarrow> string list" where
  "docker_command cls cfg inner =
     [''docker'', ''run'', ''--rm'', ''--network'', ''none'', ''--memory'', memory_limit cfg,
      ''--cpus'', cpus cfg] @ extra_docker_flags cls @ [image cfg] @ inner"

text \<open>
  The operating system: launching a command line gives a process or raises; the process's
  \<open>communicate()\<close> yields the two byte streams and the return code (\<open>None\<close> while unset).
  \<open>decode\<close> is \<open>bytes.decode("utf-8", errors="replace")\<close>.
\<close>

type_synonym process = "(byte list \<times> byte list \<times> int option) awaited"

record os_env =
  launch :: "string list \<Rightarrow> process result"
  decode :: "byte list \<Rightarrow> string"

text \<open>The outer handler \<open>except FileNotFoundError\<close>; other exceptions leave \<open>execute\<close>.\<close>

definition docker_handler :: "span \<Rightarrow> exn \<Rightarrow> sandbox_result result" where
  "docker_handler sp e =
     (if exn_class e = FileNotFoundError
      then Inr (mk_result '''' ''docker executable not found on PATH'' 127 (span_ms sp))
      else Inl e)"

definition docker_execute ::
  "docker_class \<Rightarrow> docker_config \<Rightarrow> os_env \<Rightarrow> span \<Rightarrow> tool_request \<Rightarrow> execution_context
     \<Rightarrow> sandbox_result result" where
  "docker_execute cls cfg os sp req ctx =
     (case build_command req of
        Inl msg \<Rightarrow> Inr (mk_result '''' msg 2 0)
      | Inr inner \<Rightarrow>
     (case launch os (docker_command cls cfg inner) of
        Inl e \<Rightarrow> docker_handler sp e
      | Inr proc \<Rightarrow>
     (case wait_for (dk_timeout_s cfg) proc of
        Inr (out, err, code) \<Rightarrow>
          Inr (mk_result (decode os out) (decode os err)
                 (case code of None \<Rightarrow> 0 | Some n \<Rightarrow> n) (span_ms sp))
      | Inl e \<Rightarrow>
          (if exn_class e = TimeoutError
           then Inr ((mk_result '''' (''container execution exceeded ''
                        @ float_repr (dk_timeout_s cfg) @ ''s timeout'') 124 (span_ms sp))
                      \<lparr>timed_out := True\<rparr>)
           else docker_handler sp e))))"


section \<open>What the interceptor reads off a sandbox\<close>

definition succeeded :: "sandbox_result \<Rightarrow> bool" where
  "succeeded r \<longleftrightarrow> exit_code r = 0 \<and> \<not> timed_out r"

locale sandbox_contract =
  fixes execute :: "tool_request \<Rightarrow> execution_context \<Rightarrow> sandbox_result result"
  assumes timed_out_fails: "execute r c = Inr res \<Longrightarrow> timed_out res \<Longrightarrow> exit_code res \<noteq> 0"
begin

lemma succeeded_iff_exit: "execute r c = Inr res \<Longrightarrow> succeeded res \<longleftrightarrow> exit_code res = 0"
  using timed_out_fails by (auto simp: succeeded_def)

end

lemma mk_result_simps [simp]:
  "timed_out (mk_result out err code ms) = False" "exit_code (mk_result out err code ms) = code"
  "stdout (mk_result out err code ms) = out" "stderr (mk_result out err code ms) = err"
  by (simp_all add: mk_result_def)

interpretation subprocess: sandbox_contract "sp_execute sb sp" for sb sp
  by unfold_locales
     (auto simp: sp_execute_def Let_def split: sum.splits if_splits)

interpretation docker: sandbox_contract "docker_execute cls cfg os sp" for cls cfg os sp
  by unfold_locales
     (auto simp: docker_execute_def docker_handler_def split: sum.splits if_splits option.splits)

text \<open>Only exceptions outside \<open>Exception\<close> leave the in-process sandbox.\<close>

lemma sp_execute_raises: "sp_execute sb sp req ctx = Inl e \<Longrightarrow> \<not> is_Exception e"
  by (auto simp: sp_execute_def Let_def split: sum.splits if_splits)

text \<open>An invalid command never reaches the operating system.\<close>

lemma docker_execute_no_command:
  "build_command req = Inl msg \<Longrightarrow>
     docker_execute cls cfg os sp req ctx = docker_execute cls cfg os' sp req ctx"
  by (simp add: docker_execute_def)

lemma sp_register_lookup:
  "map_of (implementations (sp_register t f impl sb)) k =
     (if k = t @ ''.'' @ f then Some impl else map_of (implementations sb) k)"
  by (simp add: sp_register_def update_conv')

section \<open>Properties\<close>

text \<open>The implementation that the in-process sandbox runs for a request.\<close>

definition sp_implementation :: "subprocess_sandbox \<Rightarrow> tool_request \<Rightarrow> tool_implementation" where
  "sp_implementation sb req =
     (case map_of (implementations sb) (tool_name req @ ''.'' @ function_name req) of
        None \<Rightarrow> default_implementation | Some i \<Rightarrow> i)"

text \<open>
  The in-process sandbox turns every outcome of a tool implementation into a result: exit code 0
  exactly when the implementation returned within the limit (its text is then the standard
  output), exit code 124 with the timeout flag exactly when time ran out, exit code 1 with the
  message for any other exception; only a cancellation leaves it as an exception.
\<close>

theorem sp_execute_outcome:
  "sp_execute sb sp req ctx =
     (case wait_for (sp_timeout_s sb) (sp_implementation sb req req ctx) of
        Inr out \<Rightarrow> Inr \<lparr>stdout = out, stderr = '''', exit_code = 0, duration_ms = span_ms sp,
                       timed_out = False\<rparr>
      | Inl (Exn c msg) \<Rightarrow>
          (case c of
             CancelledError \<Rightarrow> Inl (Exn CancelledError msg)
           | TimeoutError \<Rightarrow>
               Inr \<lparr>stdout = '''', stderr = ''execution exceeded '' @ float_repr (sp_timeout_s sb)
                                           @ ''s timeout'',
                    exit_code = 124, duration_ms = span_ms sp, timed_out = True\<rparr>
           | _ \<Rightarrow> Inr \<lparr>stdout = '''', stderr = msg, exit_code = 1, duration_ms = span_ms sp,
                      timed_out = False\<rparr>))"
  by (auto simp: sp_execute_def sp_implementation_def mk_result_def is_Exception_def Let_def
        split: sum.split exn.split exn_class.split)

text \<open>The command lines a container sandbox may hand to the operating system.\<close>

definition isolated_command :: "docker_class \<Rightarrow> docker_config \<Rightarrow> string list \<Rightarrow> bool" where
  "isolated_command cls cfg cmd \<longleftrightarrow>
     (\<exists>inner. inner \<noteq> [] \<and>
        cmd = [''docker'', ''run'', ''--rm'', ''--network'', ''none'', ''--memory'', memory_limit cfg,
               ''--cpus'', cpus cfg]
              @ (case cls of DockerSandbox \<Rightarrow> []
                 | RestrictedDockerSandbox \<Rightarrow>
                     [''--user'', ''65534:65534'', ''--read-only'', ''--tmpfs'', ''/tmp'', ''--cap-drop'',
                      ''ALL'', ''--security-opt'', ''no-new-privileges''])
              @ image cfg # inner)"

lemma build_command_nonempty: "build_command req = Inr inner \<Longrightarrow> inner \<noteq> []"
  by (auto simp: build_command_def split: pyval.splits if_splits)

lemma docker_command_isolated: "inner \<noteq> [] \<Longrightarrow> isolated_command cls cfg (docker_command cls cfg inner)"
  by (cases cls) (auto simp: isolated_command_def docker_command_def)

text \<open>
  C39: A container sandbox launches nothing but isolated command lines: its behaviour depends on the
  operating system only through launches of \<open>docker run\<close> without network, with the memory and CPU
  limits (and, for the restricted sandbox, an unprivileged user, a read-only root and no
  capabilities), in which everything taken from the request stands after the image name.
\<close>

theorem docker_launches_isolated:
  assumes "\<And>cmd. isolated_command cls cfg cmd \<Longrightarrow> launch os cmd = launch os' cmd"
    and "decode os = decode os'"
  shows "docker_execute cls cfg os sp req ctx = docker_execute cls cfg os' sp req ctx"
proof (cases "build_command req")
  case (Inl msg)
  then show ?thesis by (rule docker_execute_no_command)
next
  case (Inr inner)
  have "launch os (docker_command cls cfg inner) = launch os' (docker_command cls cfg inner)"
    using assms(1) docker_command_isolated [OF build_command_nonempty [OF Inr]] by blast
  then show ?thesis unfolding docker_execute_def Inr assms(2) by simp
qed

text \<open>An operating system that runs isolated containers, and answers other launches as given.\<close>

definition sample_os :: "process result \<Rightarrow> os_env" where
  "sample_os other =
     \<lparr>launch = (\<lambda>cmd. if take 5 cmd = [''docker'', ''run'', ''--rm'', ''--network'', ''none'']
                      then Inr (1, Inr ([], [], Some 0)) else other),
      decode = (\<lambda>bs. '''')\<rparr>"

definition sample_command :: tool_request where
  "sample_command =
     \<lparr>tool_name = ''t'', function_name = ''f'', parameters = [(''command'', PList [PStr ''ls''])],
      call_id = ''c''\<rparr>"

definition sample_caller :: execution_context where
  "sample_caller =
     \<lparr>user_id = ''u'', agent_id = ''a'', session_id = ''s'', roles = [], delegated_scopes = [],
      metadata = []\<rparr>"

theorem docker_launches_isolated_witness:
  "docker_execute RestrictedDockerSandbox default_docker_config
     (sample_os (Inl (Exn OSError ''refused''))) (0, 1) sample_command sample_caller =
   docker_execute RestrictedDockerSandbox default_docker_config
     (sample_os (Inr (0, Inr ([], [], Some 0)))) (0, 1) sample_command sample_caller"
  by (rule docker_launches_isolated) (auto simp: isolated_command_def sample_os_def)

end
