(* ===== verification/AuditLog.thy ===== *)
theory AuditLog
  imports Sandbox Json
begin

text \<open>
  The audit log: record shapes of \<^verbatim>\<open>audit/models.py\<close>, sinks of \<^verbatim>\<open>audit/siem.py\<close>, and the hash chain
  of \<^verbatim>\<open>audit/worm_log.py\<close> over a file whose content is a string. The JSON form of a record
  that \<open>pydantic\<close> writes and reads is the parameter \<open>codec\<close>; the locale \<open>record_codec\<close> states
  what the log relies on (a record is read back, its text is one line), and
  \<open>json_codec\<close>, built on the JSON printer and parser, satisfies it.

  The locale \<open>hash_chain\<close> proves the properties of the chain once, for any hash; the log's own
  SHA-256 chain interprets it.
\<close>

section \<open>Records\<close>

record redacted_context =
  rc_user_id :: string
  rc_agent_id :: string
  rc_session_id :: string
  rc_roles :: "string list"

record redacted_request =
  rr_tool_name :: string
  rr_function_name :: string
  rr_call_id :: string
  rr_parameters :: "string dict"

record audit_record =
  record_id :: string
  timestamp :: string
  rec_call_id :: string
  rec_context :: redacted_context
  rec_request :: redacted_request
  rec_decision :: params
  rec_sandbox_result :: "params option"
  prev_hash :: string
  record_hash :: string

definition GENESIS_HASH :: string where
  "GENESIS_HASH = replicate 64 (CHR ''0'')"

text \<open>\<open>model_dump()\<close> of the models: a dictionary of the fields in declaration order.\<close>

definition strs :: "string list \<Rightarrow> pyval" where
  "strs xs = PList (map PStr xs)"

definition opt_dict :: "params option \<Rightarrow> pyval" where
  "opt_dict d = (case d of None \<Rightarrow> PNone | Some kvs \<Rightarrow> PDict kvs)"

definition decision_dump :: "policy_decision \<Rightarrow> params" where
  "decision_dump d =
     [(''allowed'', PBool (allowed d)), (''reason'', PStr (reason d)),
      (''modified_parameters'', opt_dict (modified_parameters d)),
      (''action_requirements'', strs (action_requirements d))]"

definition sandbox_dump :: "sandbox_result \<Rightarrow> params" where
  "sandbox_dump r =
     [(''stdout'', PStr (stdout r)), (''stderr'', PStr (stderr r)),
      (''exit_code'', PInt (exit_code r)), (''duration_ms'', PFloat (duration_ms r)),
      (''timed_out'', PBool (timed_out r))]"

definition context_dump :: "redacted_context \<Rightarrow> pyval" where
  "context_dump c =
     PDict [(''user_id'', PStr (rc_user_id c)), (''agent_id'', PStr (rc_agent_id c)),
            (''session_id'', PStr (rc_session_id c)), (''roles'', strs (rc_roles c))]"

definition request_dump :: "redacted_request \<Rightarrow> pyval" where
  "request_dump r =
     PDict [(''tool_name'', PStr (rr_tool_name r)), (''function_name'', PStr (rr_function_name r)),
            (''call_id'', PStr (rr_call_id r)),
            (''parameters'', PDict (map (\<lambda>(k, v). (k, PStr v)) (rr_parameters r)))]"

text \<open>The payload under the hash: every field but \<open>record_hash\<close>.\<close>

definition record_payload :: "audit_record \<Rightarrow> params" where
  "record_payload r =
     [(''record_id'', PStr (record_id r)), (''timestamp'', PStr (timestamp r)),
      (''call_id'', PStr (rec_call_id r)), (''context'', context_dump (rec_context r)),
      (''request'', request_dump (rec_request r)), (''decision'', PDict (rec_decision r)),
      (''sandbox_result'', opt_dict (rec_sandbox_result r)), (''prev_hash'', PStr (prev_hash r))]"

definition canonical_bytes :: "params \<Rightarrow> byte list" where
  "canonical_bytes payload = utf8 (json_dumps (PDict payload))"

definition hash_value :: "pyval \<Rightarrow> string" where
  "hash_value v = sha256_hex (utf8 (py_str v))"

definition compute_record_hash :: "string \<Rightarrow> audit_record \<Rightarrow> string" where
  "compute_record_hash prev r = sha256_hex (utf8 prev @ canonical_bytes (record_payload r))"


section \<open>Sinks\<close>

text \<open>A sink of another class is what its \<open>forward\<close> does with a record.\<close>

datatype audit_sink =
    LocalSiemForwarder (forwarded: "audit_record list")
  | OtherSink "audit_record \<Rightarrow> unit result"

fun sink_forward :: "audit_sink \<Rightarrow> audit_record \<Rightarrow> unit result \<times> audit_sink" where
  "sink_forward (LocalSiemForwarder rs) r = (Inr (), LocalSiemForwarder (rs @ [r]))"
| "sink_forward (OtherSink f) r = (f r, OtherSink f)"

text \<open>A failing sink is skipped; an exception outside \<open>Exception\<close> ends the loop.\<close>

fun forward_best_effort ::
  "audit_sink list \<Rightarrow> audit_record \<Rightarrow> unit result \<times> audit_sink list" where
  "forward_best_effort [] r = (Inr (), [])"
| "forward_best_effort (s # ss) r =
     (case sink_forward s r of
        (Inr _, s') \<Rightarrow> apsnd ((#) s') (forward_best_effort ss r)
      | (Inl e, s') \<Rightarrow>
          (if is_Exception e then apsnd ((#) s') (forward_best_effort ss r)
           else (Inl e, s' # ss)))"


section \<open>The log file\<close>

record codec =
  dump_json :: "audit_record \<Rightarrow> string"
  validate_json :: "string \<Rightarrow> audit_record result"

text \<open>The lines of a text file opened for reading (universal newlines), without terminators.\<close>

fun lines_of :: "string \<Rightarrow> string \<Rightarrow> string list" where
  "lines_of acc [] = (if acc = [] then [] else [rev acc])"
| "lines_of acc (c # cs) =
     (if c = CHR 0x0A then rev acc # lines_of [] cs
      else if c = CHR 0x0D then
        (case cs of
           d # ds \<Rightarrow> (if d = CHR 0x0A then rev acc # lines_of [] ds else rev acc # lines_of [] cs)
         | [] \<Rightarrow> [rev acc])
      else lines_of (c # acc) cs)"

record chain_verification =
  valid :: bool
  record_count :: nat
  first_broken_index :: "nat option"

fun verify_lines ::
  "codec \<Rightarrow> nat \<Rightarrow> string \<Rightarrow> nat \<Rightarrow> string list \<Rightarrow> chain_verification result" where
  "verify_lines cd index prev count [] =
     Inr \<lparr>valid = True, record_count = count, first_broken_index = None\<rparr>"
| "verify_lines cd index prev count (raw # rest) =
     (let line = strip raw in
      if line = [] then verify_lines cd (Suc index) prev count rest
      else (case validate_json cd line of
              Inl e \<Rightarrow> Inl e
            | Inr rec \<Rightarrow>
                (if prev_hash rec \<noteq> prev \<or> record_hash rec \<noteq> compute_record_hash prev rec
                 then Inr \<lparr>valid = False, record_count = count, first_broken_index = Some index\<rparr>
                 else verify_lines cd (Suc index) (record_hash rec) (Suc count) rest)))"

definition verify_chain :: "codec \<Rightarrow> string option \<Rightarrow> chain_verification result" where
  "verify_chain cd file =
     (if file = None \<or> file = Some ''''
      then Inr \<lparr>valid = True, record_count = 0, first_broken_index = None\<rparr>
      else verify_lines cd 0 GENESIS_HASH 0 (lines_of [] (the file)))"


section \<open>The logger\<close>

record logger =
  log_file :: "string option"
  redact_parameters :: bool
  log_sinks :: "audit_sink list"
  log_prev_hash :: string

fun last_hash :: "codec \<Rightarrow> string \<Rightarrow> string list \<Rightarrow> string result" where
  "last_hash cd h [] = Inr h"
| "last_hash cd h (raw # rest) =
     (let line = strip raw in
      if line = [] then last_hash cd h rest
      else (case validate_json cd line of
              Inl e \<Rightarrow> Inl e
            | Inr rec \<Rightarrow> last_hash cd (record_hash rec) rest))"

definition load_last_hash :: "codec \<Rightarrow> string option \<Rightarrow> string result" where
  "load_last_hash cd file =
     (if file = None \<or> file = Some '''' then Inr GENESIS_HASH
      else last_hash cd GENESIS_HASH (lines_of [] (the file)))"

text \<open>The constructor; creating the directory may raise.\<close>

definition open_logger ::
  "codec \<Rightarrow> exn option \<Rightarrow> string option \<Rightarrow> bool \<Rightarrow> audit_sink list \<Rightarrow> logger result" where
  "open_logger cd mkdir_error file redact sinks =
     (case mkdir_error of
        Some e \<Rightarrow> Inl e
      | None \<Rightarrow>
          (case load_last_hash cd file of
             Inl e \<Rightarrow> Inl e
           | Inr h \<Rightarrow> Inr \<lparr>log_file = file, redact_parameters = redact, log_sinks = sinks,
                          log_prev_hash = h\<rparr>))"

definition redact_request :: "bool \<Rightarrow> tool_request \<Rightarrow> redacted_request" where
  "redact_request redact req =
     \<lparr>rr_tool_name = tool_name req, rr_function_name = function_name req,
      rr_call_id = call_id req,
      rr_parameters =
        (if redact then map (\<lambda>(k, v). (k, hash_value v)) (parameters req)
         else map (\<lambda>(k, v). (k, py_str v)) (parameters req))\<rparr>"

text \<open>What one call to the log takes from outside: identifiers, time, the outcome of the write.\<close>

record log_env =
  le_uuid :: string
  le_timestamp :: string
  le_write_error :: "exn option"

definition chained :: "string \<Rightarrow> audit_record \<Rightarrow> audit_record" where
  "chained prev r =
     (let r' = r\<lparr>prev_hash := prev\<rparr> in r'\<lparr>record_hash := compute_record_hash prev r'\<rparr>)"

definition log_append ::
  "codec \<Rightarrow> exn option \<Rightarrow> audit_record \<Rightarrow> logger \<Rightarrow> audit_record result \<times> logger" where
  "log_append cd write_error r lg =
     (let rec = chained (log_prev_hash lg) r in
      case write_error of
        Some e \<Rightarrow> (Inl e, lg)
      | None \<Rightarrow>
          (let lg' = lg\<lparr>log_file := Some ((case log_file lg of None \<Rightarrow> '''' | Some c \<Rightarrow> c)
                                          @ dump_json cd rec @ [CHR 0x0A]),
                        log_prev_hash := record_hash rec\<rparr>
           in if log_sinks lg = [] then (Inr rec, lg')
              else (case forward_best_effort (log_sinks lg) rec of
                      (Inr _, ss) \<Rightarrow> (Inr rec, lg'\<lparr>log_sinks := ss\<rparr>)
                    | (Inl e, ss) \<Rightarrow> (Inl e, lg'\<lparr>log_sinks := ss\<rparr>))))"

definition mk_record ::
  "log_env \<Rightarrow> bool \<Rightarrow> execution_context \<Rightarrow> tool_request \<Rightarrow> policy_decision
     \<Rightarrow> params option \<Rightarrow> audit_record" where
  "mk_record env redact ctx req decision sandbox =
     \<lparr>record_id = le_uuid env, timestamp = le_timestamp env, rec_call_id = call_id req,
      rec_context = \<lparr>rc_user_id = user_id ctx, rc_agent_id = agent_id ctx,
                     rc_session_id = session_id ctx, rc_roles = roles ctx\<rparr>,
      rec_request = redact_request redact req,
      rec_decision = decision_dump decision,
      rec_sandbox_result = sandbox,
      prev_hash = GENESIS_HASH, record_hash = ''''\<rparr>"

definition log_call ::
  "codec \<Rightarrow> log_env \<Rightarrow> execution_context \<Rightarrow> tool_request \<Rightarrow> policy_decision \<Rightarrow> params option
     \<Rightarrow> logger \<Rightarrow> audit_record result \<times> logger" where
  "log_call cd env ctx req decision sandbox lg =
     log_append cd (le_write_error env)
       (mk_record env (redact_parameters lg) ctx req decision sandbox) lg"

definition log_verify :: "codec \<Rightarrow> logger \<Rightarrow> chain_verification result" where
  "log_verify cd lg = verify_chain cd (log_file lg)"


section \<open>Hash chains\<close>

fun chain_ok :: "('h \<Rightarrow> 'r \<Rightarrow> 'h) \<Rightarrow> ('r \<Rightarrow> 'h) \<Rightarrow> ('r \<Rightarrow> 'h) \<Rightarrow> 'h \<Rightarrow> 'r list \<Rightarrow> bool" where
  "chain_ok H pv hs p [] = True"
| "chain_ok H pv hs p (r # rs) = (pv r = p \<and> hs r = H p r \<and> chain_ok H pv hs (hs r) rs)"

definition chain_end :: "('r \<Rightarrow> 'h) \<Rightarrow> 'h \<Rightarrow> 'r list \<Rightarrow> 'h" where
  "chain_end hs p rs = (if rs = [] then p else hs (last rs))"

fun first_break ::
  "('h \<Rightarrow> 'r \<Rightarrow> 'h) \<Rightarrow> ('r \<Rightarrow> 'h) \<Rightarrow> ('r \<Rightarrow> 'h) \<Rightarrow> 'h \<Rightarrow> 'r list \<Rightarrow> nat option" where
  "first_break H pv hs p [] = None"
| "first_break H pv hs p (r # rs) =
     (if pv r \<noteq> p \<or> hs r \<noteq> H p r then Some 0 else map_option Suc (first_break H pv hs (hs r) rs))"

lemma chain_end_simps [simp]:
  "chain_end hs p [] = p"
  "chain_end hs p (r # rs) = chain_end hs (hs r) rs"
  "chain_end hs p (rs @ [r]) = hs r"
  by (simp_all add: chain_end_def)

lemma chain_end_append: "chain_end hs p (rs @ ss) = chain_end hs (chain_end hs p rs) ss"
  by (simp add: chain_end_def)

lemma chain_ok_append:
  "chain_ok H pv hs p (rs @ ss) \<longleftrightarrow> chain_ok H pv hs p rs \<and> chain_ok H pv hs (chain_end hs p rs) ss"
  by (induction rs arbitrary: p) auto

lemma first_break_None: "first_break H pv hs p rs = None \<longleftrightarrow> chain_ok H pv hs p rs"
  by (induction rs arbitrary: p) auto

lemma first_break_append:
  "chain_ok H pv hs p rs \<Longrightarrow>
     first_break H pv hs p (rs @ ss) =
       (case first_break H pv hs (chain_end hs p rs) ss of
          None \<Rightarrow> None | Some i \<Rightarrow> Some (length rs + i))"
  by (induction rs arbitrary: p) (auto split: option.splits)

locale hash_chain =
  fixes H :: "'h \<Rightarrow> 'r \<Rightarrow> 'h"
    and prev_of hash_of :: "'r \<Rightarrow> 'h"
    and seal :: "'h \<Rightarrow> 'r \<Rightarrow> 'r"
  assumes seal_prev: "prev_of (seal p r) = p"
    and seal_hash: "hash_of (seal p r) = H p (seal p r)"
begin

lemma ok_seal:
  "chain_ok H prev_of hash_of p rs \<Longrightarrow>
     chain_ok H prev_of hash_of p (rs @ [seal (chain_end hash_of p rs) r])"
  by (simp add: chain_ok_append seal_prev seal_hash)

lemma ok_nth:
  assumes "chain_ok H prev_of hash_of p rs" and "i < length rs"
  shows "prev_of (rs ! i) = chain_end hash_of p (take i rs)"
    and "hash_of (rs ! i) = H (prev_of (rs ! i)) (rs ! i)"
proof -
  have "chain_ok H prev_of hash_of p (take i rs @ rs ! i # drop (Suc i) rs)"
    using assms by (simp add: id_take_nth_drop [symmetric])
  then show "prev_of (rs ! i) = chain_end hash_of p (take i rs)"
    "hash_of (rs ! i) = H (prev_of (rs ! i)) (rs ! i)"
    by (simp_all add: chain_ok_append)
qed

text \<open>
  A record that is replaced is noticed at its own index or, if it was sealed again, at the
  next one, unless the two records collide.
\<close>

lemma replaced_break:
  assumes ok: "chain_ok H prev_of hash_of p rs" and i: "Suc i < length rs"
    and q: "q = chain_end hash_of p (take i rs)"
    and no_collision: "H q r' \<noteq> H q (rs ! i)"
  shows "first_break H prev_of hash_of p (rs[i := r']) \<in> {Some i, Some (Suc i)}"
proof -
  obtain s ss where tail: "drop (Suc i) rs = s # ss" "s = rs ! Suc i"
    using i by (metis Cons_nth_drop_Suc)
  have upd: "rs[i := r'] = take i rs @ r' # s # ss"
    using i tail(1) by (simp add: upd_conv_take_nth_drop)
  have "rs = take i rs @ rs ! i # s # ss"
    using i tail(1) by (metis Suc_lessD id_take_nth_drop)
  with ok have parts: "chain_ok H prev_of hash_of p (take i rs)" "prev_of (rs ! i) = q"
    "hash_of (rs ! i) = H q (rs ! i)" "prev_of s = hash_of (rs ! i)"
    by (metis chain_ok.simps(2) chain_ok_append q)+
  then have "hash_of r' = H q r' \<Longrightarrow> prev_of s \<noteq> hash_of r'"
    using no_collision by simp
  then show ?thesis
    using i by (auto simp: upd first_break_append [OF parts(1)] q [symmetric])
qed

text \<open>A record edited in place, with its two hashes left as they are, is noticed at its index.\<close>

lemma edited_break:
  assumes ok: "chain_ok H prev_of hash_of p rs" and i: "i < length rs"
    and kept: "prev_of r' = prev_of (rs ! i)" "hash_of r' = hash_of (rs ! i)"
    and no_collision: "H (prev_of r') r' \<noteq> H (prev_of r') (rs ! i)"
  shows "first_break H prev_of hash_of p (rs[i := r']) = Some i"
proof -
  have "chain_ok H prev_of hash_of p (take i rs @ drop i rs)" using ok by simp
  then have "chain_ok H prev_of hash_of p (take i rs)" by (simp only: chain_ok_append)
  moreover have "prev_of r' = chain_end hash_of p (take i rs)" "hash_of r' \<noteq> H (prev_of r') r'"
    using ok_nth [OF ok i] kept no_collision by simp_all
  ultimately show ?thesis
    using i by (simp add: upd_conv_take_nth_drop first_break_append)
qed

text \<open>
  Two valid chains of the same length with the same last hash hold the same records, unless
  two different records at the same position collide.
\<close>

lemma same_end_same_records:
  assumes "chain_ok H prev_of hash_of p rs" and "chain_ok H prev_of hash_of p ss"
    and "length rs = length ss" and "chain_end hash_of p rs = chain_end hash_of p ss"
    and "\<And>i. i < length rs \<Longrightarrow> H (prev_of (rs ! i)) (rs ! i) = H (prev_of (ss ! i)) (ss ! i) \<Longrightarrow>
           rs ! i = ss ! i"
  shows "rs = ss"
  using assms
proof (induction rs arbitrary: ss rule: rev_induct)
  case (snoc r rs)
  then obtain s ss' where ss: "ss = ss' @ [s]" "length rs = length ss'"
    by (cases ss rule: rev_cases) auto
  have ok: "chain_ok H prev_of hash_of p rs" "prev_of r = chain_end hash_of p rs"
      "hash_of r = H (prev_of r) r"
    "chain_ok H prev_of hash_of p ss'" "prev_of s = chain_end hash_of p ss'"
      "hash_of s = H (prev_of s) s"
    using snoc.prems(1,2) by (auto simp: ss(1) chain_ok_append)
  have "H (prev_of r) r = H (prev_of s) s" using snoc.prems(4) ok(3,6) by (simp add: ss(1))
  then have rs: "r = s" using snoc.prems(5) [of "length rs"] ss by (simp add: nth_append)
  have "rs = ss'"
  proof (rule snoc.IH)
    show "chain_end hash_of p rs = chain_end hash_of p ss'" using ok(2,5) rs by simp
    fix i assume "i < length rs"
      and "H (prev_of (rs ! i)) (rs ! i) = H (prev_of (ss' ! i)) (ss' ! i)"
    then show "rs ! i = ss' ! i" using snoc.prems(5) [of i] ss by (simp add: nth_append)
  qed (use ok ss in auto)
  with rs ss show ?case by simp
qed simp

end

lemma payload_ignores_record_hash [simp]:
  "compute_record_hash p (r\<lparr>record_hash := h\<rparr>) = compute_record_hash p r"
  by (simp add: compute_record_hash_def record_payload_def)

interpretation sha_chain: hash_chain compute_record_hash prev_hash record_hash chained
  by unfold_locales (simp_all add: chained_def Let_def)


section \<open>The text of a log\<close>

definition file_text :: "codec \<Rightarrow> audit_record list \<Rightarrow> string" where
  "file_text cd rs = concat (map (\<lambda>r. dump_json cd r @ [CHR 0x0A]) rs)"

abbreviation log_chain_ok :: "string \<Rightarrow> audit_record list \<Rightarrow> bool" where
  "log_chain_ok \<equiv> chain_ok compute_record_hash prev_hash record_hash"

abbreviation log_chain_end :: "string \<Rightarrow> audit_record list \<Rightarrow> string" where
  "log_chain_end \<equiv> chain_end record_hash"

abbreviation log_first_break :: "string \<Rightarrow> audit_record list \<Rightarrow> nat option" where
  "log_first_break \<equiv> first_break compute_record_hash prev_hash record_hash"

lemma lines_of_line:
  "CHR 0x0A \<notin> set l \<Longrightarrow> CHR 0x0D \<notin> set l \<Longrightarrow>
     lines_of acc (l @ CHR 0x0A # cs) = (rev acc @ l) # lines_of [] cs"
  by (induction l arbitrary: acc) auto

text \<open>What the report says of a chain of records whose first break is given.\<close>

definition report :: "nat \<Rightarrow> nat \<Rightarrow> nat \<Rightarrow> nat option \<Rightarrow> chain_verification" where
  "report index count n brk =
     (case brk of
        None \<Rightarrow> \<lparr>valid = True, record_count = count + n, first_broken_index = None\<rparr>
      | Some i \<Rightarrow> \<lparr>valid = False, record_count = count + i, first_broken_index = Some (index + i)\<rparr>)"

locale record_codec =
  fixes cd :: codec and good :: "audit_record \<Rightarrow> bool"
  assumes roundtrip: "good r \<Longrightarrow> validate_json cd (dump_json cd r) = Inr r"
    and one_line: "good r \<Longrightarrow> CHR 0x0A \<notin> set (dump_json cd r) \<and> CHR 0x0D \<notin> set (dump_json cd r)"
    and stripped: "good r \<Longrightarrow> strip (dump_json cd r) = dump_json cd r \<and> dump_json cd r \<noteq> []"
begin

lemma lines_file_text: "list_all good rs \<Longrightarrow> lines_of [] (file_text cd rs) = map (dump_json cd) rs"
  using one_line by (induction rs) (simp_all add: file_text_def lines_of_line)

lemma verify_lines_records:
  "list_all good rs \<Longrightarrow>
     verify_lines cd index p count (map (dump_json cd) rs) =
       Inr (report index count (length rs) (log_first_break p rs))"
  using roundtrip stripped
  by (induction rs arbitrary: index p count) (auto simp: report_def Let_def split: option.splits)

text \<open>A line counts as the record that it is read as, however it is written.\<close>

lemma verify_lines_cong:
  assumes "list_all2 (\<lambda>a b. strip a \<noteq> [] \<and> strip b \<noteq> [] \<and>
             validate_json cd (strip a) = validate_json cd (strip b)) xs ys"
  shows "verify_lines cd index p count xs = verify_lines cd index p count ys"
  using assms by (induction xs ys arbitrary: index p count rule: list_all2_induct) (auto simp: Let_def split: sum.split)

lemma last_hash_records:
  "list_all good rs \<Longrightarrow> last_hash cd p (map (dump_json cd) rs) = Inr (log_chain_end p rs)"
  using roundtrip stripped by (induction rs arbitrary: p) (simp_all add: Let_def)

lemma verify_chain_records:
  assumes "list_all good rs"
  shows "verify_chain cd (Some (file_text cd rs)) =
           Inr (report 0 0 (length rs) (log_first_break GENESIS_HASH rs))"
proof (cases rs)
  case Nil
  then show ?thesis by (simp add: verify_chain_def file_text_def report_def)
next
  case (Cons r rs')
  then have "file_text cd rs \<noteq> []" by (simp add: file_text_def)
  then show ?thesis
    using verify_lines_records [OF assms, of 0 GENESIS_HASH 0] lines_file_text [OF assms]
    by (simp add: verify_chain_def)
qed

lemma load_last_hash_records:
  assumes "list_all good rs"
  shows "load_last_hash cd (Some (file_text cd rs)) = Inr (log_chain_end GENESIS_HASH rs)"
proof (cases rs)
  case Nil
  then show ?thesis by (simp add: load_last_hash_def file_text_def)
next
  case (Cons r rs')
  then have "file_text cd rs \<noteq> []" by (simp add: file_text_def)
  then show ?thesis
    using last_hash_records [OF assms] lines_file_text [OF assms] by (simp add: load_last_hash_def)
qed

end

end
