(* ===== verification/AuditTrail.thy ===== *)
theory AuditTrail
  imports AuditLog "HOL-Library.Monad_Syntax"
begin

text \<open>
  The audit log over time: what a logger and its file hold after any sequence of calls, failed
  writes and restarts (\<open>log_reach\<close>), what \<open>verify_chain\<close> reports of it and of tampered copies,
  and \<open>json_codec\<close>, a concrete text form of records that shows that the assumptions on it can be met (pydantic's
  own text, a parameter everywhere else, differs from it in how it writes characters from 128 on).
\<close>

section \<open>A JSON codec for records\<close>

definition full_payload :: "audit_record \<Rightarrow> params" where
  "full_payload r = record_payload r @ [(''record_hash'', PStr (record_hash r))]"

fun as_str :: "pyval \<Rightarrow> string option" where
  "as_str (PStr s) = Some s" | "as_str _ = None"

fun as_strs :: "pyval \<Rightarrow> string list option" where
  "as_strs (PList xs) = those (map as_str xs)" | "as_strs _ = None"

fun as_dict :: "pyval \<Rightarrow> params option" where
  "as_dict (PDict d) = Some d" | "as_dict _ = None"

fun as_opt_dict :: "pyval \<Rightarrow> params option option" where
  "as_opt_dict PNone = Some None" | "as_opt_dict (PDict d) = Some (Some d)" | "as_opt_dict _ = None"

fun as_str_dict :: "pyval \<Rightarrow> string dict option" where
  "as_str_dict (PDict d) = those (map (\<lambda>(k, v). map_option (Pair k) (as_str v)) d)"
| "as_str_dict _ = None"

definition field :: "params \<Rightarrow> string \<Rightarrow> (pyval \<Rightarrow> 'a option) \<Rightarrow> 'a option" where
  "field d k as = Option.bind (map_of d k) as"

definition read_context :: "pyval \<Rightarrow> redacted_context option" where
  "read_context v = do {
     d \<leftarrow> as_dict v;
     u \<leftarrow> field d ''user_id'' as_str;
     a \<leftarrow> field d ''agent_id'' as_str;
     s \<leftarrow> field d ''session_id'' as_str;
     rs \<leftarrow> field d ''roles'' as_strs;
     Some \<lparr>rc_user_id = u, rc_agent_id = a, rc_session_id = s, rc_roles = rs\<rparr> }"

definition read_request :: "pyval \<Rightarrow> redacted_request option" where
  "read_request v = do {
     d \<leftarrow> as_dict v;
     t \<leftarrow> field d ''tool_name'' as_str;
     f \<leftarrow> field d ''function_name'' as_str;
     c \<leftarrow> field d ''call_id'' as_str;
     ps \<leftarrow> field d ''parameters'' as_str_dict;
     Some \<lparr>rr_tool_name = t, rr_function_name = f, rr_call_id = c, rr_parameters = ps\<rparr> }"

definition read_record :: "pyval \<Rightarrow> audit_record option" where
  "read_record v = do {
     d \<leftarrow> as_dict v;
     i \<leftarrow> field d ''record_id'' as_str;
     t \<leftarrow> field d ''timestamp'' as_str;
     c \<leftarrow> field d ''call_id'' as_str;
     ctx \<leftarrow> field d ''context'' read_context;
     req \<leftarrow> field d ''request'' read_request;
     dec \<leftarrow> field d ''decision'' as_dict;
     sb \<leftarrow> field d ''sandbox_result'' as_opt_dict;
     p \<leftarrow> field d ''prev_hash'' as_str;
     h \<leftarrow> field d ''record_hash'' as_str;
     Some \<lparr>record_id = i, timestamp = t, rec_call_id = c, rec_context = ctx, rec_request = req,
           rec_decision = dec, rec_sandbox_result = sb, prev_hash = p, record_hash = h\<rparr> }"

definition json_codec :: codec where
  "json_codec =
     \<lparr>dump_json = (\<lambda>r. json_print (PDict (full_payload r))),
      validate_json = (\<lambda>s. case Option.bind (json_loads s) read_record of
                             None \<Rightarrow> Inl (Exn ValidationError ''invalid record'')
                           | Some r \<Rightarrow> Inr r)\<rparr>"

definition wf_record :: "audit_record \<Rightarrow> bool" where
  "wf_record r \<longleftrightarrow> wf_pyval (PDict (rec_decision r)) \<and> wf_pyval (opt_dict (rec_sandbox_result r))"

lemma those_map_Some [simp]: "those (map Some xs) = Some xs"
  by (induction xs) auto

lemma as_strs_strs [simp]: "as_strs (strs xs) = Some xs"
  by (simp add: strs_def comp_def)

lemma str_dict_back [simp]:
  "those (map ((\<lambda>(k, v). map_option (Pair k) (as_str v)) \<circ> (\<lambda>(k, v). (k, PStr v))) d) = Some d"
  by (simp add: comp_def split_beta)

lemma as_opt_dict_back [simp]: "as_opt_dict (opt_dict d) = Some d"
  by (simp add: opt_dict_def split: option.split)

lemma read_record_payload: "read_record (PDict (full_payload r)) = Some r"
  by (simp add: read_record_def read_context_def read_request_def field_def full_payload_def
        record_payload_def context_dump_def request_dump_def)

lemma wf_full_payload: "wf_record r \<Longrightarrow> wf_pyval (PDict (full_payload r))"
  by (simp add: wf_record_def full_payload_def record_payload_def context_dump_def
        request_dump_def strs_def list_all_iff split_beta)

lemma strip_braces: "strip (CHR ''{'' # xs @ ''}'') = CHR ''{'' # xs @ ''}''"
  by (simp add: strip_def is_space_def)

text \<open>A record as a line of text, with or without blanks after its separators.\<close>

definition record_line :: "string \<Rightarrow> audit_record \<Rightarrow> string" where
  "record_line ws r = json_text ws (PDict (full_payload r))"

lemma record_line_read:
  "blanks ws \<Longrightarrow> wf_record r \<Longrightarrow> validate_json json_codec (record_line ws r) = Inr r"
  using json_text_roundtrip [OF _ wf_full_payload]
  by (simp add: json_codec_def record_line_def read_record_payload)

lemma record_line_one:
  assumes "blanks ws"
  shows "CHR 0x0A \<notin> set (record_line ws r) \<and> CHR 0x0D \<notin> set (record_line ws r)"
proof -
  have "\<not> printable (CHR 0x0A)" "\<not> printable (CHR 0x0D)" by (simp_all add: printable_def)
  then show ?thesis
    using printable_json_text [OF assms, of "PDict (full_payload r)"]
    by (auto simp: record_line_def list_all_iff simp del: json_text.simps)
qed

lemma record_line_stripped: "strip (record_line ws r) = record_line ws r \<and> record_line ws r \<noteq> []"
  by (simp add: record_line_def json_text_PDict strip_braces del: json_text.simps)

lemma dump_json_line: "dump_json json_codec = record_line ''''"
  by (rule ext) (simp add: json_codec_def record_line_def del: json_text.simps)

lemma no_blanks: "blanks ''''"
  by (simp add: blanks_def)

interpretation json: record_codec json_codec wf_record
  by unfold_locales
     (simp_all only: dump_json_line record_line_read [OF no_blanks] record_line_one [OF no_blanks]
        record_line_stripped simp_thms)


section \<open>What a logger holds\<close>

definition log_holds ::
  "codec \<Rightarrow> (audit_record \<Rightarrow> bool) \<Rightarrow> logger \<Rightarrow> audit_record list \<Rightarrow> bool" where
  "log_holds cd good lg rs \<longleftrightarrow>
     list_all good rs \<and> log_chain_ok GENESIS_HASH rs \<and>
     log_prev_hash lg = log_chain_end GENESIS_HASH rs \<and>
     (log_file lg = Some (file_text cd rs) \<or> log_file lg = None \<and> rs = [])"

lemma log_append_written:
  fixes lg :: logger and r :: audit_record
  defines "rec \<equiv> chained (log_prev_hash lg) r"
  shows "log_prev_hash (snd (log_append cd None r lg)) = record_hash rec"
    and "log_file (snd (log_append cd None r lg)) =
           Some ((case log_file lg of None \<Rightarrow> '''' | Some c \<Rightarrow> c) @ dump_json cd rec @ [CHR 0x0A])"
    and "redact_parameters (snd (log_append cd None r lg)) = redact_parameters lg"
  by (auto simp: log_append_def Let_def rec_def split: prod.splits sum.splits)

lemma log_append_failed [simp]: "log_append cd (Some e) r lg = (Inl e, lg)"
  by (simp add: log_append_def Let_def)

lemma forward_best_effort_all:
  assumes "\<forall>s \<in> set ss. \<forall>e. fst (sink_forward s r) = Inl e \<longrightarrow> is_Exception e"
  shows "forward_best_effort ss r = (Inr (), map (\<lambda>s. snd (sink_forward s r)) ss)"
  using assms
proof (induction ss)
  case (Cons s ss)
  then have "forward_best_effort ss r = (Inr (), map (\<lambda>s. snd (sink_forward s r)) ss)" by simp
  with Cons.prems show ?case by (cases "sink_forward s r") (auto split: sum.splits)
qed simp

lemma log_append_result:
  assumes "\<forall>s \<in> set (log_sinks lg). \<forall>e.
             fst (sink_forward s (chained (log_prev_hash lg) r)) = Inl e \<longrightarrow> is_Exception e"
  shows "fst (log_append cd None r lg) = Inr (chained (log_prev_hash lg) r)"
    and "log_sinks (snd (log_append cd None r lg)) =
           map (\<lambda>s. snd (sink_forward s (chained (log_prev_hash lg) r))) (log_sinks lg)"
  using forward_best_effort_all [OF assms] by (auto simp: log_append_def Let_def)

context record_codec
begin

lemma holds_verify:
  assumes "log_holds cd good lg rs"
  shows "log_verify cd lg = Inr \<lparr>valid = True, record_count = length rs, first_broken_index = None\<rparr>"
proof (cases "log_file lg")
  case None
  with assms show ?thesis by (simp add: log_holds_def log_verify_def verify_chain_def)
next
  case (Some c)
  moreover have "log_first_break GENESIS_HASH rs = None"
    using assms by (simp add: log_holds_def first_break_None)
  ultimately show ?thesis
    using assms verify_chain_records [of rs] by (simp add: log_holds_def log_verify_def report_def)
qed

lemma holds_append:
  assumes "log_holds cd good lg rs" and "good (chained (log_prev_hash lg) r)"
  shows "log_holds cd good (snd (log_append cd None r lg)) (rs @ [chained (log_prev_hash lg) r])"
  using assms sha_chain.ok_seal [of GENESIS_HASH rs r]
  by (auto simp: log_holds_def log_append_written file_text_def)

lemma holds_reopen:
  assumes "log_holds cd good lg rs"
  shows "open_logger cd None (log_file lg) red sinks =
           Inr \<lparr>log_file = log_file lg, redact_parameters = red, log_sinks = sinks,
                log_prev_hash = log_prev_hash lg\<rparr>"
proof (cases "log_file lg")
  case None
  with assms show ?thesis by (simp add: log_holds_def open_logger_def load_last_hash_def)
next
  case (Some c)
  with assms load_last_hash_records [of rs] show ?thesis by (simp add: log_holds_def open_logger_def)
qed

end

text \<open>
  The states of a log and the records it holds: a logger opened on no file, calls that write,
  calls whose write fails, and restarts on the same file.
\<close>

inductive log_reach :: "codec \<Rightarrow> (audit_record \<Rightarrow> bool) \<Rightarrow> logger \<Rightarrow> audit_record list \<Rightarrow> bool"
  for cd good where
  fresh: "open_logger cd None None red sinks = Inr lg \<Longrightarrow> log_reach cd good lg []"
| called: "log_reach cd good lg rs \<Longrightarrow> le_write_error env = None \<Longrightarrow>
    rec = chained (log_prev_hash lg) (mk_record env (redact_parameters lg) ctx req d sb) \<Longrightarrow>
    good rec \<Longrightarrow> log_call cd env ctx req d sb lg = (res, lg') \<Longrightarrow> log_reach cd good lg' (rs @ [rec])"
| write_failed: "log_reach cd good lg rs \<Longrightarrow> le_write_error env = Some e \<Longrightarrow>
    log_call cd env ctx req d sb lg = (res, lg') \<Longrightarrow> log_reach cd good lg' rs"
| reopened: "log_reach cd good lg rs \<Longrightarrow> open_logger cd None (log_file lg) red sinks = Inr lg' \<Longrightarrow>
    log_reach cd good lg' rs"

lemma log_reach_holds:
  assumes "record_codec cd good" and "log_reach cd good lg rs"
  shows "log_holds cd good lg rs"
  using assms(2)
proof (induction rule: log_reach.induct)
  case (fresh red sinks lg)
  then show ?case by (auto simp: open_logger_def load_last_hash_def log_holds_def)
next
  case (called lg rs env rec ctx req d sb res lg')
  then show ?case
    using record_codec.holds_append [OF assms(1), of lg rs
        "mk_record env (redact_parameters lg) ctx req d sb"]
    by (simp add: log_call_def)
next
  case (write_failed lg rs env e ctx req d sb res lg')
  then show ?case by (simp add: log_call_def)
next
  case (reopened lg rs red sinks lg')
  then show ?case
    using record_codec.holds_reopen [OF assms(1), of lg rs red sinks] by (auto simp: log_holds_def)
qed

section \<open>What a hash commits to\<close>

definition hashed_bytes :: "string \<Rightarrow> audit_record \<Rightarrow> byte list" where
  "hashed_bytes p r = utf8 p @ canonical_bytes (record_payload r)"

lemma compute_record_hash_eq: "compute_record_hash p r = sha256_hex (hashed_bytes p r)"
  by (simp add: compute_record_hash_def hashed_bytes_def)

text \<open>Two different inputs of the hash with the same digest.\<close>

definition collision :: "byte list \<Rightarrow> byte list \<Rightarrow> bool" where
  "collision m m' \<longleftrightarrow> m \<noteq> m' \<and> sha256_hex m = sha256_hex m'"

lemma json_dumps_dict: "\<exists>t. json_dumps (PDict d) = CHR ''{'' # t"
  by (simp add: json_dumps_def json_text_PDict del: json_text.simps)

lemma hashed_bytes_inject:
  assumes "CHR ''{'' \<notin> set p" and "CHR ''{'' \<notin> set q" and "hashed_bytes p r = hashed_bytes q s"
  shows "p = q \<and> canonical_bytes (record_payload r) = canonical_bytes (record_payload s)"
proof -
  obtain t u where tu: "json_dumps (PDict (record_payload r)) = CHR ''{'' # t"
    "json_dumps (PDict (record_payload s)) = CHR ''{'' # u"
    using json_dumps_dict by blast
  have "utf8 (p @ CHR ''{'' # t) = utf8 (q @ CHR ''{'' # u)"
    using assms(3) by (simp add: hashed_bytes_def canonical_bytes_def tu)
  then have "p @ CHR ''{'' # t = q @ CHR ''{'' # u" by (simp only: utf8_inject)
  from append_sep_inject [OF assms(1,2) this] show ?thesis by (simp add: canonical_bytes_def tu)
qed

lemma wf_sort_keys: "wf_pyval v \<Longrightarrow> wf_pyval (sort_keys v)"
  by (induction v) (auto simp: list_all_iff)

text \<open>Sorting the members of a dictionary by key keeps every lookup.\<close>

lemma map_of_filter_fst:
  "map_of xs k = (case filter (\<lambda>x. fst x = k) xs of [] \<Rightarrow> None | x # _ \<Rightarrow> Some (snd x))"
  by (induction xs) auto

lemma map_of_sort_key: "map_of (sort_key fst xs) k = map_of xs k"
  unfolding map_of_filter_fst [of "sort_key fst xs"] map_of_filter_fst [of xs] by (simp add: sort_key_stable)

lemma map_of_sort_keys:
  "map_of (sort_key fst (map (\<lambda>kv. (fst kv, sort_keys (snd kv))) d)) k = map_option sort_keys (map_of d k)"
  unfolding map_of_sort_key by (induction d) auto

text \<open>Dictionaries that sort to the same value agree member by member, up to inner sorting.\<close>

lemma sort_keys_members:
  assumes "sort_keys (PDict d) = sort_keys (PDict d')"
  shows "map_option sort_keys (map_of d k) = map_option sort_keys (map_of d' k)"
  using assms map_of_sort_keys [of d k] map_of_sort_keys [of d' k] by simp

lemma wf_record_payload: "wf_record r \<Longrightarrow> wf_pyval (PDict (record_payload r))"
  using wf_full_payload [of r] by (simp add: full_payload_def)

lemma canonical_bytes_inject:
  assumes "wf_record r" and "wf_record s"
    and "canonical_bytes (record_payload r) = canonical_bytes (record_payload s)"
  shows "sort_keys (PDict (record_payload r)) = sort_keys (PDict (record_payload s))"
  using assms(3) json_print_inject wf_sort_keys wf_record_payload assms(1,2)
  unfolding canonical_bytes_def json_dumps_def utf8_inject by blast

lemma canonical_decision_field:
  assumes "wf_record r" and "wf_record s"
    and "canonical_bytes (record_payload r) = canonical_bytes (record_payload s)"
  shows "map_option sort_keys (map_of (rec_decision r) k) =
         map_option sort_keys (map_of (rec_decision s) k)"
proof (rule sort_keys_members)
  show "sort_keys (PDict (rec_decision r)) = sort_keys (PDict (rec_decision s))"
    using sort_keys_members [OF canonical_bytes_inject [OF assms], of "''decision''"]
    by (simp add: record_payload_def)
qed

lemma sort_keys_strs [simp]: "sort_keys (strs xs) = strs xs"
  by (simp add: strs_def comp_def)

lemma strs_inject [simp]: "strs xs = strs ys \<longleftrightarrow> xs = ys"
  by (simp add: strs_def inj_map_eq_map inj_on_def)

lemma map_of_PStr: "map_of (map (\<lambda>(k, v). (k, PStr v)) d) k = map_option PStr (map_of d k)"
  by (induction d) auto

lemma context_dump_inject:
  assumes "sort_keys (context_dump c) = sort_keys (context_dump c')"
  shows "c = c'"
proof -
  note member = sort_keys_members [OF assms [unfolded context_dump_def]]
  show ?thesis
    using member [of "''user_id''"] member [of "''agent_id''"] member [of "''session_id''"]
      member [of "''roles''"]
    by (cases c, cases c') simp
qed

lemma request_dump_members:
  assumes "sort_keys (request_dump q) = sort_keys (request_dump q')"
  shows "rr_tool_name q = rr_tool_name q'" and "rr_function_name q = rr_function_name q'"
    and "rr_call_id q = rr_call_id q'" and "map_of (rr_parameters q) k = map_of (rr_parameters q') k"
proof -
  note member = sort_keys_members [OF assms [unfolded request_dump_def]]
  show "rr_tool_name q = rr_tool_name q'" using member [of "''tool_name''"] by simp
  show "rr_function_name q = rr_function_name q'" using member [of "''function_name''"] by simp
  show "rr_call_id q = rr_call_id q'" using member [of "''call_id''"] by simp
  have "sort_keys (PDict (map (\<lambda>(k, v). (k, PStr v)) (rr_parameters q))) =
      sort_keys (PDict (map (\<lambda>(k, v). (k, PStr v)) (rr_parameters q')))"
    using member [of "''parameters''"] by simp
  from sort_keys_members [OF this, of k] show "map_of (rr_parameters q) k = map_of (rr_parameters q') k"
    by (simp add: map_of_PStr option.map_comp comp_def)
       (cases "map_of (rr_parameters q) k"; cases "map_of (rr_parameters q') k"; simp)
qed

text \<open>Links of a chain that starts at the genesis hash hold no brace.\<close>

lemma chain_end_no_brace:
  assumes "log_chain_ok p rs" and "CHR ''{'' \<notin> set p"
  shows "CHR ''{'' \<notin> set (log_chain_end p rs)"
  using assms
proof (induction rs arbitrary: p)
  case (Cons r rs)
  then have "CHR ''{'' \<notin> set (record_hash r)"
    by (simp add: compute_record_hash_eq sha256_hex_def hexdigest_no_brace)
  moreover have "log_chain_ok (record_hash r) rs" using Cons.prems(1) unfolding chain_ok.simps by blast
  ultimately show ?case using Cons.IH [of "record_hash r"] by simp
qed simp

lemma genesis_no_brace [simp]: "CHR ''{'' \<notin> set GENESIS_HASH"
  by (simp add: GENESIS_HASH_def)

lemma same_head:
  assumes "log_chain_ok GENESIS_HASH rs" and "log_chain_ok GENESIS_HASH ss"
    and "length rs = length ss"
    and "log_chain_end GENESIS_HASH rs = log_chain_end GENESIS_HASH ss"
  shows "(\<exists>i < length rs. collision (hashed_bytes (prev_hash (rs ! i)) (rs ! i))
                                   (hashed_bytes (prev_hash (ss ! i)) (ss ! i))) \<or>
         (\<forall>i < length rs. canonical_bytes (record_payload (rs ! i)) =
                          canonical_bytes (record_payload (ss ! i)))"
  using assms
proof (induction rs arbitrary: ss rule: rev_induct)
  case (snoc r rs)
  then obtain s ss' where ss: "ss = ss' @ [s]" "length rs = length ss'"
    by (cases ss rule: rev_cases) auto
  have ok: "log_chain_ok GENESIS_HASH rs" "prev_hash r = log_chain_end GENESIS_HASH rs"
      "record_hash r = compute_record_hash (prev_hash r) r"
    "log_chain_ok GENESIS_HASH ss'" "prev_hash s = log_chain_end GENESIS_HASH ss'"
      "record_hash s = compute_record_hash (prev_hash s) s"
    using snoc.prems(1,2) by (auto simp: ss(1) chain_ok_append)
  let ?m = "hashed_bytes (prev_hash r) r" and ?m' = "hashed_bytes (prev_hash s) s"
  have digests: "sha256_hex ?m = sha256_hex ?m'"
    using snoc.prems(4) ok(3,6) by (simp add: ss(1) compute_record_hash_eq)
  show ?case
  proof (cases "?m = ?m'")
    case True
    have same: "prev_hash r = prev_hash s \<and>
        canonical_bytes (record_payload r) = canonical_bytes (record_payload s)"
      using chain_end_no_brace [OF ok(1)] chain_end_no_brace [OF ok(4)] ok(2,5) True
      by (intro hashed_bytes_inject) simp_all
    with snoc.IH [OF ok(1,4) ss(2)] ok(2,5) ss show ?thesis
      by (fastforce simp: nth_append less_Suc_eq)
  next
    case False
    with digests have "collision ?m ?m'" by (simp add: collision_def)
    then show ?thesis using ss by (intro disjI1 exI [of _ "length rs"]) (simp add: nth_append)
  qed
qed simp

section \<open>Properties\<close>

text \<open>A log opened on no file, and what one call to it takes from outside.\<close>

definition sample_logger :: logger where
  "sample_logger =
     \<lparr>log_file = None, redact_parameters = True, log_sinks = [], log_prev_hash = GENESIS_HASH\<rparr>"

definition sample_log_env :: log_env where
  "sample_log_env = \<lparr>le_uuid = ''id'', le_timestamp = ''t0'', le_write_error = None\<rparr>"

text \<open>The log after a number of calls, each with the same decision.\<close>

fun sample_log :: "nat \<Rightarrow> logger" where
  "sample_log n =
     (if n = 0 then sample_logger
      else snd (log_call json_codec sample_log_env sample_caller sample_command
                  (mk_decision True ''ok'') None (sample_log (n - 1))))"

declare sample_log.simps [simp del]

fun sample_records :: "nat \<Rightarrow> audit_record list" where
  "sample_records n =
     (if n = 0 then []
      else sample_records (n - 1) @
        [chained (log_prev_hash (sample_log (n - 1)))
           (mk_record sample_log_env True sample_caller sample_command (mk_decision True ''ok'') None)])"

declare sample_records.simps [simp del]

lemma log_call_redact: "redact_parameters (snd (log_call cd env ctx req d sb lg)) = redact_parameters lg"
  by (cases "le_write_error env") (simp_all add: log_call_def log_append_written)

lemma sample_log_redacts: "redact_parameters (sample_log n)"
  by (induction n rule: sample_log.induct)
     (subst sample_log.simps, simp add: sample_logger_def log_call_redact)

lemma wf_sample: "wf_record (chained p (mk_record sample_log_env True sample_caller sample_command
    (mk_decision True ''ok'') None))"
  by (simp add: wf_record_def chained_def mk_record_def decision_dump_def opt_dict_def strs_def
        mk_decision_def Let_def)

lemma sample_reach: "log_reach json_codec wf_record (sample_log n) (sample_records n)"
proof (induction n)
  case 0
  have "open_logger json_codec None None True [] = Inr sample_logger"
    by (simp add: open_logger_def load_last_hash_def sample_logger_def)
  from log_reach.fresh [OF this] show ?case
    by (simp add: sample_log.simps [of 0] sample_records.simps [of 0])
next
  case (Suc n)
  obtain res lg' where call: "log_call json_codec sample_log_env sample_caller sample_command
      (mk_decision True ''ok'') None (sample_log n) = (res, lg')"
    by fastforce
  have "le_write_error sample_log_env = None" by (simp add: sample_log_env_def)
  from log_reach.called [OF Suc this refl _ call] wf_sample call sample_log_redacts [of n]
  show ?case by (simp add: sample_log.simps [of "Suc n"] sample_records.simps [of "Suc n"])
qed

lemma length_sample_records: "length (sample_records n) = n"
  by (induction n rule: nat.induct) (subst sample_records.simps, simp)+

lemma json_record_codec: "record_codec json_codec wf_record"
  by (rule json.record_codec_axioms)

text \<open>
  C14: A log that was written only by loggers verifies: after any sequence of calls, failed writes
  and restarts on the same file, \<open>verify\<close> reports a valid chain and as many records as calls were
  written, for every record format that reads back what it writes on one line.
\<close>

theorem reachable_log_verifies:
  assumes "record_codec cd good" and "log_reach cd good lg rs"
  shows "log_verify cd lg =
           Inr \<lparr>valid = True, record_count = length rs, first_broken_index = None\<rparr>"
  by (rule record_codec.holds_verify [OF assms(1) log_reach_holds [OF assms]])

theorem reachable_log_verifies_witness:
  "log_verify json_codec (sample_log 3) =
     Inr \<lparr>valid = True, record_count = 3, first_broken_index = None\<rparr>"
  using reachable_log_verifies [OF json_record_codec sample_reach [of 3]]
  by (simp add: length_sample_records)

text \<open>
  A line of the file rewritten on disk, its two hashes left alone: the report names that line,
  however the line is written, unless the old and the new payload collide.
\<close>

lemma edited_line_report:
  assumes "log_reach json_codec wf_record lg rs" and "i < length rs"
    and good: "wf_record r'" and kept: "prev_hash r' = prev_hash (rs ! i)" "record_hash r' = record_hash (rs ! i)"
    and differ: "canonical_bytes (record_payload r') \<noteq> canonical_bytes (record_payload (rs ! i))"
    and ws: "blanks ws"
  shows "verify_lines json_codec 0 GENESIS_HASH 0 ((map (record_line '''') rs)[i := record_line ws r']) =
           Inr \<lparr>valid = False, record_count = i, first_broken_index = Some i\<rparr> \<or>
         collision (hashed_bytes (prev_hash (rs ! i)) r') (hashed_bytes (prev_hash (rs ! i)) (rs ! i))"
proof (rule disjCI)
  let ?p = "prev_hash (rs ! i)"
  assume "\<not> collision (hashed_bytes ?p r') (hashed_bytes ?p (rs ! i))"
  with differ have nc: "compute_record_hash (prev_hash r') r' \<noteq> compute_record_hash (prev_hash r') (rs ! i)"
    by (simp add: collision_def compute_record_hash_eq hashed_bytes_def kept)
  have holds: "log_holds json_codec wf_record lg rs"
    by (rule log_reach_holds [OF json.record_codec_axioms assms(1)])
  then have ok: "log_chain_ok GENESIS_HASH rs" and g: "list_all wf_record rs"
    by (simp_all add: log_holds_def)
  have brk: "log_first_break GENESIS_HASH (rs[i := r']) = Some i"
    by (rule sha_chain.edited_break [OF ok assms(2) kept nc])
  have g': "list_all wf_record (rs[i := r'])"
    using g good by (auto simp: list_all_iff dest: set_update_subset_insert [THEN subsetD])
  have "list_all2 (\<lambda>a b. strip a \<noteq> [] \<and> strip b \<noteq> [] \<and>
      validate_json json_codec (strip a) = validate_json json_codec (strip b))
      ((map (record_line '''') rs)[i := record_line ws r']) (map (record_line '''') (rs[i := r']))"
    using good assms(2) by (auto simp: list_all2_conv_all_nth nth_list_update record_line_stripped
      record_line_read [OF ws] record_line_read [OF no_blanks])
  from json.verify_lines_cong [OF this] show "verify_lines json_codec 0 GENESIS_HASH 0
      ((map (record_line '''') rs)[i := record_line ws r']) =
      Inr \<lparr>valid = False, record_count = i, first_broken_index = Some i\<rparr>"
    using json.verify_lines_records [OF g', of 0 GENESIS_HASH 0] brk
    by (simp add: dump_json_line report_def)
qed

text \<open>
  C15: Tamper evidence: replace any record but the last one of a written log by a record with other
  content; then \<open>verify_chain\<close> reports the log invalid, at the replaced record or the next, or the
  two contents are a collision of SHA-256, exhibited by their bytes.
\<close>

theorem replaced_record_detected:
  assumes "record_codec cd good" and "log_reach cd good lg rs" and "Suc i < length rs" and "good r'"
    and "canonical_bytes (record_payload r') \<noteq> canonical_bytes (record_payload (rs ! i))"
  shows "(\<exists>n. n \<in> {i, Suc i} \<and>
            verify_chain cd (Some (file_text cd (rs[i := r']))) =
              Inr \<lparr>valid = False, record_count = n, first_broken_index = Some n\<rparr>) \<or>
         collision (hashed_bytes (prev_hash (rs ! i)) r') (hashed_bytes (prev_hash (rs ! i)) (rs ! i))"
proof (rule disjCI)
  assume "\<not> collision (hashed_bytes (prev_hash (rs ! i)) r')
            (hashed_bytes (prev_hash (rs ! i)) (rs ! i))"
  with assms(5) have nc: "compute_record_hash (prev_hash (rs ! i)) r' \<noteq>
      compute_record_hash (prev_hash (rs ! i)) (rs ! i)"
    by (simp add: collision_def compute_record_hash_eq hashed_bytes_def)
  have holds: "log_holds cd good lg rs" by (rule log_reach_holds [OF assms(1,2)])
  then have ok: "log_chain_ok GENESIS_HASH rs" and g: "list_all good rs"
    by (simp_all add: log_holds_def)
  have "prev_hash (rs ! i) = log_chain_end GENESIS_HASH (take i rs)"
    using sha_chain.ok_nth(1) [OF ok] assms(3) by simp
  from sha_chain.replaced_break [OF ok assms(3) this nc]
  have "log_first_break GENESIS_HASH (rs[i := r']) \<in> {Some i, Some (Suc i)}" .
  moreover have "list_all good (rs[i := r'])"
    using g assms(4) by (auto simp: list_all_iff dest: set_update_subset_insert [THEN subsetD])
  ultimately show "\<exists>n. n \<in> {i, Suc i} \<and> verify_chain cd (Some (file_text cd (rs[i := r']))) =
      Inr \<lparr>valid = False, record_count = n, first_broken_index = Some n\<rparr>"
    using record_codec.verify_chain_records [OF assms(1)] by (auto simp: report_def)
qed

definition sample_forgery :: audit_record where
  "sample_forgery =
     mk_record sample_log_env True sample_caller sample_command (mk_decision False ''forged'') None"

theorem replaced_record_detected_witness:
  "(\<exists>n. n \<in> {0, 1} \<and>
      verify_chain json_codec (Some (file_text json_codec ((sample_records 2)[0 := sample_forgery]))) =
        Inr \<lparr>valid = False, record_count = n, first_broken_index = Some n\<rparr>) \<or>
   collision (hashed_bytes (prev_hash (sample_records 2 ! 0)) sample_forgery)
     (hashed_bytes (prev_hash (sample_records 2 ! 0)) (sample_records 2 ! 0))"
proof -
  have first: "sample_records 2 ! 0 =
      chained GENESIS_HASH (mk_record sample_log_env True sample_caller sample_command
        (mk_decision True ''ok'') None)"
    by (simp add: sample_records.simps [of 2] sample_records.simps [of "Suc 0"]
          sample_records.simps [of 0] sample_log.simps [of 0] sample_logger_def)
  have wf: "wf_record sample_forgery" "wf_record (sample_records 2 ! 0)"
    by (simp_all add: first wf_sample)
       (simp add: wf_record_def sample_forgery_def mk_record_def decision_dump_def opt_dict_def
          strs_def mk_decision_def)
  have "canonical_bytes (record_payload sample_forgery) \<noteq>
      canonical_bytes (record_payload (sample_records 2 ! 0))"
    using canonical_decision_field [OF wf, of "''allowed''"]
    by (auto simp: first sample_forgery_def chained_def mk_record_def decision_dump_def Let_def)
  then show ?thesis
    using replaced_record_detected [OF json_record_codec sample_reach [of 2], of 0 sample_forgery]
      wf(1) by (simp add: length_sample_records)
qed


definition sample_reordered :: audit_record where
  "sample_reordered =
     sample_forgery\<lparr>rec_decision := rev (rec_decision sample_forgery), record_hash := ''other''\<rparr>"


text \<open>
  C33: The last hash commits to the whole log: two written logs with as many records and the same
  last hash hold the same content record by record, or one of their records exhibits a collision
  of SHA-256.
\<close>

theorem same_head_same_log:
  assumes "record_codec cd good" and "log_reach cd good lg rs" and "log_reach cd good lg' rs'"
    and "length rs = length rs'" and "log_prev_hash lg = log_prev_hash lg'"
  shows "(\<exists>i < length rs. collision (hashed_bytes (prev_hash (rs ! i)) (rs ! i))
                                   (hashed_bytes (prev_hash (rs' ! i)) (rs' ! i))) \<or>
         (\<forall>i < length rs. canonical_bytes (record_payload (rs ! i)) =
                          canonical_bytes (record_payload (rs' ! i)))"
  using log_reach_holds [OF assms(1,2)] log_reach_holds [OF assms(1,3)] assms(4,5)
  by (intro same_head) (simp_all add: log_holds_def)

theorem same_head_same_log_witness:
  "(\<exists>i < 2. collision (hashed_bytes (prev_hash (sample_records 2 ! i)) (sample_records 2 ! i))
                     (hashed_bytes (prev_hash (sample_records 2 ! i)) (sample_records 2 ! i))) \<or>
   (\<forall>i < 2. canonical_bytes (record_payload (sample_records 2 ! i)) =
            canonical_bytes (record_payload (sample_records 2 ! i)))"
  using same_head_same_log [OF json_record_codec sample_reach [of 2] sample_reach [of 2] refl refl]
  by (simp add: length_sample_records)

text \<open>
  A restart resumes the chain: a logger opened on the file of a written log has that log's last
  hash, so what it appends continues the chain and the file still verifies.
\<close>

theorem restart_resumes_chain:
  assumes "record_codec cd good" and "log_reach cd good lg rs" and "le_write_error env = None"
    and "good (chained (log_prev_hash lg) (mk_record env red ctx req d sb))"
  shows "\<exists>lg'. open_logger cd None (log_file lg) red sinks = Inr lg' \<and>
           log_prev_hash lg' = log_prev_hash lg \<and>
           log_verify cd (snd (log_call cd env ctx req d sb lg')) =
             Inr \<lparr>valid = True, record_count = Suc (length rs), first_broken_index = None\<rparr>"
proof -
  let ?lg = "\<lparr>log_file = log_file lg, redact_parameters = red, log_sinks = sinks,
              log_prev_hash = log_prev_hash lg\<rparr>"
  let ?rec = "mk_record env red ctx req d sb"
  have open1: "open_logger cd None (log_file lg) red sinks = Inr ?lg"
    by (rule record_codec.holds_reopen [OF assms(1) log_reach_holds [OF assms(1,2)]])
  have "log_holds cd good ?lg rs"
    by (rule log_reach_holds [OF assms(1) log_reach.reopened [OF assms(2) open1]])
  from record_codec.holds_append [OF assms(1) this, of ?rec] assms(4)
  have "log_holds cd good (snd (log_append cd None ?rec ?lg)) (rs @ [chained (log_prev_hash lg) ?rec])"
    by simp
  from record_codec.holds_verify [OF assms(1) this] open1 assms(3) show ?thesis
    by (simp add: log_call_def)
qed

theorem restart_resumes_chain_witness:
  "\<exists>lg'. open_logger json_codec None (log_file (sample_log 2)) True [] = Inr lg' \<and>
     log_prev_hash lg' = log_prev_hash (sample_log 2) \<and>
     log_verify json_codec (snd (log_call json_codec sample_log_env sample_caller sample_command
       (mk_decision True ''ok'') None lg')) =
       Inr \<lparr>valid = True, record_count = 3, first_broken_index = None\<rparr>"
  using restart_resumes_chain [OF json_record_codec sample_reach [of 2] _ wf_sample]
  by (simp add: length_sample_records sample_log_env_def)

text \<open>
  What the chain does not show: any initial part of a written log verifies as valid, so records
  removed from the end leave no trace in the file.
\<close>

theorem truncated_log_verifies:
  assumes "record_codec cd good" and "log_reach cd good lg rs" and "n \<le> length rs"
  shows "verify_chain cd (Some (file_text cd (take n rs))) =
           Inr \<lparr>valid = True, record_count = n, first_broken_index = None\<rparr>"
proof -
  have holds: "log_holds cd good lg rs" by (rule log_reach_holds [OF assms(1,2)])
  then have ok: "log_chain_ok GENESIS_HASH rs" and g: "list_all good (take n rs)"
    by (auto simp: log_holds_def list_all_iff dest: in_set_takeD)
  have "log_first_break GENESIS_HASH (take n rs) = None"
    using chain_ok_append [of compute_record_hash prev_hash record_hash GENESIS_HASH "take n rs" "drop n rs"]
      ok by (simp add: first_break_None)
  with record_codec.verify_chain_records [OF assms(1) g] assms(3) show ?thesis
    by (simp add: report_def)
qed

theorem truncated_log_verifies_witness:
  "verify_chain json_codec (Some (file_text json_codec (take 1 (sample_records 3)))) =
     Inr \<lparr>valid = True, record_count = 1, first_broken_index = None\<rparr>"
  using truncated_log_verifies [OF json_record_codec sample_reach [of 3], of 1]
  by (simp add: length_sample_records)

text \<open>
  C16: Two loggers that have the same file open fork the chain: each of them keeps the last hash that it
  knows itself, so when one has written a record, the next record of the other does not continue the
  chain, and the file fails verification at that record although nobody has tampered with it. The
  other case is a record whose hash is the hash before it.
\<close>

theorem second_writer_breaks_chain:
  assumes "record_codec cd good" and "log_reach cd good lg rs"
    and "open_logger cd None (log_file lg) red sinks = Inr other"
    and "lg' = snd (log_append cd None r lg)" and "good (chained (log_prev_hash lg) r)"
    and "other' = snd (log_append cd None q (other\<lparr>log_file := log_file lg'\<rparr>))"
    and "good (chained (log_prev_hash other) q)"
  shows "verify_chain cd (log_file other') =
           Inr \<lparr>valid = False, record_count = Suc (length rs), first_broken_index = Some (Suc (length rs))\<rparr> \<or>
         record_hash (chained (log_prev_hash lg) r) = log_prev_hash lg"
proof (cases "record_hash (chained (log_prev_hash lg) r) = log_prev_hash lg")
  case False
  let ?r = "chained (log_prev_hash lg) r" and ?q = "chained (log_prev_hash lg) q"
  have holds: "log_holds cd good lg rs" by (rule log_reach_holds [OF assms(1,2)])
  have same: "log_prev_hash other = log_prev_hash lg"
    using record_codec.holds_reopen [OF assms(1) holds, of red sinks] assms(3) by auto
  have after: "log_holds cd good lg' (rs @ [?r])"
    unfolding assms(4) by (rule record_codec.holds_append [OF assms(1) holds assms(5)])
  then have ok: "log_chain_ok GENESIS_HASH (rs @ [?r])" and written: "log_file lg' = Some (file_text cd (rs @ [?r]))"
    and good: "list_all good (rs @ [?r, ?q])" using assms(7) same by (auto simp: log_holds_def)
  have "log_file other' = Some (file_text cd ((rs @ [?r]) @ [?q]))"
    by (simp add: assms(6) log_append_written written same file_text_def)
  moreover have "log_first_break GENESIS_HASH ((rs @ [?r]) @ [?q]) = Some (Suc (length rs))"
    using False by (simp add: first_break_append [OF ok] sha_chain.seal_prev del: append_assoc)
  moreover have "list_all good ((rs @ [?r]) @ [?q])" using good by simp
  ultimately show ?thesis
    using record_codec.verify_chain_records [OF assms(1), of "(rs @ [?r]) @ [?q]"] by (simp add: report_def)
qed simp

definition sample_entry :: audit_record where
  "sample_entry = mk_record sample_log_env True sample_caller sample_command (mk_decision True ''ok'') None"

theorem second_writer_breaks_chain_witness:
  "\<exists>other. open_logger json_codec None (log_file (sample_log 1)) True [] = Inr other \<and>
     (verify_chain json_codec (log_file (snd (log_append json_codec None sample_entry
        (other\<lparr>log_file := log_file (snd (log_append json_codec None sample_entry (sample_log 1)))\<rparr>)))) =
        Inr \<lparr>valid = False, record_count = 2, first_broken_index = Some 2\<rparr> \<or>
      record_hash (chained (log_prev_hash (sample_log 1)) sample_entry) = log_prev_hash (sample_log 1))"
proof -
  obtain other where other: "open_logger json_codec None (log_file (sample_log 1)) True [] = Inr other"
    using json.holds_reopen [OF log_reach_holds [OF json_record_codec sample_reach [of 1]]] by blast
  have wf: "wf_record (chained p sample_entry)" for p unfolding sample_entry_def by (rule wf_sample)
  show ?thesis
    using second_writer_breaks_chain [OF json_record_codec sample_reach [of 1] other refl wf refl wf]
      length_sample_records [of 1] other by (simp only: One_nat_def Suc_1 [symmetric]) blast
qed

text \<open>
  A call to the log either fails to write, and then the logger and the file are unchanged, or
  its record is written and reaches every sink: a sink that raises an \<open>Exception\<close> stops neither the
  other sinks nor the call.
\<close>

theorem log_call_reaches_sinks:
  assumes "\<forall>s \<in> set (log_sinks lg). \<forall>r e. fst (sink_forward s r) = Inl e \<longrightarrow> is_Exception e"
  shows "case le_write_error env of
           Some e \<Rightarrow> log_call cd env ctx req d sb lg = (Inl e, lg)
         | None \<Rightarrow>
             (\<exists>rec. rec = chained (log_prev_hash lg)
                (mk_record env (redact_parameters lg) ctx req d sb) \<and>
                fst (log_call cd env ctx req d sb lg) = Inr rec \<and>
                log_sinks (snd (log_call cd env ctx req d sb lg)) =
                  map (\<lambda>s. snd (sink_forward s rec)) (log_sinks lg) \<and>
                log_prev_hash (snd (log_call cd env ctx req d sb lg)) = record_hash rec)"
proof (cases "le_write_error env")
  case None
  have "\<forall>s \<in> set (log_sinks lg). \<forall>e. fst (sink_forward s (chained (log_prev_hash lg)
      (mk_record env (redact_parameters lg) ctx req d sb))) = Inl e \<longrightarrow> is_Exception e"
    using assms by blast
  from log_append_result [OF this, of cd] None show ?thesis
    by (simp add: log_call_def log_append_written)
qed (simp add: log_call_def)

theorem log_call_reaches_sinks_witness:
  "let lg = sample_logger\<lparr>log_sinks := [OtherSink (\<lambda>r. Inl (Exn OSError ''down'')), LocalSiemForwarder []]\<rparr>;
       rec = chained GENESIS_HASH
         (mk_record sample_log_env True sample_caller sample_command (mk_decision True ''ok'') None)
   in log_sinks (snd (log_call json_codec sample_log_env sample_caller sample_command
        (mk_decision True ''ok'') None lg)) ! 1 = LocalSiemForwarder [rec]"
  using log_call_reaches_sinks
    [of "sample_logger\<lparr>log_sinks := [OtherSink (\<lambda>r. Inl (Exn OSError ''down'')), LocalSiemForwarder []]\<rparr>"
      sample_log_env sample_caller sample_command "mk_decision True ''ok''" None json_codec]
  by (simp add: Let_def sample_logger_def sample_log_env_def is_Exception_def)

end
