(* ===== verification/Interceptor.thy ===== *)
theory Interceptor
  imports Breaker Hitl AuditTrail
begin

text \<open>
  \<open>ToolCallInterceptor\<close> of \<^verbatim>\<open>interceptor.py\<close>: breaker check, policy decision under a timeout,
  action requirements, sandboxed execution, breaker feedback, and the audit record that the
  \<open>finally\<close> clause writes. The components it is built from are fields of \<open>interceptor\<close>; what they
  change is threaded through \<open>istate\<close>. A cancellation from outside is an outcome
  \<open>CancelledError\<close> of the awaited call it interrupts.

  The try block is \<open>handle_body\<close>; it yields the exception that is pending when the \<open>finally\<close>
  clause starts and the values of the two local variables that the clause reads.

  \<open>cleared\<close> states without stages when a call may run. The lemmas show that the sandbox is
  entered exactly for cleared calls, that every failure of engine, timeout or approval ends in
  a denial, and that each handled call appends one record to the log.
\<close>

record ('s, 'a, 'x) interceptor =
  policy_engine :: "execution_context \<Rightarrow> tool_request \<Rightarrow> policy_decision awaited"
  sandbox :: "tool_request \<Rightarrow> execution_context \<Rightarrow> 'x \<Rightarrow> sandbox_result result \<times> 'x"
  audit_codec :: codec
  approval_callback :: "'a approval_callback option"
  decision_timeout_s :: pyfloat
  circuit_breaker :: "'s backend_ops option"

record ('s, 'a, 'x) istate =
  breaker_state :: 's
  approval_state :: 'a
  sandbox_state :: 'x
  audit_log :: logger

text \<open>Clock readings and identifiers that one call takes from outside.\<close>

record call_env =
  ce_check_now :: pyfloat
  ce_span :: span
  ce_record_now :: pyfloat
  ce_log :: log_env

record interceptor_result =
  ir_allowed :: bool
  ir_decision :: policy_decision
  ir_sandbox_result :: "sandbox_result option"
  ir_audit_record :: audit_record

definition SUPPORTED_REQUIREMENTS :: "string list" where
  "SUPPORTED_REQUIREMENTS = [''human_approval'']"

definition default_decision_timeout_s :: pyfloat where
  "default_decision_timeout_s = 2"

section \<open>The stages\<close>

definition evaluate_decision ::
  "('s, 'a, 'x) interceptor \<Rightarrow> execution_context \<Rightarrow> tool_request \<Rightarrow> policy_decision result" where
  "evaluate_decision ic ctx req =
     (case wait_for (decision_timeout_s ic) (policy_engine ic ctx req) of
        Inr d \<Rightarrow> Inr d
      | Inl e \<Rightarrow>
          (if exn_class e = TimeoutError
           then Inr (mk_decision False ''policy engine timeout: fail-closed'')
           else if is_Exception e
           then Inr (mk_decision False (''policy engine failure: fail-closed ('' @ exn_str e @ '')''))
           else Inl e))"

definition unsupported :: "policy_decision \<Rightarrow> string list" where
  "unsupported d =
     sort (remdups (filter (\<lambda>a. a \<notin> set SUPPORTED_REQUIREMENTS) (action_requirements d)))"

definition resolve_action_requirements ::
  "('s, 'a, 'x) interceptor \<Rightarrow> execution_context \<Rightarrow> tool_request \<Rightarrow> policy_decision \<Rightarrow> 'a
     \<Rightarrow> policy_decision result \<times> 'a" where
  "resolve_action_requirements ic ctx req d ap =
     (if unsupported d \<noteq> []
      then (Inr (mk_decision False
                   (''unsupported action requirement(s): '' @ str_list (unsupported d))), ap)
      else if ''human_approval'' \<in> set (action_requirements d) then
        (case approval_callback ic of
           None \<Rightarrow>
             (Inr (mk_decision False ''approval required but no approval_callback configured''), ap)
         | Some callback \<Rightarrow>
             (case callback ctx req d ap of
                (Inl e, ap') \<Rightarrow> (Inl e, ap')
              | (Inr approved, ap') \<Rightarrow>
                  (if \<not> approved
                   then (Inr (mk_decision False ''approval required but not granted''), ap')
                   else (Inr (mk_decision True (reason d @ ''; human-approved'')), ap'))))
      else (Inr d, ap))"

definition safely_resolve_action_requirements ::
  "('s, 'a, 'x) interceptor \<Rightarrow> execution_context \<Rightarrow> tool_request \<Rightarrow> policy_decision \<Rightarrow> 'a
     \<Rightarrow> policy_decision result \<times> 'a" where
  "safely_resolve_action_requirements ic ctx req d ap =
     (case resolve_action_requirements ic ctx req d ap of
        (Inr d', ap') \<Rightarrow> (Inr d', ap')
      | (Inl e, ap') \<Rightarrow>
          (if is_Exception e
           then (Inr (mk_decision False
                        (''approval resolution failure: fail-closed ('' @ exn_str e @ '')'')), ap')
           else (Inl e, ap')))"

definition execute_sandboxed ::
  "('s, 'a, 'x) interceptor \<Rightarrow> span \<Rightarrow> execution_context \<Rightarrow> tool_request \<Rightarrow> 'x
     \<Rightarrow> sandbox_result result \<times> 'x" where
  "execute_sandboxed ic sp ctx req x =
     (case sandbox ic req ctx x of
        (Inr r, x') \<Rightarrow> (Inr r, x')
      | (Inl e, x') \<Rightarrow>
          (if is_Exception e then (Inr (mk_result '''' (exn_str e) 1 (span_ms sp)), x')
           else (Inl e, x')))"

definition record_circuit_breaker_outcome ::
  "('s, 'a, 'x) interceptor \<Rightarrow> pyfloat \<Rightarrow> execution_context \<Rightarrow> tool_request \<Rightarrow> sandbox_result \<Rightarrow> 's
     \<Rightarrow> unit result \<times> 's" where
  "record_circuit_breaker_outcome ic now ctx req r bs =
     (case circuit_breaker ic of
        None \<Rightarrow> (Inr (), bs)
      | Some ops \<Rightarrow>
          (let success = (exit_code r = 0 \<and> \<not> timed_out r)
           in breaker_record_result ops (agent_id ctx) (tool_name req) success now bs))"

definition audit_and_wrap ::
  "('s, 'a, 'x) interceptor \<Rightarrow> log_env \<Rightarrow> execution_context \<Rightarrow> tool_request \<Rightarrow> policy_decision
     \<Rightarrow> sandbox_result option \<Rightarrow> ('s, 'a, 'x) istate
     \<Rightarrow> interceptor_result result \<times> ('s, 'a, 'x) istate" where
  "audit_and_wrap ic le ctx req d sr st =
     (case log_call (audit_codec ic) le ctx req d (map_option sandbox_dump sr) (audit_log st) of
        (Inl e, lg) \<Rightarrow> (Inl e, st\<lparr>audit_log := lg\<rparr>)
      | (Inr rec, lg) \<Rightarrow>
          (Inr \<lparr>ir_allowed = allowed d, ir_decision = d, ir_sandbox_result = sr,
                ir_audit_record = rec\<rparr>, st\<lparr>audit_log := lg\<rparr>))"

section \<open>The handler\<close>

definition breaker_open_decision :: "execution_context \<Rightarrow> tool_request \<Rightarrow> policy_decision" where
  "breaker_open_decision ctx req =
     mk_decision False (''circuit breaker open for agent '' @ squote (agent_id ctx)
       @ '' tool '' @ squote (tool_name req) @ '': too many recent failures'')"

definition unresolved :: policy_decision where
  "unresolved = mk_decision False ''unresolved: interceptor did not complete''"

text \<open>\<open>self._circuit_breaker is not None and not await self._circuit_breaker.check(...)\<close>\<close>

definition breaker_rejects ::
  "('s, 'a, 'x) interceptor \<Rightarrow> pyfloat \<Rightarrow> execution_context \<Rightarrow> tool_request \<Rightarrow> 's
     \<Rightarrow> bool result \<times> 's" where
  "breaker_rejects ic now ctx req bs =
     (case circuit_breaker ic of
        None \<Rightarrow> (Inr False, bs)
      | Some ops \<Rightarrow>
          (case breaker_check ops (agent_id ctx) (tool_name req) now bs of
             (Inl e, bs') \<Rightarrow> (Inl e, bs')
           | (Inr admitted, bs') \<Rightarrow> (Inr (\<not> admitted), bs')))"

text \<open>The end of the try block: execution and breaker feedback for a decision that stands.\<close>

definition run_permitted ::
  "('s, 'a, 'x) interceptor \<Rightarrow> call_env \<Rightarrow> execution_context \<Rightarrow> tool_request \<Rightarrow> policy_decision
     \<Rightarrow> ('s, 'a, 'x) istate
     \<Rightarrow> exn option \<times> policy_decision \<times> sandbox_result option \<times> ('s, 'a, 'x) istate" where
  "run_permitted ic env ctx req d st =
     (if allowed d then
        (case execute_sandboxed ic (ce_span env) ctx req (sandbox_state st) of
           (Inl e, x) \<Rightarrow> (Some e, d, None, st\<lparr>sandbox_state := x\<rparr>)
         | (Inr r, x) \<Rightarrow>
             (let st' = st\<lparr>sandbox_state := x\<rparr> in
              case record_circuit_breaker_outcome ic (ce_record_now env) ctx req r
                     (breaker_state st') of
                (Inl e, bs) \<Rightarrow> (Some e, d, Some r, st'\<lparr>breaker_state := bs\<rparr>)
              | (Inr _, bs) \<Rightarrow> (None, d, Some r, st'\<lparr>breaker_state := bs\<rparr>)))
      else (None, d, None, st))"

definition handle_body ::
  "('s, 'a, 'x) interceptor \<Rightarrow> call_env \<Rightarrow> execution_context \<Rightarrow> tool_request \<Rightarrow> ('s, 'a, 'x) istate
     \<Rightarrow> exn option \<times> policy_decision \<times> sandbox_result option \<times> ('s, 'a, 'x) istate" where
  "handle_body ic env ctx req st =
     (case evaluate_decision ic ctx req of
        Inl e \<Rightarrow> (Some e, unresolved, None, st)
      | Inr d \<Rightarrow>
          (if allowed d then
             (case safely_resolve_action_requirements ic ctx req d (approval_state st) of
                (Inl e, ap) \<Rightarrow> (Some e, d, None, st\<lparr>approval_state := ap\<rparr>)
              | (Inr d', ap) \<Rightarrow> run_permitted ic env ctx req d' (st\<lparr>approval_state := ap\<rparr>))
           else run_permitted ic env ctx req d st))"

definition handle ::
  "('s, 'a, 'x) interceptor \<Rightarrow> call_env \<Rightarrow> execution_context \<Rightarrow> tool_request \<Rightarrow> ('s, 'a, 'x) istate
     \<Rightarrow> interceptor_result result \<times> ('s, 'a, 'x) istate" where
  "handle ic env ctx req st =
     (case breaker_rejects ic (ce_check_now env) ctx req (breaker_state st) of
        (Inl e, bs) \<Rightarrow> (Inl e, st\<lparr>breaker_state := bs\<rparr>)
      | (Inr True, bs) \<Rightarrow>
          audit_and_wrap ic (ce_log env) ctx req (breaker_open_decision ctx req) None
            (st\<lparr>breaker_state := bs\<rparr>)
      | (Inr False, bs) \<Rightarrow>
          (case handle_body ic env ctx req (st\<lparr>breaker_state := bs\<rparr>) of
             (pending, d, sr, st') \<Rightarrow>
               (case audit_and_wrap ic (ce_log env) ctx req d sr st' of
                  (Inl e, st'') \<Rightarrow> (Inl e, st'')
                | (Inr res, st'') \<Rightarrow>
                    (case pending of None \<Rightarrow> (Inr res, st'') | Some e \<Rightarrow> (Inl e, st'')))))"


section \<open>When a call may run\<close>

definition approves ::
  "('s, 'a, 'x) interceptor \<Rightarrow> execution_context \<Rightarrow> tool_request \<Rightarrow> policy_decision \<Rightarrow> 'a \<Rightarrow> bool" where
  "approves ic ctx req d ap =
     (case approval_callback ic of None \<Rightarrow> False | Some cb \<Rightarrow> fst (cb ctx req d ap) = Inr True)"

text \<open>The engine answers in time, allows, and every requirement it attaches is met.\<close>

definition granted ::
  "('s, 'a, 'x) interceptor \<Rightarrow> execution_context \<Rightarrow> tool_request \<Rightarrow> 'a \<Rightarrow> bool" where
  "granted ic ctx req ap =
     (case wait_for (decision_timeout_s ic) (policy_engine ic ctx req) of
        Inl e \<Rightarrow> False
      | Inr d \<Rightarrow> allowed d \<and> set (action_requirements d) \<subseteq> {''human_approval''} \<and>
          (''human_approval'' \<in> set (action_requirements d) \<longrightarrow> approves ic ctx req d ap))"

definition cleared ::
  "('s, 'a, 'x) interceptor \<Rightarrow> call_env \<Rightarrow> execution_context \<Rightarrow> tool_request \<Rightarrow> ('s, 'a, 'x) istate
     \<Rightarrow> bool" where
  "cleared ic env ctx req st \<longleftrightarrow>
     fst (breaker_rejects ic (ce_check_now env) ctx req (breaker_state st)) = Inr False \<and>
     granted ic ctx req (approval_state st)"

lemma set_unsupported: "set (unsupported d) = set (action_requirements d) - {''human_approval''}"
  by (auto simp: unsupported_def SUPPORTED_REQUIREMENTS_def)

lemma unsupported_Nil [intercept_simps]:
  "unsupported d = [] \<longleftrightarrow> set (action_requirements d) \<subseteq> {''human_approval''}"
  unfolding set_empty [symmetric] set_unsupported by blast

text \<open>The decision that the two stages before execution arrive at.\<close>

definition final_decision ::
  "('s, 'a, 'x) interceptor \<Rightarrow> execution_context \<Rightarrow> tool_request \<Rightarrow> 'a \<Rightarrow> policy_decision result \<times> 'a"
where
  "final_decision ic ctx req ap =
     (case evaluate_decision ic ctx req of
        Inl e \<Rightarrow> (Inl e, ap)
      | Inr d \<Rightarrow> if allowed d then safely_resolve_action_requirements ic ctx req d ap else (Inr d, ap))"

lemma resolve_allowed:
  "(\<exists>d'. fst (safely_resolve_action_requirements ic ctx req d ap) = Inr d' \<and> allowed d') \<longleftrightarrow>
     set (action_requirements d) \<subseteq> {''human_approval''} \<and>
     (if ''human_approval'' \<in> set (action_requirements d) then approves ic ctx req d ap else allowed d)"
  by (auto simp: safely_resolve_action_requirements_def resolve_action_requirements_def
        unsupported_Nil approves_def split: option.splits prod.splits sum.splits)

lemma final_decision_allowed:
  "(\<exists>d. fst (final_decision ic ctx req ap) = Inr d \<and> allowed d) \<longleftrightarrow> granted ic ctx req ap"
proof (cases "wait_for (decision_timeout_s ic) (policy_engine ic ctx req)")
  case (Inl e)
  then show ?thesis by (auto simp: final_decision_def granted_def evaluate_decision_def)
next
  case (Inr d)
  then show ?thesis
    using resolve_allowed [of ic ctx req d ap]
    by (auto simp: final_decision_def granted_def evaluate_decision_def)
qed

text \<open>The try block in terms of the final decision.\<close>

lemma handle_body_eq:
  "handle_body ic env ctx req st =
     (case final_decision ic ctx req (approval_state st) of
        (Inl e, ap) \<Rightarrow>
          (Some e, (case evaluate_decision ic ctx req of Inl _ \<Rightarrow> unresolved | Inr d \<Rightarrow> d), None,
           st\<lparr>approval_state := ap\<rparr>)
      | (Inr d, ap) \<Rightarrow> run_permitted ic env ctx req d (st\<lparr>approval_state := ap\<rparr>))"
  by (auto simp: handle_body_def final_decision_def split: sum.splits prod.splits)

lemma run_permitted_sandbox:
  assumes "run_permitted ic env ctx req d st = (pending, d', sr, st')"
  shows "sandbox_state st' =
           (if allowed d then snd (sandbox ic req ctx (sandbox_state st)) else sandbox_state st)"
  using assms
  by (auto simp: run_permitted_def execute_sandboxed_def Let_def
        split: prod.splits sum.splits if_splits)

lemma handle_body_sandbox:
  assumes "handle_body ic env ctx req st = (pending, d, sr, st')"
  shows "sandbox_state st' =
           (if granted ic ctx req (approval_state st)
            then snd (sandbox ic req ctx (sandbox_state st)) else sandbox_state st)"
proof (cases "final_decision ic ctx req (approval_state st)")
  case (Pair r ap)
  show ?thesis
  proof (cases r)
    case (Inl e)
    then show ?thesis
      using assms Pair final_decision_allowed [of ic ctx req "approval_state st"]
      by (auto simp: handle_body_eq)
  next
    case (Inr d0)
    then have "run_permitted ic env ctx req d0 (st\<lparr>approval_state := ap\<rparr>) = (pending, d, sr, st')"
      and "allowed d0 \<longleftrightarrow> granted ic ctx req (approval_state st)"
      using assms Pair final_decision_allowed [of ic ctx req "approval_state st"]
      by (auto simp: handle_body_eq)
    then show ?thesis using run_permitted_sandbox by fastforce
  qed
qed

lemma audit_and_wrap_frame [intercept_simps]:
  "sandbox_state (snd (audit_and_wrap ic le ctx req d sr st)) = sandbox_state st"
  "approval_state (snd (audit_and_wrap ic le ctx req d sr st)) = approval_state st"
  "breaker_state (snd (audit_and_wrap ic le ctx req d sr st)) = breaker_state st"
  "audit_log (snd (audit_and_wrap ic le ctx req d sr st)) =
     snd (log_call (audit_codec ic) le ctx req d (map_option sandbox_dump sr) (audit_log st))"
  by (auto simp: audit_and_wrap_def split: prod.splits sum.splits)

text \<open>The handler, once the breaker has admitted the call.\<close>

lemma handle_admitted:
  assumes "breaker_rejects ic (ce_check_now env) ctx req (breaker_state st) = (Inr False, bs)"
    and "handle_body ic env ctx req (st\<lparr>breaker_state := bs\<rparr>) = (pending, d, sr, st')"
  shows "handle ic env ctx req st =
           (case audit_and_wrap ic (ce_log env) ctx req d sr st' of
              (Inl e, st'') \<Rightarrow> (Inl e, st'')
            | (Inr res, st'') \<Rightarrow> (case pending of None \<Rightarrow> Inr res | Some e \<Rightarrow> Inl e, st''))"
  using assms by (simp add: handle_def split: prod.splits sum.splits option.splits)

lemma handle_admitted_state:
  assumes "breaker_rejects ic (ce_check_now env) ctx req (breaker_state st) = (Inr False, bs)"
    and "handle_body ic env ctx req (st\<lparr>breaker_state := bs\<rparr>) = (pending, d, sr, st')"
  shows "snd (handle ic env ctx req st) = snd (audit_and_wrap ic (ce_log env) ctx req d sr st')"
  using handle_admitted [OF assms] by (simp split: prod.splits sum.splits)

lemma handle_sandbox_state:
  "sandbox_state (snd (handle ic env ctx req st)) =
     (if cleared ic env ctx req st then snd (sandbox ic req ctx (sandbox_state st))
      else sandbox_state st)"
proof (cases "breaker_rejects ic (ce_check_now env) ctx req (breaker_state st)")
  case (Pair r bs)
  show ?thesis
  proof (cases "r = Inr False")
    case True
    obtain pending d sr st' where
      body: "handle_body ic env ctx req (st\<lparr>breaker_state := bs\<rparr>) = (pending, d, sr, st')"
      by (metis prod_cases4)
    from handle_body_sandbox [OF this] show ?thesis
      using True Pair handle_admitted_state [OF _ body]
      by (simp add: cleared_def audit_and_wrap_frame)
  next
    case False
    then show ?thesis
      using Pair by (auto simp: handle_def cleared_def audit_and_wrap_frame split: sum.splits bool.splits)
  qed
qed


section \<open>What is audited\<close>

text \<open>The decision and the sandbox result that a call's record carries; \<open>None\<close>: no record.\<close>

definition audited ::
  "('s, 'a, 'x) interceptor \<Rightarrow> call_env \<Rightarrow> execution_context \<Rightarrow> tool_request \<Rightarrow> ('s, 'a, 'x) istate
     \<Rightarrow> (policy_decision \<times> sandbox_result option) option" where
  "audited ic env ctx req st =
     (case breaker_rejects ic (ce_check_now env) ctx req (breaker_state st) of
        (Inl e, bs) \<Rightarrow> None
      | (Inr True, bs) \<Rightarrow> Some (breaker_open_decision ctx req, None)
      | (Inr False, bs) \<Rightarrow>
          (case handle_body ic env ctx req (st\<lparr>breaker_state := bs\<rparr>) of
             (pending, d, sr, st') \<Rightarrow> Some (d, sr)))"

lemma run_permitted_frame:
  assumes "run_permitted ic env ctx req d st = (pending, d', sr, st')"
  shows "audit_log st' = audit_log st" and "approval_state st' = approval_state st" and "d' = d"
    and "sr \<noteq> None \<Longrightarrow> allowed d" and "pending = None \<Longrightarrow> sr \<noteq> None \<longleftrightarrow> allowed d"
  using assms
  by (auto simp: run_permitted_def Let_def split: prod.splits sum.splits if_splits)

lemma handle_body_frame:
  assumes "handle_body ic env ctx req st = (pending, d, sr, st')"
  shows "audit_log st' = audit_log st"
    and "sr \<noteq> None \<Longrightarrow> allowed d \<and> granted ic ctx req (approval_state st)"
    and "pending = None \<Longrightarrow> allowed d \<longleftrightarrow> granted ic ctx req (approval_state st)"
    and "pending = None \<Longrightarrow> sr \<noteq> None \<longleftrightarrow> allowed d"
proof -
  obtain r ap where fd: "final_decision ic ctx req (approval_state st) = (r, ap)" by fastforce
  note al = final_decision_allowed [of ic ctx req "approval_state st", unfolded fd fst_conv]
  have "audit_log st' = audit_log st \<and>
    (sr \<noteq> None \<longrightarrow> allowed d \<and> granted ic ctx req (approval_state st)) \<and>
    (pending = None \<longrightarrow> (allowed d \<longleftrightarrow> granted ic ctx req (approval_state st)) \<and>
       (sr \<noteq> None \<longleftrightarrow> allowed d))"
  proof (cases r)
    case (Inl e)
    with assms fd show ?thesis by (auto simp: handle_body_eq)
  next
    case (Inr d0)
    with assms fd have
      run: "run_permitted ic env ctx req d0 (st\<lparr>approval_state := ap\<rparr>) = (pending, d, sr, st')"
      by (simp add: handle_body_eq)
    from run_permitted_frame [OF run] al Inr show ?thesis by auto
  qed
  then show "audit_log st' = audit_log st"
    "sr \<noteq> None \<Longrightarrow> allowed d \<and> granted ic ctx req (approval_state st)"
    "pending = None \<Longrightarrow> allowed d \<longleftrightarrow> granted ic ctx req (approval_state st)"
    "pending = None \<Longrightarrow> sr \<noteq> None \<longleftrightarrow> allowed d"
    by auto
qed

lemma handle_audit_log:
  "audit_log (snd (handle ic env ctx req st)) =
     (case audited ic env ctx req st of
        None \<Rightarrow> audit_log st
      | Some (d, sr) \<Rightarrow>
          snd (log_call (audit_codec ic) (ce_log env) ctx req d (map_option sandbox_dump sr)
                 (audit_log st)))"
proof (cases "breaker_rejects ic (ce_check_now env) ctx req (breaker_state st)")
  case (Pair r bs)
  show ?thesis
  proof (cases "r = Inr False")
    case True
    obtain pending d sr st' where
      body: "handle_body ic env ctx req (st\<lparr>breaker_state := bs\<rparr>) = (pending, d, sr, st')"
      by (metis prod_cases4)
    from handle_body_frame(1) [OF this] show ?thesis
      using True Pair handle_admitted_state [OF _ body] body
      by (simp add: audited_def audit_and_wrap_frame)
  next
    case False
    then show ?thesis
      using Pair by (auto simp: handle_def audited_def audit_and_wrap_frame split: sum.splits bool.splits)
  qed
qed

text \<open>The record tells the truth about the call: a result is there only if the sandbox was entered.\<close>

lemma audited_sandbox:
  "audited ic env ctx req st = Some (d, Some r) \<Longrightarrow> allowed d \<and> cleared ic env ctx req st"
  by (auto simp: audited_def cleared_def split: prod.splits sum.splits bool.splits
        dest: handle_body_frame(2))

text \<open>A call that returns carries what was audited.\<close>

lemma handle_returns:
  assumes "fst (handle ic env ctx req st) = Inr res"
  shows "audited ic env ctx req st = Some (ir_decision res, ir_sandbox_result res)"
    and "ir_allowed res = allowed (ir_decision res)"
    and "fst (log_call (audit_codec ic) (ce_log env) ctx req (ir_decision res)
           (map_option sandbox_dump (ir_sandbox_result res)) (audit_log st)) = Inr (ir_audit_record res)"
    and "ir_allowed res \<longleftrightarrow> cleared ic env ctx req st"
    and "ir_sandbox_result res \<noteq> None \<longleftrightarrow> cleared ic env ctx req st"
proof -
  obtain r bs where rej: "breaker_rejects ic (ce_check_now env) ctx req (breaker_state st) = (r, bs)"
    by fastforce
  have "audited ic env ctx req st = Some (ir_decision res, ir_sandbox_result res) \<and>
    ir_allowed res = allowed (ir_decision res) \<and>
    fst (log_call (audit_codec ic) (ce_log env) ctx req (ir_decision res)
      (map_option sandbox_dump (ir_sandbox_result res)) (audit_log st)) = Inr (ir_audit_record res) \<and>
    (ir_allowed res \<longleftrightarrow> cleared ic env ctx req st) \<and>
    (ir_sandbox_result res \<noteq> None \<longleftrightarrow> cleared ic env ctx req st)"
  proof (cases "r = Inr False")
    case True
    obtain pending d sr st' where
      body: "handle_body ic env ctx req (st\<lparr>breaker_state := bs\<rparr>) = (pending, d, sr, st')"
      by (metis prod_cases4)
    note frame = handle_body_frame [OF body]
    show ?thesis
      using assms rej True body frame handle_admitted [OF _ body]
      by (auto simp: audit_and_wrap_def audited_def cleared_def
            split: prod.splits sum.splits option.splits)
  next
    case False
    then show ?thesis
      using assms rej
      by (auto simp: handle_def audit_and_wrap_def audited_def cleared_def breaker_open_decision_def
            split: prod.splits sum.splits bool.splits)
  qed
  then show "audited ic env ctx req st = Some (ir_decision res, ir_sandbox_result res)"
    "ir_allowed res = allowed (ir_decision res)"
    "fst (log_call (audit_codec ic) (ce_log env) ctx req (ir_decision res)
       (map_option sandbox_dump (ir_sandbox_result res)) (audit_log st)) = Inr (ir_audit_record res)"
    "ir_allowed res \<longleftrightarrow> cleared ic env ctx req st"
    "ir_sandbox_result res \<noteq> None \<longleftrightarrow> cleared ic env ctx req st"
    by auto
qed

end
