(* ===== verification/InterceptorRuns.thy ===== *)
theory InterceptorRuns
  imports Interceptor
begin

text \<open>
  Sequences of handled calls: when \<open>handle\<close> returns instead of raising, what the log holds after
  any number of calls, and how failing executions feed back into the in-memory circuit breaker
  until it denies the next call.
\<close>

fun handle_seq ::
  "('s, 'a, 'x) interceptor \<Rightarrow> (call_env \<times> execution_context \<times> tool_request) list
     \<Rightarrow> ('s, 'a, 'x) istate \<Rightarrow> interceptor_result result list \<times> ('s, 'a, 'x) istate" where
  "handle_seq ic [] st = ([], st)"
| "handle_seq ic ((env, ctx, req) # calls) st =
     (let (r, st') = handle ic env ctx req st; (rs, st'') = handle_seq ic calls st'
      in (r # rs, st''))"

section \<open>When the handler returns\<close>

text \<open>None of the awaited parts of a call is cancelled.\<close>

definition uncancelled ::
  "('s, 'a, 'x) interceptor \<Rightarrow> execution_context \<Rightarrow> tool_request \<Rightarrow> ('s, 'a, 'x) istate \<Rightarrow> bool" where
  "uncancelled ic ctx req st \<longleftrightarrow>
     (\<forall>e. snd (policy_engine ic ctx req) = Inl e \<longrightarrow> is_Exception e) \<and>
     (\<forall>cb d e. approval_callback ic = Some cb \<longrightarrow> fst (cb ctx req d (approval_state st)) = Inl e
        \<longrightarrow> is_Exception e) \<and>
     (\<forall>e. fst (sandbox ic req ctx (sandbox_state st)) = Inl e \<longrightarrow> is_Exception e)"

text \<open>The breaker's backend answers.\<close>

definition breaker_answers :: "('s, 'a, 'x) interceptor \<Rightarrow> bool" where
  "breaker_answers ic \<longleftrightarrow>
     (\<forall>ops. circuit_breaker ic = Some ops \<longrightarrow>
        (\<forall>k now bs e. fst (op_is_open ops k now bs) \<noteq> Inl e \<and>
           fst (op_record_success ops k now bs) \<noteq> Inl e \<and>
           fst (op_record_failure ops k now bs) \<noteq> Inl e))"

lemma breaker_answersD:
  assumes "breaker_answers ic" and "circuit_breaker ic = Some ops"
  shows "op_is_open ops k now bs \<noteq> (Inl e, bs')" and "op_record_success ops k now bs \<noteq> (Inl e, bs')"
    and "op_record_failure ops k now bs \<noteq> (Inl e, bs')"
  using assms unfolding breaker_answers_def by (metis fst_conv)+

lemma breaker_answers_rejects:
  "breaker_answers ic \<Longrightarrow> breaker_rejects ic now ctx req bs \<noteq> (Inl e, bs')"
  by (auto simp: breaker_rejects_def breaker_check_def breaker_answersD
        split: option.splits prod.splits sum.splits)

lemma breaker_answers_records:
  "breaker_answers ic \<Longrightarrow> record_circuit_breaker_outcome ic now ctx req r bs \<noteq> (Inl e, bs')"
  by (auto simp: record_circuit_breaker_outcome_def breaker_record_result_def breaker_answersD Let_def
        split: option.splits)

lemma mem_breaker_answers:
  assumes "circuit_breaker ic = Some (mem_backend_ops cfg)" and "1 \<le> min_samples cfg"
  shows "breaker_answers ic"
  using assms(2)
  by (auto simp: breaker_answers_def assms(1) mem_backend_ops_def mem_is_open_verdict
        open_verdict_def split: option.splits if_splits)

lemma wait_for_uncancelled:
  "(\<And>e. snd call = Inl e \<Longrightarrow> is_Exception e) \<Longrightarrow> wait_for t call = Inl e \<Longrightarrow> is_Exception e"
  by (auto simp: wait_for_def is_Exception_def split: if_splits)

lemma final_decision_answers:
  assumes "uncancelled ic ctx req st"
  shows "\<exists>d ap. final_decision ic ctx req (approval_state st) = (Inr d, ap)"
proof -
  have "\<exists>d. evaluate_decision ic ctx req = Inr d"
    using assms wait_for_uncancelled [of "policy_engine ic ctx req" "decision_timeout_s ic"]
    by (auto simp: uncancelled_def evaluate_decision_def split: sum.split)
  then obtain d where d: "evaluate_decision ic ctx req = Inr d" ..
  have "\<exists>d' ap. safely_resolve_action_requirements ic ctx req d (approval_state st) = (Inr d', ap)"
    using assms
    by (auto simp: uncancelled_def safely_resolve_action_requirements_def
          resolve_action_requirements_def split: option.splits prod.splits sum.splits)
       (metis fst_conv)
  with d show ?thesis by (simp add: final_decision_def)
qed

lemma run_permitted_answers:
  assumes "\<And>e. fst (sandbox ic req ctx (sandbox_state st)) = Inl e \<Longrightarrow> is_Exception e"
    and "breaker_answers ic"
  shows "fst (run_permitted ic env ctx req d st) = None"
  using assms(1) breaker_answers_records [OF assms(2)]
  by (auto simp: run_permitted_def execute_sandboxed_def Let_def split: prod.splits sum.splits)

lemma handle_body_answers:
  assumes "uncancelled ic ctx req st" and "breaker_answers ic"
  shows "fst (handle_body ic env ctx req st) = None"
proof -
  obtain d ap where fd: "final_decision ic ctx req (approval_state st) = (Inr d, ap)"
    using final_decision_answers [OF assms(1)] by blast
  have "fst (run_permitted ic env ctx req d (st\<lparr>approval_state := ap\<rparr>)) = None"
    using assms by (intro run_permitted_answers) (auto simp: uncancelled_def)
  with fd show ?thesis by (simp add: handle_body_eq)
qed

text \<open>The log takes every record: the write succeeds and no sink is cancelled.\<close>

definition log_accepts :: "log_env \<Rightarrow> logger \<Rightarrow> bool" where
  "log_accepts le lg \<longleftrightarrow> le_write_error le = None \<and>
     (\<forall>s \<in> set (log_sinks lg). \<forall>r e. fst (sink_forward s r) = Inl e \<longrightarrow> is_Exception e)"

lemma log_accepts_call:
  "log_accepts le lg \<Longrightarrow> \<exists>rec lg'. log_call cd le ctx req d sb lg = (Inr rec, lg')"
  using log_append_result(1) [of lg "mk_record le (redact_parameters lg) ctx req d sb" cd]
  by (auto simp: log_accepts_def log_call_def) (metis prod.collapse)

lemma handle_returns_result:
  assumes "uncancelled ic ctx req st" and "breaker_answers ic" and "log_accepts (ce_log env) (audit_log st)"
  shows "\<exists>res. fst (handle ic env ctx req st) = Inr res"
proof -
  obtain r bs where rej: "breaker_rejects ic (ce_check_now env) ctx req (breaker_state st) = (r, bs)"
    by fastforce
  have wrap: "\<exists>res st''. audit_and_wrap ic (ce_log env) ctx req d sr st' = (Inr res, st'')"
    if "audit_log st' = audit_log st" for d sr st'
    using log_accepts_call [OF assms(3), of "audit_codec ic" ctx req d "map_option sandbox_dump sr"]
      that by (auto simp: audit_and_wrap_def)
  show ?thesis
  proof (cases r)
    case (Inl e)
    with rej breaker_answers_rejects [OF assms(2)] show ?thesis by blast
  next
    case (Inr b)
    obtain pending d sr st' where
      body: "handle_body ic env ctx req (st\<lparr>breaker_state := bs\<rparr>) = (pending, d, sr, st')"
      by (metis prod_cases4)
    have "uncancelled ic ctx req (st\<lparr>breaker_state := bs\<rparr>)"
      using assms(1) by (simp add: uncancelled_def)
    from handle_body_answers [OF this assms(2), of env] body have "pending = None" by simp
    moreover have "audit_log st' = audit_log st" using handle_body_frame(1) [OF body] by simp
    ultimately show ?thesis
      using rej Inr body wrap [of st' d sr]
        wrap [of "st\<lparr>breaker_state := bs\<rparr>" "breaker_open_decision ctx req" None]
      by (cases b) (auto simp: handle_def)
  qed
qed

lemma handle_final_decision:
  assumes "breaker_rejects ic (ce_check_now env) ctx req (breaker_state st) = (Inr False, bs)"
    and "final_decision ic ctx req (approval_state st) = (Inr d, ap)" and "\<not> allowed d"
  shows "handle ic env ctx req st =
           audit_and_wrap ic (ce_log env) ctx req d None (st\<lparr>breaker_state := bs, approval_state := ap\<rparr>)"
proof -
  have "handle_body ic env ctx req (st\<lparr>breaker_state := bs\<rparr>) =
      (None, d, None, st\<lparr>breaker_state := bs, approval_state := ap\<rparr>)"
    using assms(2,3) by (simp add: handle_body_eq run_permitted_def)
  from handle_admitted [OF assms(1) this] show ?thesis
    by (simp split: prod.splits sum.splits)
qed

lemma log_call_record:
  assumes "fst (log_call cd env ctx req d sb lg) = Inr rec"
  shows "rec = chained (log_prev_hash lg) (mk_record env (redact_parameters lg) ctx req d sb)"
  using assms
  by (auto simp: log_call_def log_append_def Let_def split: option.splits if_splits prod.splits sum.splits)

section \<open>The log after a sequence of calls\<close>

text \<open>What the calls of a sequence leave in the log, in order.\<close>

fun audited_seq ::
  "('s, 'a, 'x) interceptor \<Rightarrow> (call_env \<times> execution_context \<times> tool_request) list
     \<Rightarrow> ('s, 'a, 'x) istate \<Rightarrow> (policy_decision \<times> sandbox_result option) option list" where
  "audited_seq ic [] st = []"
| "audited_seq ic ((env, ctx, req) # calls) st =
     audited ic env ctx req st # audited_seq ic calls (snd (handle ic env ctx req st))"

text \<open>The record format covers every record that an admitted call can leave.\<close>

definition codec_covers ::
  "(audit_record \<Rightarrow> bool) \<Rightarrow> ('s, 'a, 'x) interceptor \<Rightarrow> bool" where
  "codec_covers good ic \<longleftrightarrow>
     (\<forall>env ctx req st d sr red p.
        audited ic env ctx req st = Some (d, sr) \<longrightarrow>
        good (chained p (mk_record (ce_log env) red ctx req d (map_option sandbox_dump sr))))"

lemma audited_answers: "breaker_answers ic \<Longrightarrow> \<exists>d sr. audited ic env ctx req st = Some (d, sr)"
  using breaker_answers_rejects
  by (fastforce simp: audited_def split: prod.splits sum.splits bool.splits)

lemma chained_fields [simp]:
  "rec_call_id (chained p r) = rec_call_id r" "rec_decision (chained p r) = rec_decision r"
  "rec_sandbox_result (chained p r) = rec_sandbox_result r" "rec_request (chained p r) = rec_request r"
  "rec_context (chained p r) = rec_context r"
  by (simp_all add: chained_def Let_def)

text \<open>One call adds one record, with the call's identifier and what was audited.\<close>

lemma handle_log_reach:
  assumes "audited ic env ctx req st = Some (d, sr)"
    and "le_write_error (ce_log env) = None" and "codec_covers good ic"
    and "log_reach (audit_codec ic) good (audit_log st) rs"
  shows "\<exists>rec. log_reach (audit_codec ic) good (audit_log (snd (handle ic env ctx req st))) (rs @ [rec]) \<and>
           rec_call_id rec = call_id req \<and> rec_decision rec = decision_dump d \<and>
           rec_sandbox_result rec = map_option sandbox_dump sr"
proof -
  let ?lg = "audit_log st"
  let ?rec = "chained (log_prev_hash ?lg)
    (mk_record (ce_log env) (redact_parameters ?lg) ctx req d (map_option sandbox_dump sr))"
  have "good ?rec" using assms(1,3) by (auto simp: codec_covers_def)
  moreover have "log_call (audit_codec ic) (ce_log env) ctx req d (map_option sandbox_dump sr) ?lg =
    (fst (log_call (audit_codec ic) (ce_log env) ctx req d (map_option sandbox_dump sr) ?lg),
     audit_log (snd (handle ic env ctx req st)))"
    using assms(1) by (simp add: handle_audit_log)
  ultimately have
    "log_reach (audit_codec ic) good (audit_log (snd (handle ic env ctx req st))) (rs @ [?rec])"
    using log_reach.called [OF assms(4,2) refl] by blast
  then show ?thesis by (intro exI [of _ ?rec]) (simp add: mk_record_def)
qed

lemma handle_seq_log_reach:
  assumes "breaker_answers ic" and "codec_covers good ic"
    and "\<forall>(env, ctx, req) \<in> set calls. le_write_error (ce_log env) = None"
    and "log_reach (audit_codec ic) good (audit_log st) rs"
  shows "\<exists>new. log_reach (audit_codec ic) good (audit_log (snd (handle_seq ic calls st))) (rs @ new) \<and>
           map rec_call_id new = map (\<lambda>(env, ctx, req). call_id req) calls \<and>
           map (\<lambda>r. Some (rec_decision r, rec_sandbox_result r)) new =
             map (map_option (map_prod decision_dump (map_option sandbox_dump)))
               (audited_seq ic calls st)"
  using assms
proof (induction ic calls st arbitrary: rs rule: handle_seq.induct)
  case (1 ic st)
  then show ?case by (intro exI [of _ "[]"]) simp
next
  case (2 ic env ctx req calls st)
  obtain d sr where aud: "audited ic env ctx req st = Some (d, sr)"
    using audited_answers [OF "2.prems"(1)] by blast
  obtain r st' where h: "handle ic env ctx req st = (r, st')" by fastforce
  obtain rec where rec: "log_reach (audit_codec ic) good (audit_log st') (rs @ [rec])"
    "rec_call_id rec = call_id req" "rec_decision rec = decision_dump d"
    "rec_sandbox_result rec = map_option sandbox_dump sr"
    using handle_log_reach [OF aud _ "2.prems"(2,4)] "2.prems"(3) h by auto
  obtain new where
    "log_reach (audit_codec ic) good (audit_log (snd (handle_seq ic calls st'))) ((rs @ [rec]) @ new)"
    "map rec_call_id new = map (\<lambda>(env, ctx, req). call_id req) calls"
    "map (\<lambda>r. Some (rec_decision r, rec_sandbox_result r)) new =
       map (map_option (map_prod decision_dump (map_option sandbox_dump))) (audited_seq ic calls st')"
    using "2.IH" [OF h [symmetric] refl "2.prems"(1,2) _ rec(1)] "2.prems"(3) by auto
  then show ?case
    using rec(2-4) h aud
    by (intro exI [of _ "rec # new"]) (simp add: split_beta)
qed

section \<open>Feedback into the breaker\<close>

text \<open>A call whose sandbox does not succeed, whatever the sandbox's state.\<close>

definition failing_call ::
  "('s, 'a, 'x) interceptor \<Rightarrow> execution_context \<Rightarrow> tool_request \<Rightarrow> bool" where
  "failing_call ic ctx req \<longleftrightarrow>
     (\<forall>ap. granted ic ctx req ap) \<and>
     (\<forall>x sp. \<exists>r x'. execute_sandboxed ic sp ctx req x = (Inr r, x') \<and> \<not> succeeded r)"

text \<open>The clock readings of a call lie between two bounds.\<close>

definition between :: "pyfloat \<Rightarrow> pyfloat \<Rightarrow> call_env \<Rightarrow> bool" where
  "between t0 t1 env \<longleftrightarrow>
     t0 \<le> ce_check_now env \<and> ce_check_now env \<le> t1 \<and> t0 \<le> ce_record_now env \<and> ce_record_now env \<le> t1"

text \<open>A key with the given number of failures, all from \<open>t0\<close> on, and not tripped.\<close>

definition failed_times :: "pyfloat \<Rightarrow> mem_backend \<Rightarrow> string \<Rightarrow> nat \<Rightarrow> bool" where
  "failed_times t0 bs k n \<longleftrightarrow> tripped_at bs k = None \<and> length (key_events bs k) = n \<and>
     (\<forall>ev \<in> set (key_events bs k). t0 \<le> fst ev \<and> \<not> snd ev)"

lemma pruned_recent:
  assumes "fsub t1 (window_seconds cfg) \<le> t0" and "now \<le> t1" and "\<forall>ev \<in> set evs. t0 \<le> fst ev"
  shows "pruned cfg now evs = evs"
proof -
  have "fsub now (window_seconds cfg) \<le> t0"
    using fsub_mono [OF assms(2)] assms(1) by (rule order_trans)
  then show ?thesis
    using assms(3) by (cases evs) (auto simp: pruned_def)
qed

lemma failed_times_check:
  assumes "failed_times t0 bs k n" and "fsub t1 (window_seconds cfg) \<le> t0" and "now \<le> t1"
    and "int n < min_samples cfg"
  shows "\<exists>bs'. mem_is_open cfg k now bs = (Inr False, bs') \<and> failed_times t0 bs' k n"
proof -
  have "pruned cfg now (key_events bs k) = key_events bs k"
    using assms by (intro pruned_recent) (auto simp: failed_times_def)
  then show ?thesis
    using assms by (auto simp: mem_is_open_def failed_times_def mem_prune_eq)
qed

lemma failed_times_open:
  assumes "failed_times t0 bs k n" and "fsub t1 (window_seconds cfg) \<le> t0" and "now \<le> t1"
    and "min_samples cfg \<le> int n" and "0 < n" and "failure_threshold cfg \<le> 1"
  shows "fst (mem_is_open cfg k now bs) = Inr True"
proof -
  have pr: "pruned cfg now (key_events bs k) = key_events bs k"
    using assms by (intro pruned_recent) (auto simp: failed_times_def)
  moreover have "rate (key_events bs k) = 1"
    using assms by (intro rate_all_failures) (auto simp: failed_times_def)
  ultimately show ?thesis
    using assms by (auto simp: mem_is_open_verdict open_verdict_def failed_times_def)
qed

lemma failed_times_record:
  assumes "failed_times t0 bs k n" and "fsub t1 (window_seconds cfg) \<le> t0" and "now \<le> t1" and "t0 \<le> now"
  shows "failed_times t0 (mem_record_failure cfg k now bs) k (Suc n)"
proof -
  have "pruned cfg now (key_events bs k) = key_events bs k"
    using assms by (intro pruned_recent) (auto simp: failed_times_def)
  then show ?thesis
    using assms by (auto simp: failed_times_def mem_record_failure_def mem_append_view)
qed

lemma granted_final:
  assumes "granted ic ctx req ap"
  obtains d ap' where "final_decision ic ctx req ap = (Inr d, ap')" and "allowed d"
  using final_decision_allowed [of ic ctx req ap] assms by (metis prod.collapse)

text \<open>The breaker's state after a failing call that it admits.\<close>

lemma handle_failing_call:
  assumes cb: "circuit_breaker ic = Some (mem_backend_ops cfg)"
    and fc: "failing_call ic ctx req"
    and chk: "mem_is_open cfg (key_for (agent_id ctx) (tool_name req)) (ce_check_now env)
                (breaker_state st) = (Inr False, bs)"
  shows "breaker_state (snd (handle ic env ctx req st)) =
           mem_record_failure cfg (key_for (agent_id ctx) (tool_name req)) (ce_record_now env) bs"
proof -
  let ?st = "st\<lparr>breaker_state := bs\<rparr>"
  have rej: "breaker_rejects ic (ce_check_now env) ctx req (breaker_state st) = (Inr False, bs)"
    using chk by (simp add: breaker_rejects_def cb breaker_check_def mem_backend_ops_def)
  obtain d ap where fd: "final_decision ic ctx req (approval_state ?st) = (Inr d, ap)" "allowed d"
    using fc granted_final [of ic ctx req "approval_state ?st"] by (auto simp: failing_call_def)
  obtain r x where ex: "execute_sandboxed ic (ce_span env) ctx req (sandbox_state st) = (Inr r, x)"
    "\<not> succeeded r"
    using fc unfolding failing_call_def by blast
  have rec: "record_circuit_breaker_outcome ic (ce_record_now env) ctx req r bs =
    (Inr (), mem_record_failure cfg (key_for (agent_id ctx) (tool_name req)) (ce_record_now env) bs)"
    using ex(2) by (auto simp: record_circuit_breaker_outcome_def cb breaker_record_result_def
        mem_backend_ops_def succeeded_def Let_def)
  have body: "\<exists>st'. handle_body ic env ctx req ?st = (None, d, Some r, st') \<and>
    breaker_state st' =
      mem_record_failure cfg (key_for (agent_id ctx) (tool_name req)) (ce_record_now env) bs"
    using fd ex(1) rec by (simp add: handle_body_eq run_permitted_def Let_def)
  then show ?thesis
    using handle_admitted_state [where ic = ic and env = env, OF rej]
    by (auto simp: audit_and_wrap_frame)
qed

lemma failing_seq:
  assumes cb: "circuit_breaker ic = Some (mem_backend_ops cfg)"
    and win: "fsub t1 (window_seconds cfg) \<le> t0"
    and calls: "\<forall>(env, ctx, req) \<in> set calls. between t0 t1 env \<and> failing_call ic ctx req \<and>
                  key_for (agent_id ctx) (tool_name req) = k"
    and few: "int (n + length calls) \<le> min_samples cfg"
    and st: "failed_times t0 (breaker_state st) k n"
  shows "failed_times t0 (breaker_state (snd (handle_seq ic calls st))) k (n + length calls)"
  using calls few st
proof (induction calls arbitrary: n st)
  case (Cons call calls)
  obtain env ctx req where call: "call = (env, ctx, req)" by (cases call)
  have c: "between t0 t1 env" "failing_call ic ctx req" "key_for (agent_id ctx) (tool_name req) = k"
    using Cons.prems(1) by (auto simp: call)
  obtain bs where chk: "mem_is_open cfg k (ce_check_now env) (breaker_state st) = (Inr False, bs)"
    and bs: "failed_times t0 bs k n"
    using failed_times_check [OF Cons.prems(3) win] c(1) Cons.prems(2) by (auto simp: between_def)
  have "breaker_state (snd (handle ic env ctx req st)) = mem_record_failure cfg k (ce_record_now env) bs"
    using handle_failing_call [OF cb c(2)] chk c(3) by simp
  then have "failed_times t0 (breaker_state (snd (handle ic env ctx req st))) k (Suc n)"
    using failed_times_record [OF bs win] c(1) by (simp add: between_def)
  from Cons.IH [OF _ _ this] Cons.prems(1,2) show ?case by (simp add: call split_beta)
qed simp

text \<open>The same from a key whose earlier outcomes have all left the window when the first call comes.\<close>

lemma failing_seq_quiet:
  assumes cb: "circuit_breaker ic = Some (mem_backend_ops cfg)"
    and win: "fsub t1 (window_seconds cfg) \<le> t0"
    and calls: "\<forall>(env, ctx, req) \<in> set calls. between t0 t1 env \<and> failing_call ic ctx req \<and>
                  key_for (agent_id ctx) (tool_name req) = k"
    and few: "0 < length calls" "int (length calls) \<le> min_samples cfg"
    and quiet: "tripped_at (breaker_state st) k = None" "pruned cfg t0 (key_events (breaker_state st) k) = []"
  shows "failed_times t0 (breaker_state (snd (handle_seq ic calls st))) k (length calls)"
proof -
  obtain env ctx req calls' where split: "calls = (env, ctx, req) # calls'" using few(1) by (cases calls) auto
  have c: "between t0 t1 env" "failing_call ic ctx req" "key_for (agent_id ctx) (tool_name req) = k"
    using calls by (auto simp: split)
  have "fsub t0 (window_seconds cfg) \<le> fsub (ce_check_now env) (window_seconds cfg)"
    using fsub_mono c(1) by (simp add: between_def)
  then have "pruned cfg (ce_check_now env) (key_events (breaker_state st) k) = []"
    using quiet(2) by (fastforce simp: pruned_def)
  then obtain bs where chk: "mem_is_open cfg k (ce_check_now env) (breaker_state st) = (Inr False, bs)"
    and "failed_times t0 bs k 0"
    using quiet(1) few by (auto simp: mem_is_open_def failed_times_def mem_prune_eq)
  then have "failed_times t0 (mem_record_failure cfg k (ce_record_now env) bs) k (Suc 0)"
    using failed_times_record [OF _ win] c(1) by (auto simp: between_def)
  then have "failed_times t0 (breaker_state (snd (handle ic env ctx req st))) k 1"
    using handle_failing_call [OF cb c(2)] chk c(3) by simp
  from failing_seq [OF cb win _ _ this, of calls'] calls few show ?thesis by (simp add: split split_beta)
qed

end
