(* ===== verification/InterceptorProps.thy ===== *)
theory InterceptorProps
  imports InterceptorRuns
begin

text \<open>
  The properties of the tool call interceptor, over any engine, sandbox, approval callback and
  breaker backend: when a call runs, that failures deny, that every call is audited, that the
  handler answers, and how the circuit breaker closes a failing tool. The sample stack at the
  start is the concrete instance on which hypotheses are discharged.
\<close>

section \<open>A sample stack\<close>

text \<open>An engine with a fixed answer, a sandbox that counts its runs, the queue, the in-memory breaker.\<close>

definition sample_interceptor ::
  "policy_decision awaited \<Rightarrow> sandbox_result result \<Rightarrow> (mem_backend, approval_queue, nat) interceptor" where
  "sample_interceptor ans out =
     \<lparr>policy_engine = (\<lambda>ctx req. ans), sandbox = (\<lambda>req ctx n. (out, Suc n)), audit_codec = json_codec,
      approval_callback = Some queue_call, decision_timeout_s = 2,
      circuit_breaker = Some (mem_backend_ops sample_config)\<rparr>"

definition sample_state :: "(mem_backend, approval_queue, nat) istate" where
  "sample_state =
     \<lparr>breaker_state = mem_init, approval_state = approval_queue_init False, sandbox_state = 0,
      audit_log = sample_logger\<rparr>"

definition sample_call_env :: call_env where
  "sample_call_env =
     \<lparr>ce_check_now = 0, ce_span = (0, 1), ce_record_now = 1, ce_log = sample_log_env\<rparr>"

definition sample_ok :: policy_decision where
  "sample_ok = mk_decision True ''ok''"

definition sample_out :: "sandbox_result result" where
  "sample_out = Inr (mk_result ''done'' '''' 0 0)"

lemma sample_answers: "breaker_answers (sample_interceptor ans out)"
  by (rule mem_breaker_answers [of _ sample_config])
     (simp_all add: sample_interceptor_def sample_config_def)

lemma sample_accepts: "log_accepts (ce_log sample_call_env) (audit_log sample_state)"
  by (simp add: log_accepts_def sample_call_env_def sample_log_env_def sample_state_def sample_logger_def)

lemma sample_admits:
  "fst (breaker_rejects (sample_interceptor ans out) (ce_check_now sample_call_env) ctx req
          (breaker_state sample_state)) = Inr False"
  by (simp add: breaker_rejects_def sample_interceptor_def breaker_check_def mem_backend_ops_def
        sample_state_def mem_is_open_def mem_init_def mem_prune_eq pruned_def key_events_def
        sample_config_def)

lemma sample_uncancelled:
  "(\<And>e. snd ans = Inl e \<Longrightarrow> is_Exception e) \<Longrightarrow> (\<And>e. out = Inl e \<Longrightarrow> is_Exception e) \<Longrightarrow>
     uncancelled (sample_interceptor ans out) ctx req sample_state"
  by (auto simp: uncancelled_def sample_interceptor_def queue_call_def Let_def)

lemma sample_returns:
  "\<exists>res. fst (handle (sample_interceptor (t, Inr d) sample_out) sample_call_env sample_caller
            sample_command sample_state) = Inr res"
  using handle_returns_result [OF sample_uncancelled sample_answers sample_accepts]
  by (fastforce simp: sample_out_def)


section \<open>Permission\<close>

text \<open>
  C1: No execution without permission: a call enters the sandbox exactly when it is cleared, that is
  when the circuit breaker admits it, the policy engine answers within the timeout with an
  allowing decision, that decision carries no requirement but human approval, and approval,
  where required, is granted. In every other case, errors and cancellations included, the sandbox
  is not touched.
\<close>

theorem sandbox_runs_iff_cleared:
  "sandbox_state (snd (handle ic env ctx req st)) =
     (if cleared ic env ctx req st then snd (sandbox ic req ctx (sandbox_state st))
      else sandbox_state st)"
  by (rule handle_sandbox_state)

text \<open>
  A returned result tells what happened: it says allowed exactly for a call that was cleared, it
  carries a sandbox result exactly then, and the audit record it carries has the call's identifier,
  the same decision and the same sandbox result.
\<close>

theorem result_reflects_call:
  assumes "fst (handle ic env ctx req st) = Inr res"
  shows "(ir_allowed res \<longleftrightarrow> cleared ic env ctx req st) \<and>
         (ir_sandbox_result res \<noteq> None \<longleftrightarrow> cleared ic env ctx req st) \<and>
         ir_allowed res = allowed (ir_decision res) \<and>
         rec_call_id (ir_audit_record res) = call_id req \<and>
         rec_decision (ir_audit_record res) = decision_dump (ir_decision res) \<and>
         rec_sandbox_result (ir_audit_record res) = map_option sandbox_dump (ir_sandbox_result res)"
  using handle_returns [OF assms] log_call_record [OF handle_returns(3) [OF assms]]
  by (simp add: mk_record_def)

theorem result_reflects_call_witness:
  "\<exists>res. fst (handle (sample_interceptor (1, Inr sample_ok) sample_out) sample_call_env sample_caller
            sample_command sample_state) = Inr res \<and> ir_allowed res \<and> ir_sandbox_result res \<noteq> None"
proof -
  let ?ic = "sample_interceptor (1, Inr sample_ok) sample_out"
  obtain res where res: "fst (handle ?ic sample_call_env sample_caller sample_command sample_state) = Inr res"
    using sample_returns by blast
  have "cleared ?ic sample_call_env sample_caller sample_command sample_state"
    by (simp add: cleared_def sample_admits)
       (simp add: granted_def sample_interceptor_def wait_for_def sample_ok_def)
  with result_reflects_call [OF res] res show ?thesis by blast
qed

text \<open>
  C24: The handler answers: if none of the awaited parts is cancelled, the breaker's backend answers
  and the log takes the record, then \<open>handle\<close> returns a result, whatever the engine, the approval
  callback and the sandbox raise.
\<close>

theorem handle_answers:
  assumes "uncancelled ic ctx req st" and "breaker_answers ic"
    and "log_accepts (ce_log env) (audit_log st)"
  shows "\<exists>res. fst (handle ic env ctx req st) = Inr res"
  by (rule handle_returns_result [OF assms])

theorem handle_answers_witness:
  "\<exists>res. fst (handle (sample_interceptor (1, Inr sample_ok) (Inl (Exn OSError ''disk'')))
            sample_call_env sample_caller sample_command sample_state) = Inr res"
  by (rule handle_answers [OF sample_uncancelled sample_answers sample_accepts])
     (auto simp: is_Exception_def)


section \<open>Failing closed\<close>

text \<open>
  C23: Fail closed: when the policy engine raises any exception or does not answer in time, an
  admitted call is denied with a reason that names the failure; no approval is asked for, the
  sandbox is not entered, and the denial is what the log records.
\<close>

theorem engine_failure_denies:
  assumes "fst (breaker_rejects ic (ce_check_now env) ctx req (breaker_state st)) = Inr False"
    and "wait_for (decision_timeout_s ic) (policy_engine ic ctx req) = Inl e" and "is_Exception e"
    and "log_accepts (ce_log env) (audit_log st)"
  shows "\<exists>res st'. handle ic env ctx req st = (Inr res, st') \<and> \<not> ir_allowed res \<and>
           ir_sandbox_result res = None \<and>
           reason (ir_decision res) =
             (if exn_class e = TimeoutError then ''policy engine timeout: fail-closed''
              else ''policy engine failure: fail-closed ('' @ exn_str e @ '')'') \<and>
           sandbox_state st' = sandbox_state st \<and> approval_state st' = approval_state st \<and>
           rec_decision (ir_audit_record res) = decision_dump (ir_decision res)"
proof -
  obtain bs where rej: "breaker_rejects ic (ce_check_now env) ctx req (breaker_state st) = (Inr False, bs)"
    using assms(1) by (metis prod.collapse)
  let ?d = "mk_decision False (if exn_class e = TimeoutError then ''policy engine timeout: fail-closed''
      else ''policy engine failure: fail-closed ('' @ exn_str e @ '')'')"
  have "final_decision ic ctx req (approval_state st) = (Inr ?d, approval_state st)"
    using assms(2,3) by (simp add: final_decision_def evaluate_decision_def)
  from handle_final_decision [OF rej this]
  have h: "handle ic env ctx req st = audit_and_wrap ic (ce_log env) ctx req ?d None
      (st\<lparr>breaker_state := bs, approval_state := approval_state st\<rparr>)" by simp
  obtain rec lg where "log_call (audit_codec ic) (ce_log env) ctx req ?d None (audit_log st) = (Inr rec, lg)"
    using log_accepts_call [OF assms(4)] by blast
  with h log_call_record [of "audit_codec ic" "ce_log env" ctx req ?d None "audit_log st" rec]
  show ?thesis by (auto simp: audit_and_wrap_def mk_record_def)
qed

theorem engine_failure_denies_witness:
  "\<exists>res st'. handle (sample_interceptor (5, Inr sample_ok) sample_out) sample_call_env sample_caller
       sample_command sample_state = (Inr res, st') \<and> \<not> ir_allowed res \<and>
     reason (ir_decision res) = ''policy engine timeout: fail-closed'' \<and> sandbox_state st' = 0"
proof -
  have "wait_for (decision_timeout_s (sample_interceptor (5, Inr sample_ok) sample_out))
      (policy_engine (sample_interceptor (5, Inr sample_ok) sample_out) sample_caller sample_command) =
      Inl (Exn TimeoutError '''')"
    by (simp add: sample_interceptor_def wait_for_def)
  from engine_failure_denies [OF sample_admits this _ sample_accepts] show ?thesis
    by (auto simp: is_Exception_def sample_state_def)
qed

text \<open>The reason that the resolution of an allowing decision ends with.\<close>

definition resolution_reason ::
  "('s, 'a, 'x) interceptor \<Rightarrow> execution_context \<Rightarrow> tool_request \<Rightarrow> policy_decision \<Rightarrow> 'a \<Rightarrow> string" where
  "resolution_reason ic ctx req d ap =
     (if \<not> set (action_requirements d) \<subseteq> {''human_approval''}
      then ''unsupported action requirement(s): '' @ str_list (unsupported d)
      else if ''human_approval'' \<in> set (action_requirements d) then
        (case approval_callback ic of
           None \<Rightarrow> ''approval required but no approval_callback configured''
         | Some cb \<Rightarrow>
             (case fst (cb ctx req d ap) of
                Inl e \<Rightarrow> ''approval resolution failure: fail-closed ('' @ exn_str e @ '')''
              | Inr ok \<Rightarrow> if ok then reason d @ ''; human-approved''
                         else ''approval required but not granted''))
      else reason d)"

lemma resolve_reason:
  assumes "fst (safely_resolve_action_requirements ic ctx req d ap) = Inr d'"
  shows "reason d' = resolution_reason ic ctx req d ap"
proof (cases "unsupported d = [] \<and> ''human_approval'' \<in> set (action_requirements d)")
  case False
  then show ?thesis
    using assms
    by (auto simp: safely_resolve_action_requirements_def resolve_action_requirements_def
          resolution_reason_def unsupported_Nil split: if_splits)
next
  case True
  note eqs = safely_resolve_action_requirements_def resolve_action_requirements_def
    resolution_reason_def unsupported_Nil [symmetric]
  show ?thesis
  proof (cases "approval_callback ic")
    case None
    with True assms show ?thesis by (auto simp: eqs)
  next
    case (Some cb)
    with True assms show ?thesis
      by (cases "cb ctx req d ap") (auto simp: eqs split: sum.splits if_splits)
  qed
qed

text \<open>
  Requirements fail closed: an allowing decision that carries a requirement other than human
  approval is denied with the sorted list of what is not supported, and one that requires
  approval is denied when there is no callback, when the callback says no and when it raises;
  in each case the sandbox is not entered, and the reason says which case it was.
\<close>

theorem unmet_requirement_denies:
  assumes "fst (breaker_rejects ic (ce_check_now env) ctx req (breaker_state st)) = Inr False"
    and "wait_for (decision_timeout_s ic) (policy_engine ic ctx req) = Inr d" and "allowed d"
    and "fst (handle ic env ctx req st) = Inr res"
  shows "reason (ir_decision res) = resolution_reason ic ctx req d (approval_state st) \<and>
         (ir_sandbox_result res \<noteq> None \<longleftrightarrow>
            set (action_requirements d) \<subseteq> {''human_approval''} \<and>
            (''human_approval'' \<in> set (action_requirements d) \<longrightarrow> approves ic ctx req d (approval_state st)))"
proof -
  obtain bs where rej: "breaker_rejects ic (ce_check_now env) ctx req (breaker_state st) = (Inr False, bs)"
    using assms(1) by (metis prod.collapse)
  obtain pending d' sr st' where
    body: "handle_body ic env ctx req (st\<lparr>breaker_state := bs\<rparr>) = (pending, d', sr, st')"
    by (metis prod_cases4)
  have d': "ir_decision res = d'" and pending: "pending = None"
    using handle_admitted [OF rej body] assms(4)
    by (auto simp: audit_and_wrap_def split: prod.splits sum.splits option.splits)
  have "fst (safely_resolve_action_requirements ic ctx req d (approval_state st)) = Inr d'"
    using body assms(2,3) pending
    by (auto simp: handle_body_def evaluate_decision_def split: prod.splits sum.splits
          dest: run_permitted_frame(3))
  from resolve_reason [OF this]
  have "reason (ir_decision res) = resolution_reason ic ctx req d (approval_state st)"
    by (simp add: d')
  moreover have "cleared ic env ctx req st \<longleftrightarrow> set (action_requirements d) \<subseteq> {''human_approval''} \<and>
      (''human_approval'' \<in> set (action_requirements d) \<longrightarrow> approves ic ctx req d (approval_state st))"
    using assms(1-3) by (simp add: cleared_def granted_def)
  ultimately show ?thesis using handle_returns(5) [OF assms(4)] by simp
qed

definition sample_quorum :: policy_decision where
  "sample_quorum = sample_ok\<lparr>action_requirements := [''quorum'', ''human_approval'']\<rparr>"

theorem unmet_requirement_denies_witness:
  "\<exists>res. fst (handle (sample_interceptor (1, Inr sample_quorum) sample_out) sample_call_env sample_caller
       sample_command sample_state) = Inr res \<and> ir_sandbox_result res = None \<and>
     reason (ir_decision res) = ''unsupported action requirement(s): '' @ str_list [''quorum'']"
proof -
  let ?ic = "sample_interceptor (1, Inr sample_quorum) sample_out"
  obtain res where res: "fst (handle ?ic sample_call_env sample_caller sample_command sample_state) = Inr res"
    using sample_returns by blast
  have ans: "wait_for (decision_timeout_s ?ic) (policy_engine ?ic sample_caller sample_command) =
      Inr sample_quorum"
    by (simp add: sample_interceptor_def wait_for_def)
  have al: "allowed sample_quorum" by (simp add: sample_quorum_def sample_ok_def mk_decision_def)
  have uns: "unsupported sample_quorum = [''quorum'']" by code_simp
  have req: "action_requirements sample_quorum = [''quorum'', ''human_approval'']"
    by (simp add: sample_quorum_def)
  from unmet_requirement_denies [OF sample_admits ans al res] uns req res show ?thesis
    by (auto simp: resolution_reason_def)
qed


section \<open>Cancellation\<close>

text \<open>
  Cancellation is audited: when the call is cancelled while the policy engine is awaited, the
  cancellation propagates to the caller, the sandbox is not entered, and the log has the record of
  an unresolved denial for the call.
\<close>

theorem cancelled_call_audited:
  assumes "fst (breaker_rejects ic (ce_check_now env) ctx req (breaker_state st)) = Inr False"
    and "wait_for (decision_timeout_s ic) (policy_engine ic ctx req) = Inl e" and "\<not> is_Exception e"
    and "log_accepts (ce_log env) (audit_log st)"
  shows "\<exists>st'. handle ic env ctx req st = (Inl e, st') \<and> sandbox_state st' = sandbox_state st \<and>
           audit_log st' = snd (log_call (audit_codec ic) (ce_log env) ctx req
             (mk_decision False ''unresolved: interceptor did not complete'') None (audit_log st))"
proof -
  obtain bs where rej: "breaker_rejects ic (ce_check_now env) ctx req (breaker_state st) = (Inr False, bs)"
    using assms(1) by (metis prod.collapse)
  have "exn_class e \<noteq> TimeoutError" using assms(3) by (simp add: is_Exception_def)
  then have body: "handle_body ic env ctx req (st\<lparr>breaker_state := bs\<rparr>) =
      (Some e, unresolved, None, st\<lparr>breaker_state := bs\<rparr>)"
    using assms(2,3) by (simp add: handle_body_def evaluate_decision_def)
  obtain rec lg where
    "log_call (audit_codec ic) (ce_log env) ctx req unresolved None (audit_log st) = (Inr rec, lg)"
    using log_accepts_call [OF assms(4)] by blast
  with handle_admitted [OF rej body] show ?thesis
    by (simp add: audit_and_wrap_def unresolved_def)
qed

theorem cancelled_call_audited_witness:
  "\<exists>st'. handle (sample_interceptor (1, Inl (Exn CancelledError '''')) sample_out) sample_call_env
       sample_caller sample_command sample_state = (Inl (Exn CancelledError ''''), st') \<and>
     sandbox_state st' = 0"
proof -
  let ?ic = "sample_interceptor (1, Inl (Exn CancelledError '''')) sample_out"
  have "wait_for (decision_timeout_s ?ic) (policy_engine ?ic sample_caller sample_command) =
      Inl (Exn CancelledError '''')"
    by (simp add: sample_interceptor_def wait_for_def)
  from cancelled_call_audited [OF sample_admits this _ sample_accepts] show ?thesis
    by (auto simp: is_Exception_def sample_state_def)
qed

text \<open>
  What the record does not show: when the call is cancelled while approval is awaited, nothing
  runs and the cancellation propagates, but the record carries the engine's decision that was
  pending approval, so the log says allowed for a call that was never approved.
\<close>

theorem cancelled_approval_logged_allowed:
  assumes "fst (breaker_rejects ic (ce_check_now env) ctx req (breaker_state st)) = Inr False"
    and "wait_for (decision_timeout_s ic) (policy_engine ic ctx req) = Inr d" and "allowed d"
    and "set (action_requirements d) = {''human_approval''}"
    and "approval_callback ic = Some cb" and "fst (cb ctx req d (approval_state st)) = Inl e"
    and "\<not> is_Exception e" and "log_accepts (ce_log env) (audit_log st)"
  shows "\<exists>st'. handle ic env ctx req st = (Inl e, st') \<and> sandbox_state st' = sandbox_state st \<and>
           audit_log st' = snd (log_call (audit_codec ic) (ce_log env) ctx req d None (audit_log st))"
proof -
  obtain bs where rej: "breaker_rejects ic (ce_check_now env) ctx req (breaker_state st) = (Inr False, bs)"
    using assms(1) by (metis prod.collapse)
  obtain ap where cb: "cb ctx req d (approval_state st) = (Inl e, ap)"
    using assms(6) by (metis prod.collapse)
  have "unsupported d = []" using assms(4) by (simp add: unsupported_Nil)
  then have "safely_resolve_action_requirements ic ctx req d (approval_state st) = (Inl e, ap)"
    using assms(4,5,7) cb
    by (simp add: safely_resolve_action_requirements_def resolve_action_requirements_def)
  then have body: "handle_body ic env ctx req (st\<lparr>breaker_state := bs\<rparr>) =
      (Some e, d, None, st\<lparr>breaker_state := bs, approval_state := ap\<rparr>)"
    using assms(2,3) by (simp add: handle_body_def evaluate_decision_def)
  obtain rec lg where
    "log_call (audit_codec ic) (ce_log env) ctx req d None (audit_log st) = (Inr rec, lg)"
    using log_accepts_call [OF assms(8)] by blast
  with handle_admitted [OF rej body] show ?thesis by (simp add: audit_and_wrap_def)
qed

definition sample_pending :: policy_decision where
  "sample_pending = sample_ok\<lparr>action_requirements := [''human_approval'']\<rparr>"

definition cancelling_interceptor :: "(mem_backend, approval_queue, nat) interceptor" where
  "cancelling_interceptor =
     (sample_interceptor (1, Inr sample_pending) sample_out)
       \<lparr>approval_callback := Some (\<lambda>ctx req d q. (Inl (Exn CancelledError ''''), q))\<rparr>"

lemma cancelling_simps:
  "decision_timeout_s cancelling_interceptor = 2"
  "policy_engine cancelling_interceptor = (\<lambda>ctx req. (1, Inr sample_pending))"
  "approval_callback cancelling_interceptor = Some (\<lambda>ctx req d q. (Inl (Exn CancelledError ''''), q))"
  "circuit_breaker cancelling_interceptor =
     circuit_breaker (sample_interceptor (1, Inr sample_pending) sample_out)"
  by (simp_all add: cancelling_interceptor_def sample_interceptor_def)

theorem cancelled_approval_logged_allowed_witness:
  "\<exists>st'. handle cancelling_interceptor sample_call_env sample_caller sample_command sample_state =
       (Inl (Exn CancelledError ''''), st') \<and> sandbox_state st' = 0 \<and> allowed sample_pending"
proof -
  have admits: "fst (breaker_rejects cancelling_interceptor (ce_check_now sample_call_env) sample_caller
      sample_command (breaker_state sample_state)) = Inr False"
    using sample_admits [of "(1, Inr sample_pending)" sample_out sample_caller sample_command]
    by (simp add: cancelling_simps breaker_rejects_def)
  have ans: "wait_for (decision_timeout_s cancelling_interceptor)
      (policy_engine cancelling_interceptor sample_caller sample_command) = Inr sample_pending"
    by (simp add: cancelling_simps wait_for_def)
  have pend: "allowed sample_pending" "set (action_requirements sample_pending) = {''human_approval''}"
    by (simp_all add: sample_pending_def sample_ok_def mk_decision_def)
  from cancelled_approval_logged_allowed [OF admits ans pend cancelling_simps(3) _ _ sample_accepts]
  show ?thesis using pend(1) by (auto simp: is_Exception_def sample_state_def)
qed

section \<open>The audit trail\<close>

lemma handle_seq_audited:
  assumes "record_codec (audit_codec ic) good" and "codec_covers good ic" and "breaker_answers ic"
    and "\<forall>(env, ctx, req) \<in> set calls. le_write_error (ce_log env) = None"
    and "log_reach (audit_codec ic) good (audit_log st) rs"
  shows "\<exists>new. log_reach (audit_codec ic) good (audit_log (snd (handle_seq ic calls st))) (rs @ new) \<and>
           map rec_call_id new = map (\<lambda>(env, ctx, req). call_id req) calls \<and>
           map (\<lambda>r. Some (rec_decision r, rec_sandbox_result r)) new =
             map (map_option (map_prod decision_dump (map_option sandbox_dump))) (audited_seq ic calls st) \<and>
           log_verify (audit_codec ic) (audit_log (snd (handle_seq ic calls st))) =
             Inr \<lparr>valid = True, record_count = length rs + length calls, first_broken_index = None\<rparr>"
proof -
  obtain new where new:
    "log_reach (audit_codec ic) good (audit_log (snd (handle_seq ic calls st))) (rs @ new)"
    "map rec_call_id new = map (\<lambda>(env, ctx, req). call_id req) calls"
    "map (\<lambda>r. Some (rec_decision r, rec_sandbox_result r)) new =
       map (map_option (map_prod decision_dump (map_option sandbox_dump))) (audited_seq ic calls st)"
    using handle_seq_log_reach [OF assms(3,2,4,5)] by blast
  have "length new = length calls" using new(2) by (metis length_map)
  with new record_codec.holds_verify [OF assms(1) log_reach_holds [OF assms(1) new(1)]] show ?thesis
    by auto
qed

text \<open>
  Every call is audited: after any sequence of calls, the log holds exactly one new record per
  call, in the order of the calls and under their identifiers, with the decision and the sandbox
  result of that call, and it verifies; this needs a record format that reads back what it writes,
  a breaker backend that answers, and writes that succeed.
\<close>

theorem every_call_audited:
  assumes "record_codec (audit_codec ic) good" and "codec_covers good ic" and "breaker_answers ic"
    and "\<forall>(env, ctx, req) \<in> set calls. le_write_error (ce_log env) = None"
    and "log_reach (audit_codec ic) good (audit_log st) rs"
  shows "\<exists>new. log_reach (audit_codec ic) good (audit_log (snd (handle_seq ic calls st))) (rs @ new) \<and>
           map rec_call_id new = map (\<lambda>(env, ctx, req). call_id req) calls \<and>
           map (\<lambda>r. Some (rec_decision r, rec_sandbox_result r)) new =
             map (map_option (map_prod decision_dump (map_option sandbox_dump))) (audited_seq ic calls st) \<and>
           log_verify (audit_codec ic) (audit_log (snd (handle_seq ic calls st))) =
             Inr \<lparr>valid = True, record_count = length rs + length calls, first_broken_index = None\<rparr>"
  by (rule handle_seq_audited [OF assms])

text \<open>What the sample stack audits: decisions without parameter changes, and its one result.\<close>

lemma sample_fields [simp]:
  "circuit_breaker (sample_interceptor ans out) = Some (mem_backend_ops sample_config)"
  "policy_engine (sample_interceptor ans out) = (\<lambda>ctx req. ans)"
  "sandbox (sample_interceptor ans out) = (\<lambda>req ctx n. (out, Suc n))"
  "decision_timeout_s (sample_interceptor ans out) = 2"
  by (simp_all add: sample_interceptor_def)

lemma sample_body:
  "fst (snd (handle_body (sample_interceptor (1, Inr sample_ok) sample_out) env ctx req st)) = sample_ok"
  "fst (snd (snd (handle_body (sample_interceptor (1, Inr sample_ok) sample_out) env ctx req st))) =
     Some (mk_result ''done'' '''' 0 0)"
proof -
  let ?ic = "sample_interceptor (1, Inr sample_ok) sample_out"
  have fd: "final_decision ?ic ctx req ap = (Inr sample_ok, ap)" for ap
    by (simp add: final_decision_def evaluate_decision_def wait_for_def unsupported_def sample_ok_def
          safely_resolve_action_requirements_def resolve_action_requirements_def)
  have ex: "execute_sandboxed ?ic sp ctx req x = (Inr (mk_result ''done'' '''' 0 0), Suc x)" for sp x
    by (simp add: execute_sandboxed_def sample_out_def)
  have al: "allowed sample_ok" by (simp add: sample_ok_def)
  show "fst (snd (handle_body ?ic env ctx req st)) = sample_ok"
    "fst (snd (snd (handle_body ?ic env ctx req st))) = Some (mk_result ''done'' '''' 0 0)"
    by (simp_all add: handle_body_eq fd run_permitted_def al ex Let_def split: prod.split sum.split)
qed

lemma sample_audited:
  assumes "audited (sample_interceptor (1, Inr sample_ok) sample_out) env ctx req st = Some (d, sr)"
  shows "modified_parameters d = None \<and> sr \<in> {None, Some (mk_result ''done'' '''' 0 0)}"
proof -
  let ?ic = "sample_interceptor (1, Inr sample_ok) sample_out"
  obtain r bs where rej: "breaker_rejects ?ic (ce_check_now env) ctx req (breaker_state st) = (r, bs)"
    by fastforce
  obtain pending d0 sr0 st0 where
    body: "handle_body ?ic env ctx req (st\<lparr>breaker_state := bs\<rparr>) = (pending, d0, sr0, st0)"
    by (metis prod_cases4)
  have "d0 = sample_ok" "sr0 = Some (mk_result ''done'' '''' 0 0)"
    using sample_body [of env ctx req "st\<lparr>breaker_state := bs\<rparr>"] by (simp_all add: body)
  then have "sample_ok = d \<and> sr = Some (mk_result ''done'' '''' 0 0) \<or>
      d = breaker_open_decision ctx req \<and> sr = None"
    using assms by (auto simp: audited_def rej body split: sum.split_asm bool.split_asm)
  then show ?thesis by (auto simp: sample_ok_def breaker_open_decision_def)
qed

lemma sample_covers: "codec_covers wf_record (sample_interceptor (1, Inr sample_ok) sample_out)"
proof -
  have float: "wf_pyval (PFloat 0)" by code_simp
  have wf: "wf_record (chained p (mk_record le red ctx req d (map_option sandbox_dump sr)))"
    if "modified_parameters d = None \<and> sr \<in> {None, Some (mk_result ''done'' '''' 0 0)}"
    for p le red ctx req d sr
    using that float
    by (auto simp: wf_record_def mk_record_def decision_dump_def sandbox_dump_def opt_dict_def strs_def
          mk_result_def list_all_iff)
  show ?thesis unfolding codec_covers_def using wf sample_audited by simp
qed

theorem every_call_audited_witness:
  "log_verify json_codec (audit_log (snd (handle_seq (sample_interceptor (1, Inr sample_ok) sample_out)
     [(sample_call_env, sample_caller, sample_command), (sample_call_env, sample_caller, sample_command)]
     sample_state))) = Inr \<lparr>valid = True, record_count = 2, first_broken_index = None\<rparr>"
proof -
  let ?ic = "sample_interceptor (1, Inr sample_ok) sample_out"
  let ?calls = "[(sample_call_env, sample_caller, sample_command),
    (sample_call_env, sample_caller, sample_command)]"
  have cd: "audit_codec ?ic = json_codec" by (simp add: sample_interceptor_def)
  have reach: "log_reach (audit_codec ?ic) wf_record (audit_log sample_state) []"
    using sample_reach [of 0]
    by (simp add: cd sample_log.simps [of 0] sample_records.simps [of 0] sample_state_def)
  have writes: "\<forall>(env, ctx, req) \<in> set ?calls. le_write_error (ce_log env) = None"
    by (simp add: sample_call_env_def sample_log_env_def)
  have codec: "record_codec (audit_codec ?ic) wf_record" by (simp add: cd json_record_codec)
  from every_call_audited [OF codec sample_covers sample_answers writes reach] show ?thesis
    by (auto simp: cd)
qed

text \<open>
  What is not audited: when the breaker's backend raises in the check before the policy
  decision, the exception leaves \<open>handle\<close>, and nothing is written to the log.
\<close>

theorem breaker_failure_unaudited:
  assumes "fst (breaker_rejects ic (ce_check_now env) ctx req (breaker_state st)) = Inl e"
  shows "fst (handle ic env ctx req st) = Inl e \<and>
         audit_log (snd (handle ic env ctx req st)) = audit_log st"
proof -
  obtain bs where "breaker_rejects ic (ce_check_now env) ctx req (breaker_state st) = (Inl e, bs)"
    using assms by (metis prod.collapse)
  then show ?thesis by (simp add: handle_def)
qed

definition broken_config :: breaker_config where
  "broken_config = sample_config\<lparr>min_samples := 0\<rparr>"

theorem breaker_failure_unaudited_witness:
  "fst (handle ((sample_interceptor (1, Inr sample_ok) sample_out)
            \<lparr>circuit_breaker := Some (mem_backend_ops broken_config)\<rparr>)
          sample_call_env sample_caller sample_command sample_state) =
     Inl (Exn ZeroDivisionError ''division by zero'')"
  by (rule breaker_failure_unaudited [THEN conjunct1])
     (simp add: breaker_rejects_def breaker_check_def mem_backend_ops_def sample_state_def mem_is_open_def
        mem_init_def mem_prune_eq pruned_def key_events_def sample_config_def broken_config_def)


section \<open>The circuit breaker around the handler\<close>

lemma handle_rejected:
  assumes "fst (breaker_rejects ic (ce_check_now env) ctx req (breaker_state st)) = Inr True"
  shows "handle ic env ctx req st =
           audit_and_wrap ic (ce_log env) ctx req (breaker_open_decision ctx req) None
             (st\<lparr>breaker_state :=
                   snd (breaker_rejects ic (ce_check_now env) ctx req (breaker_state st))\<rparr>)"
proof -
  obtain bs where "breaker_rejects ic (ce_check_now env) ctx req (breaker_state st) = (Inr True, bs)"
    using assms by (metis prod.collapse)
  then show ?thesis by (simp add: handle_def)
qed


definition open_state :: "(mem_backend, approval_queue, nat) istate" where
  "open_state = sample_state\<lparr>breaker_state := mem_init\<lparr>tripped_at := [''a:t'' \<mapsto> 0]\<rparr>\<rparr>"

lemma sample_open:
  "fst (breaker_rejects (sample_interceptor ans out) (ce_check_now sample_call_env) sample_caller
     sample_command (breaker_state open_state)) = Inr True"
  by (simp add: breaker_rejects_def sample_interceptor_def breaker_check_def mem_backend_ops_def
        open_state_def mem_is_open_def key_for_def sample_caller_def sample_command_def
        sample_call_env_def sample_config_def)


text \<open>
  C18: A failing tool is cut off: take the in-memory breaker at a time when the key of an agent and a tool is
  not tripped and all outcomes recorded for it earlier have left the window. Once \<open>min_samples\<close>
  permitted calls of that agent to that tool have failed from then on (by exit code, timeout or exception), the next
  call of that agent to that tool, all of them within one window, is denied by the breaker and does not
  reach the sandbox, whatever the policy says. (Successes still inside the window would lower the failure rate.)
\<close>

theorem failing_tool_cut_off:
  assumes "circuit_breaker ic = Some (mem_backend_ops cfg)" and "1 \<le> min_samples cfg"
    and "failure_threshold cfg \<le> 1" and "fsub t1 (window_seconds cfg) \<le> t0"
    and "\<forall>(env, ctx, req) \<in> set calls. between t0 t1 env \<and> failing_call ic ctx req \<and>
           key_for (agent_id ctx) (tool_name req) = k"
    and "int (length calls) = min_samples cfg"
    and "tripped_at (breaker_state st) k = None" and "pruned cfg t0 (key_events (breaker_state st) k) = []"
    and "ce_check_now env \<le> t1" and "key_for (agent_id ctx) (tool_name req) = k"
  shows "fst (breaker_rejects ic (ce_check_now env) ctx req
           (breaker_state (snd (handle_seq ic calls st)))) = Inr True \<and>
         sandbox_state (snd (handle ic env ctx req (snd (handle_seq ic calls st)))) =
           sandbox_state (snd (handle_seq ic calls st))"
proof -
  let ?st = "snd (handle_seq ic calls st)"
  have some: "0 < length calls" using assms(2,6) by linarith
  have "failed_times t0 (breaker_state ?st) k (length calls)"
    using failing_seq_quiet [OF assms(1,4,5) some _ assms(7,8)] assms(6) by simp
  then have "fst (mem_is_open cfg k (ce_check_now env) (breaker_state ?st)) = Inr True"
    using failed_times_open [OF _ assms(4,9)] assms(2,3,6) by auto
  then have rej: "fst (breaker_rejects ic (ce_check_now env) ctx req (breaker_state ?st)) = Inr True"
    using assms(10)
    by (auto simp: breaker_rejects_def assms(1) breaker_check_def mem_backend_ops_def split: prod.splits)
  moreover have "\<not> cleared ic env ctx req ?st" using rej by (simp add: cleared_def)
  ultimately show ?thesis by (simp add: handle_sandbox_state)
qed

lemma sample_failing:
  "failing_call (sample_interceptor (1, Inr sample_ok) (Inl (Exn OSError ''disk''))) ctx req"
  by (simp add: failing_call_def granted_def sample_interceptor_def wait_for_def sample_ok_def
        execute_sandboxed_def is_Exception_def succeeded_def)

text \<open>A state that remembers a success from before the window.\<close>

definition stale_state :: "(mem_backend, approval_queue, nat) istate" where
  "stale_state = sample_state\<lparr>breaker_state := mem_init\<lparr>events := [''a:t'' \<mapsto> [(- 100000, True)]]\<rparr>\<rparr>"

theorem failing_tool_cut_off_witness:
  "sandbox_state (snd (handle (sample_interceptor (1, Inr sample_ok) (Inl (Exn OSError ''disk'')))
     sample_call_env sample_caller sample_command
     (snd (handle_seq (sample_interceptor (1, Inr sample_ok) (Inl (Exn OSError ''disk'')))
        [(sample_call_env, sample_caller, sample_command), (sample_call_env, sample_caller, sample_command)]
        stale_state)))) =
   sandbox_state (snd (handle_seq (sample_interceptor (1, Inr sample_ok) (Inl (Exn OSError ''disk'')))
        [(sample_call_env, sample_caller, sample_command), (sample_call_env, sample_caller, sample_command)]
        stale_state))"
proof (rule failing_tool_cut_off [where cfg = sample_config and ?t0.0 = 0 and ?t1.0 = 1 and k = "''a:t''",
      THEN conjunct2])
  show "fsub 1 (window_seconds sample_config) \<le> 0" by code_simp
  show "pruned sample_config 0 (key_events (breaker_state stale_state) ''a:t'') = []"
  proof -
    have "key_events (breaker_state stale_state) ''a:t'' = [(- 100000, True)]"
      by (simp add: stale_state_def key_events_def)
    moreover have "pruned sample_config 0 [(- 100000, True)] = []" by code_simp
    ultimately show ?thesis by simp
  qed
  show "\<forall>(env, ctx, req) \<in> set [(sample_call_env, sample_caller, sample_command),
      (sample_call_env, sample_caller, sample_command)]. between 0 1 env \<and>
      failing_call (sample_interceptor (1, Inr sample_ok) (Inl (Exn OSError ''disk''))) ctx req \<and>
      key_for (agent_id ctx) (tool_name req) = ''a:t''"
    by (simp add: sample_failing) (simp add: between_def sample_call_env_def key_for_def
      sample_caller_def sample_command_def)
qed (simp_all add: sample_config_def sample_call_env_def key_for_def sample_caller_def sample_command_def
       stale_state_def mem_init_def)

end
