(* ===== verification/Pipeline.thy ===== *)
theory Pipeline
  imports Gateway InterceptorProps
begin

text \<open>
  \<open>GovernancePipeline\<close> of \<^verbatim>\<open>pipeline.py\<close>: gateway, guardrail, scripted client and interceptor in one
  request flow. A pipeline is the record of its four parts; the state that the interceptor's parts
  keep is the \<open>istate\<close> beside it. An exception of any stage leaves \<open>run\<close>, and the state is what the
  stages before it have made of it.

  \<open>admitted_prompt\<close> is the condition under which the client is asked at all. The lemmas relate the
  loop over the proposed calls to \<open>handle_seq\<close>, so that what holds of sequences of handled calls
  holds of a run.
\<close>

record ('s, 'a, 'x) pipeline =
  pl_gateway :: gateway
  pl_guardrail :: guardrail
  pl_llm_client :: llm_client
  pl_interceptor :: "('s, 'a, 'x) interceptor"

record pipeline_result =
  pr_final_response :: string
  pr_tool_call_results :: "interceptor_result list"

text \<open>What a run takes from outside: the clock at the identity check, and what each call takes.\<close>

record run_env =
  re_now :: pyfloat
  re_call :: "nat \<Rightarrow> call_env"

text \<open>The loop over the proposed calls, \<open>i\<close> being the index of the first.\<close>

fun run_calls ::
  "('s, 'a, 'x) interceptor \<Rightarrow> (nat \<Rightarrow> call_env) \<Rightarrow> nat \<Rightarrow> execution_context \<Rightarrow> proposed_tool_call list
     \<Rightarrow> ('s, 'a, 'x) istate \<Rightarrow> interceptor_result list result \<times> ('s, 'a, 'x) istate" where
  "run_calls ic env i ctx [] st = (Inr [], st)"
| "run_calls ic env i ctx (p # ps) st =
     (case handle ic (env i) ctx (to_tool_request p) st of
        (Inl e, st') \<Rightarrow> (Inl e, st')
      | (Inr res, st') \<Rightarrow>
          (case run_calls ic env (Suc i) ctx ps st' of
             (Inl e, st'') \<Rightarrow> (Inl e, st'')
           | (Inr results, st'') \<Rightarrow> (Inr (res # results), st'')))"

definition run ::
  "('s, 'a, 'x) pipeline \<Rightarrow> run_env \<Rightarrow> string \<Rightarrow> execution_context \<Rightarrow> string \<Rightarrow> ('s, 'a, 'x) istate
     \<Rightarrow> pipeline_result result \<times> ('s, 'a, 'x) pipeline \<times> ('s, 'a, 'x) istate" where
  "run pl env prompt ctx bearer_token st =
     (case handle_inbound (pl_gateway pl) (re_now env) prompt ctx bearer_token of
        (Inl e, gw) \<Rightarrow> (Inl e, pl\<lparr>pl_gateway := gw\<rparr>, st)
      | (Inr gateway_clean_prompt, gw) \<Rightarrow>
          (let pl' = pl\<lparr>pl_gateway := gw\<rparr> in
           case inspect_input (pl_guardrail pl) gateway_clean_prompt ctx of
             Inl e \<Rightarrow> (Inl e, pl', st)
           | Inr guardrail_clean_prompt \<Rightarrow>
               (let proposed_calls = propose_tool_calls (pl_llm_client pl) guardrail_clean_prompt ctx in
                case run_calls (pl_interceptor pl) (re_call env) 0 ctx proposed_calls st of
                  (Inl e, st') \<Rightarrow> (Inl e, pl', st')
                | (Inr tool_call_results, st') \<Rightarrow>
                    (let raw_response = complete (pl_llm_client pl) guardrail_clean_prompt ctx in
                     case inspect_output (pl_guardrail pl) raw_response ctx of
                       Inl e \<Rightarrow> (Inl e, pl', st')
                     | Inr final \<Rightarrow>
                         (Inr \<lparr>pr_final_response = final, pr_tool_call_results = tool_call_results\<rparr>,
                          pl', st')))))"


section \<open>What the stages in front of the client let through\<close>

definition admitted_prompt ::
  "('s, 'a, 'x) pipeline \<Rightarrow> run_env \<Rightarrow> string \<Rightarrow> execution_context \<Rightarrow> string \<Rightarrow> string result" where
  "admitted_prompt pl env prompt ctx bearer_token =
     (case fst (handle_inbound (pl_gateway pl) (re_now env) prompt ctx bearer_token) of
        Inl e \<Rightarrow> Inl e
      | Inr p \<Rightarrow> inspect_input (pl_guardrail pl) p ctx)"

text \<open>The calls of a run as the sequence that the interceptor handles.\<close>

definition calls_of ::
  "(nat \<Rightarrow> call_env) \<Rightarrow> nat \<Rightarrow> execution_context \<Rightarrow> proposed_tool_call list
     \<Rightarrow> (call_env \<times> execution_context \<times> tool_request) list" where
  "calls_of env i ctx ps = map (\<lambda>(j, p). (env j, ctx, to_tool_request p)) (enumerate i ps)"

definition scripted_calls ::
  "('s, 'a, 'x) pipeline \<Rightarrow> run_env \<Rightarrow> execution_context
     \<Rightarrow> (call_env \<times> execution_context \<times> tool_request) list" where
  "scripted_calls pl env ctx = calls_of (re_call env) 0 ctx (scripted_tool_calls (pl_llm_client pl))"

lemma calls_of_simps [simp]:
  "calls_of env i ctx [] = []"
  "calls_of env i ctx (p # ps) = (env i, ctx, to_tool_request p) # calls_of env (Suc i) ctx ps"
  "length (calls_of env i ctx ps) = length ps"
  by (simp_all add: calls_of_def)

text \<open>
  The calls that the loop hands to the interceptor: all of them if none raises, otherwise those up to
  and with the first that does.
\<close>

fun calls_made ::
  "('s, 'a, 'x) interceptor \<Rightarrow> (nat \<Rightarrow> call_env) \<Rightarrow> nat \<Rightarrow> execution_context \<Rightarrow> proposed_tool_call list
     \<Rightarrow> ('s, 'a, 'x) istate \<Rightarrow> nat" where
  "calls_made ic env i ctx [] st = 0"
| "calls_made ic env i ctx (p # ps) st =
     (case handle ic (env i) ctx (to_tool_request p) st of
        (Inl e, st') \<Rightarrow> 1
      | (Inr res, st') \<Rightarrow> Suc (calls_made ic env (Suc i) ctx ps st'))"

lemma calls_made_le: "calls_made ic env i ctx ps st \<le> length ps"
  by (induction ps arbitrary: i st) (auto split: prod.split sum.split)

lemma run_calls_prefix:
  "\<exists>rs. handle_seq ic (take (calls_made ic env i ctx ps st) (calls_of env i ctx ps)) st =
          (rs, snd (run_calls ic env i ctx ps st)) \<and>
     (case fst (run_calls ic env i ctx ps st) of
        Inr results \<Rightarrow> calls_made ic env i ctx ps st = length ps \<and> rs = map Inr results
      | Inl e \<Rightarrow> \<exists>before. rs = map Inr before @ [Inl e])"
proof (induction ps arbitrary: i st)
  case (Cons p ps)
  obtain r st' where h: "handle ic (env i) ctx (to_tool_request p) st = (r, st')" by fastforce
  show ?case
  proof (cases r)
    case (Inl e)
    with h show ?thesis by (auto intro!: exI [of _ "[]"])
  next
    case (Inr res)
    have more: "\<exists>before'. Inr res # map Inr before = map Inr before'" for before :: "interceptor_result list"
      by (rule exI [of _ "res # before"]) simp
    from h Inr Cons.IH [of "Suc i" st'] show ?thesis by (auto simp: more split: prod.splits sum.splits)
  qed
qed simp

lemma run_refused:
  assumes "admitted_prompt pl env prompt ctx token = Inl e"
  shows "run pl env prompt ctx token st =
           (Inl e, pl\<lparr>pl_gateway :=
              snd (handle_inbound (pl_gateway pl) (re_now env) prompt ctx token)\<rparr>, st)"
  using assms by (auto simp: run_def admitted_prompt_def split: prod.splits sum.splits)

lemma run_admitted:
  assumes "admitted_prompt pl env prompt ctx token = Inr p"
  shows "run pl env prompt ctx token st =
    (case run_calls (pl_interceptor pl) (re_call env) 0 ctx (scripted_tool_calls (pl_llm_client pl)) st of
       (r, st') \<Rightarrow>
         (case r of
            Inl e \<Rightarrow> Inl e
          | Inr results \<Rightarrow>
              (case inspect_output (pl_guardrail pl) (final_response (pl_llm_client pl)) ctx of
                 Inl e \<Rightarrow> Inl e
               | Inr final \<Rightarrow> Inr \<lparr>pr_final_response = final, pr_tool_call_results = results\<rparr>),
          pl\<lparr>pl_gateway := snd (handle_inbound (pl_gateway pl) (re_now env) prompt ctx token)\<rparr>, st'))"
  using assms
  by (auto simp: run_def admitted_prompt_def propose_tool_calls_def complete_def Let_def
        split: prod.splits sum.splits)

text \<open>A run with one proposed call.\<close>

lemma run_single:
  assumes "admitted_prompt pl env prompt ctx token = Inr p"
    and "scripted_tool_calls (pl_llm_client pl) = [c]"
  shows "snd (snd (run pl env prompt ctx token st)) =
           snd (handle (pl_interceptor pl) (re_call env 0) ctx (to_tool_request c) st)"
  by (simp add: run_admitted [OF assms(1)] assms(2) split: prod.split sum.split)

text \<open>What a run does to the interceptor's state, without its stages.\<close>

lemma run_state:
  "\<exists>n. snd (snd (run pl env prompt ctx token st)) =
         snd (handle_seq (pl_interceptor pl) (take n (scripted_calls pl env ctx)) st)"
proof (cases "admitted_prompt pl env prompt ctx token")
  case (Inl e)
  then show ?thesis by (intro exI [of _ 0]) (simp add: run_refused)
next
  case (Inr p)
  from run_calls_prefix [of "pl_interceptor pl" "re_call env" 0 ctx "scripted_tool_calls (pl_llm_client pl)" st]
  obtain n rs where "handle_seq (pl_interceptor pl) (take n (scripted_calls pl env ctx)) st =
    (rs, snd (run_calls (pl_interceptor pl) (re_call env) 0 ctx
      (scripted_tool_calls (pl_llm_client pl)) st))"
    unfolding scripted_calls_def by meson
  then show ?thesis by (intro exI [of _ n]) (simp add: run_admitted [OF Inr] split_beta)
qed

text \<open>A change of the sandbox points to a call that was cleared when its turn came.\<close>

lemma seq_sandbox_change:
  assumes "sandbox_state (snd (handle_seq ic calls st)) \<noteq> sandbox_state st"
  shows "\<exists>i < length calls. cleared ic (fst (calls ! i)) (fst (snd (calls ! i))) (snd (snd (calls ! i)))
           (snd (handle_seq ic (take i calls) st))"
  using assms
proof (induction calls arbitrary: st)
  case (Cons call calls)
  obtain e c r where call: "call = (e, c, r)" by (cases call)
  let ?st = "snd (handle ic e c r st)"
  have step: "snd (handle_seq ic (call # cs) st) = snd (handle_seq ic cs ?st)" for cs
    by (simp add: call split_beta)
  show ?case
  proof (cases "cleared ic e c r st")
    case True
    then show ?thesis by (intro exI [of _ 0]) (simp add: call)
  next
    case False
    then have "sandbox_state ?st = sandbox_state st" by (simp add: handle_sandbox_state)
    with Cons.prems have "sandbox_state (snd (handle_seq ic calls ?st)) \<noteq> sandbox_state ?st"
      unfolding step by simp
    from Cons.IH [OF this] obtain i where "i < length calls"
      "cleared ic (fst (calls ! i)) (fst (snd (calls ! i))) (snd (snd (calls ! i)))
        (snd (handle_seq ic (take i calls) ?st))" by blast
    then show ?thesis by (intro exI [of _ "Suc i"]) (simp add: step del: handle_seq.simps)
  qed
qed simp

text \<open>How many of the proposed calls a run hands to the interceptor; none if it is refused.\<close>

definition run_calls_made ::
  "('s, 'a, 'x) pipeline \<Rightarrow> run_env \<Rightarrow> string \<Rightarrow> execution_context \<Rightarrow> string \<Rightarrow> ('s, 'a, 'x) istate \<Rightarrow> nat" where
  "run_calls_made pl env prompt ctx token st =
     (case admitted_prompt pl env prompt ctx token of
        Inl e \<Rightarrow> 0
      | Inr p \<Rightarrow>
          calls_made (pl_interceptor pl) (re_call env) 0 ctx (scripted_tool_calls (pl_llm_client pl)) st)"

lemma run_calls_made_le: "run_calls_made pl env prompt ctx token st \<le> length (scripted_tool_calls (pl_llm_client pl))"
  by (simp add: run_calls_made_def calls_made_le split: sum.split)

lemma run_handles_prefix:
  assumes "run pl env prompt ctx token st = (r, pl', st')"
  shows "\<exists>rs. handle_seq (pl_interceptor pl)
           (take (run_calls_made pl env prompt ctx token st) (scripted_calls pl env ctx)) st = (rs, st') \<and>
    (case r of
       Inr out \<Rightarrow> run_calls_made pl env prompt ctx token st = length (scripted_tool_calls (pl_llm_client pl)) \<and>
         rs = map Inr (pr_tool_call_results out)
     | Inl e \<Rightarrow> admitted_prompt pl env prompt ctx token = Inl e \<or>
         inspect_output (pl_guardrail pl) (final_response (pl_llm_client pl)) ctx = Inl e \<or>
         (\<exists>before. rs = map Inr before @ [Inl e]))"
proof (cases "admitted_prompt pl env prompt ctx token")
  case (Inl e)
  then show ?thesis using assms run_refused [OF Inl, of st] by (auto simp: run_calls_made_def)
next
  case (Inr p)
  then show ?thesis
    using assms run_calls_prefix [where ps = "scripted_tool_calls (pl_llm_client pl)" and ic = "pl_interceptor pl"
        and env = "re_call env" and i = 0 and ctx = ctx and st = st]
    by (auto simp: run_admitted [OF Inr] run_calls_made_def scripted_calls_def split: sum.splits prod.splits)
qed

section \<open>When a run returns\<close>

definition catchable_sinks :: "logger \<Rightarrow> bool" where
  "catchable_sinks lg \<longleftrightarrow> (\<forall>s \<in> set (log_sinks lg). \<forall>r e. fst (sink_forward s r) = Inl e \<longrightarrow> is_Exception e)"

lemma sink_forward_keeps: "fst (sink_forward (snd (sink_forward s r)) r') = fst (sink_forward s r')"
  by (cases s) simp_all

lemma catchable_sinks_call:
  assumes "catchable_sinks lg" and "le_write_error le = None"
  shows "catchable_sinks (snd (log_call cd le ctx req d sb lg))"
  using assms log_append_result(2) [of lg "mk_record le (redact_parameters lg) ctx req d sb" cd]
  by (auto simp: catchable_sinks_def log_call_def sink_forward_keeps)

lemma catchable_sinks_handle:
  assumes "catchable_sinks (audit_log st)" and "le_write_error (ce_log env) = None"
  shows "catchable_sinks (audit_log (snd (handle ic env ctx req st)))"
  using catchable_sinks_call [OF assms] assms(1) by (simp add: handle_audit_log split: option.split)

lemma run_calls_answers:
  assumes "\<And>ctx req st. uncancelled ic ctx req st" and "breaker_answers ic"
    and "\<And>i. le_write_error (ce_log (env i)) = None" and "catchable_sinks (audit_log st)"
  shows "\<exists>results. fst (run_calls ic env i ctx ps st) = Inr results \<and> length results = length ps"
  using assms(4)
proof (induction ps arbitrary: i st)
  case (Cons p ps)
  have "log_accepts (ce_log (env i)) (audit_log st)"
    using Cons.prems assms(3) by (simp add: log_accepts_def catchable_sinks_def)
  then obtain res st' where h: "handle ic (env i) ctx (to_tool_request p) st = (Inr res, st')"
    using handle_returns_result [OF assms(1,2)] by (metis prod.collapse)
  have "catchable_sinks (audit_log st')"
    using catchable_sinks_handle [OF Cons.prems assms(3), of ic i ctx "to_tool_request p"] by (simp add: h)
  then obtain results where "fst (run_calls ic env (Suc i) ctx ps st') = Inr results"
    "length results = length ps" using Cons.IH by blast
  with h show ?case by (auto split: prod.splits sum.splits)
qed simp


text \<open>What a change of the sandbox by a run says of its gates and its calls.\<close>

lemma run_change:
  assumes "sandbox_state (snd (snd (run pl env prompt ctx token st))) \<noteq> sandbox_state st"
  shows "identity_verifier (pl_gateway pl) (re_now env) token ctx = Inr True \<and>
         count_of (pl_gateway pl) (agent_id ctx) < rate_limit_per_minute (pl_gateway pl) \<and>
         (\<exists>p. inspect_input (pl_guardrail pl) (mask prompt) ctx = Inr p) \<and>
         (\<exists>i < length (scripted_tool_calls (pl_llm_client pl)).
            cleared (pl_interceptor pl) (re_call env i) ctx
              (to_tool_request (scripted_tool_calls (pl_llm_client pl) ! i))
              (snd (handle_seq (pl_interceptor pl) (take i (scripted_calls pl env ctx)) st)))"
proof -
  obtain p where p: "admitted_prompt pl env prompt ctx token = Inr p"
    using assms run_refused [of pl env prompt ctx token _ st]
    by (cases "admitted_prompt pl env prompt ctx token") auto
  obtain n where n: "snd (snd (run pl env prompt ctx token st)) =
      snd (handle_seq (pl_interceptor pl) (take n (scripted_calls pl env ctx)) st)"
    using run_state by blast
  from seq_sandbox_change [OF assms [unfolded n]] obtain i where
    i: "i < length (scripted_calls pl env ctx)"
      "cleared (pl_interceptor pl) (fst (scripted_calls pl env ctx ! i))
         (fst (snd (scripted_calls pl env ctx ! i))) (snd (snd (scripted_calls pl env ctx ! i)))
         (snd (handle_seq (pl_interceptor pl) (take i (scripted_calls pl env ctx)) st))"
    by (auto simp: min_absorb1)
  moreover from i(1) have "scripted_calls pl env ctx ! i =
      (re_call env i, ctx, to_tool_request (scripted_tool_calls (pl_llm_client pl) ! i))"
    by (simp add: scripted_calls_def calls_of_def nth_enumerate_eq)
  ultimately show ?thesis
    using p by (auto simp: admitted_prompt_def handle_inbound_eq scripted_calls_def
        split: sum.split_asm if_split_asm)
qed


section \<open>Properties\<close>

text \<open>
  Nothing runs in front of the gates: if a run has changed the state of the sandbox, then the
  gateway's verifier had confirmed the bearer token for the context, the agent was below its limit,
  the guardrail let the masked prompt through, and some call that the client proposed was cleared
  in the state that the calls before it had left; a run that is refused changes nothing but the
  gateway's counter.
\<close>

theorem run_executes_only_cleared:
  assumes "sandbox_state (snd (snd (run pl env prompt ctx token st))) \<noteq> sandbox_state st"
  shows "identity_verifier (pl_gateway pl) (re_now env) token ctx = Inr True \<and>
         count_of (pl_gateway pl) (agent_id ctx) < rate_limit_per_minute (pl_gateway pl) \<and>
         (\<exists>p. inspect_input (pl_guardrail pl) (mask prompt) ctx = Inr p) \<and>
         (\<exists>i < length (scripted_tool_calls (pl_llm_client pl)).
            cleared (pl_interceptor pl) (re_call env i) ctx
              (to_tool_request (scripted_tool_calls (pl_llm_client pl) ! i))
              (snd (handle_seq (pl_interceptor pl) (take i (scripted_calls pl env ctx)) st)))"
  by (rule run_change [OF assms])

definition sample_proposal :: proposed_tool_call where
  "sample_proposal =
     \<lparr>p_tool_name = tool_name sample_command, p_function_name = function_name sample_command,
      p_parameters = parameters sample_command, p_call_id = call_id sample_command\<rparr>"

definition sample_pipeline :: "verifier \<Rightarrow> (mem_backend, approval_queue, nat) pipeline" where
  "sample_pipeline verify =
     \<lparr>pl_gateway = new_gateway verify, pl_guardrail = regex_guardrail True,
      pl_llm_client = script_tool_call sample_proposal new_llm_client,
      pl_interceptor = sample_interceptor (1, Inr sample_ok) sample_out\<rparr>"

definition sample_run_env :: run_env where
  "sample_run_env = \<lparr>re_now = 0, re_call = (\<lambda>i. sample_call_env)\<rparr>"

lemma sample_pipeline_simps [simp]:
  "pl_gateway (sample_pipeline v) = new_gateway v" "pl_guardrail (sample_pipeline v) = regex_guardrail True"
  "pl_interceptor (sample_pipeline v) = sample_interceptor (1, Inr sample_ok) sample_out"
  "final_response (pl_llm_client (sample_pipeline v)) = ''acknowledged''"
  "scripted_tool_calls (pl_llm_client (sample_pipeline v)) = [sample_proposal]"
  "to_tool_request sample_proposal = sample_command"
  by (simp_all add: sample_pipeline_def script_tool_call_def new_llm_client_def to_tool_request_def
        sample_proposal_def)

lemma sample_admitted:
  "admitted_prompt (sample_pipeline (bearer_verifier {})) sample_run_env ''hi'' sample_caller token = Inr ''hi''"
proof -
  have "mask ''hi'' = ''hi''" "regex_inspect_input True ''hi'' sample_caller = Inr ''hi''" by code_simp+
  then show ?thesis
    by (simp add: admitted_prompt_def handle_inbound_eq new_gateway_def bearer_verifier_def
          static_verify_def count_of_def regex_guardrail_def)
qed

lemma sample_run_state:
  "snd (snd (run (sample_pipeline (bearer_verifier {})) sample_run_env ''hi'' sample_caller token sample_state)) =
     snd (handle (sample_interceptor (1, Inr sample_ok) sample_out) sample_call_env sample_caller
            sample_command sample_state)"
  using run_single [OF sample_admitted, of sample_proposal token sample_state]
  by (simp add: sample_run_env_def)

theorem run_executes_only_cleared_witness:
  "\<exists>p. inspect_input (pl_guardrail (sample_pipeline (bearer_verifier {}))) (mask ''hi'') sample_caller = Inr p"
proof -
  let ?ic = "sample_interceptor (1, Inr sample_ok) sample_out"
  have "cleared ?ic sample_call_env sample_caller sample_command sample_state"
    by (simp add: cleared_def sample_admits) (simp add: granted_def wait_for_def sample_ok_def)
  then have "sandbox_state (snd (snd (run (sample_pipeline (bearer_verifier {})) sample_run_env ''hi''
      sample_caller '''' sample_state))) \<noteq> sandbox_state sample_state"
    by (simp add: sample_run_state handle_sandbox_state)
  from run_executes_only_cleared [OF this] show ?thesis by blast
qed

text \<open>
  A run answers: when the gates let the prompt through, no awaited part of a call is cancelled,
  the breaker's backend answers, the log takes its records and the guardrail passes the response,
  the run returns a result with exactly one entry per proposed call, whatever the engine, the
  reviewer and the sandbox raise.
\<close>

theorem run_answers:
  assumes "admitted_prompt pl env prompt ctx token = Inr p"
    and "\<And>ctx req st. uncancelled (pl_interceptor pl) ctx req st"
    and "breaker_answers (pl_interceptor pl)"
    and "\<And>i. le_write_error (ce_log (re_call env i)) = None"
    and "catchable_sinks (audit_log st)"
    and "inspect_output (pl_guardrail pl) (final_response (pl_llm_client pl)) ctx = Inr final"
  shows "\<exists>results. fst (run pl env prompt ctx token st) =
             Inr \<lparr>pr_final_response = final, pr_tool_call_results = results\<rparr> \<and>
           length results = length (scripted_tool_calls (pl_llm_client pl))"
  using run_calls_answers [where env = "re_call env" and i = 0 and ctx = ctx
      and ps = "scripted_tool_calls (pl_llm_client pl)", OF assms(2-5)] assms(6)
  by (auto simp: run_admitted [OF assms(1)] split: prod.splits)

theorem run_answers_witness:
  "\<exists>res. fst (run (sample_pipeline (bearer_verifier {})) sample_run_env ''hi'' sample_caller ''t''
      sample_state) = Inr \<lparr>pr_final_response = ''acknowledged'', pr_tool_call_results = [res]\<rparr>"
proof -
  let ?pl = "sample_pipeline (bearer_verifier {})"
  have "uncancelled (pl_interceptor ?pl) ctx req st" for ctx req st
    by (auto simp: uncancelled_def sample_interceptor_def queue_call_def sample_out_def Let_def)
  moreover have "breaker_answers (pl_interceptor ?pl)" by (simp add: sample_answers)
  moreover have "le_write_error (ce_log (re_call sample_run_env i)) = None" for i
    by (simp add: sample_run_env_def sample_call_env_def sample_log_env_def)
  moreover have "catchable_sinks (audit_log sample_state)"
    by (simp add: catchable_sinks_def sample_state_def sample_logger_def)
  moreover have "inspect_output (pl_guardrail ?pl) (final_response (pl_llm_client ?pl)) sample_caller =
      Inr ''acknowledged''" by code_simp
  ultimately show ?thesis
    using run_answers [OF sample_admitted, where token = "''t''" and st = sample_state
        and final = "''acknowledged''"]
    by (fastforce simp: length_Suc_conv)
qed

text \<open>
  C22: The trail of a run, whether it returns or raises: the log has one new record for each call that the
  run handed to the interceptor (none if the run was refused; otherwise all calls up to and with
  the first that raises, be it a cancellation), in their order and under their identifiers, with the
  decision and the sandbox result of that call, and the log verifies. A run that returns has handled
  every proposed call and returns their results in order; the exception of a run that raises is
  that of the gates, of the guardrail on the response, or of the last handled call.
\<close>

theorem run_leaves_trail:
  assumes "record_codec (audit_codec (pl_interceptor pl)) good" and "codec_covers good (pl_interceptor pl)"
    and "breaker_answers (pl_interceptor pl)"
    and "\<And>i. le_write_error (ce_log (re_call env i)) = None"
    and "log_reach (audit_codec (pl_interceptor pl)) good (audit_log st) rs"
    and "run pl env prompt ctx token st = (r, pl', st')"
  shows "\<exists>new made results.
           made = take (run_calls_made pl env prompt ctx token st) (scripted_calls pl env ctx) \<and>
           handle_seq (pl_interceptor pl) made st = (results, st') \<and>
           log_reach (audit_codec (pl_interceptor pl)) good (audit_log st') (rs @ new) \<and>
           map rec_call_id new = map (\<lambda>(env, ctx, req). call_id req) made \<and>
           map (\<lambda>r. Some (rec_decision r, rec_sandbox_result r)) new =
             map (map_option (map_prod decision_dump (map_option sandbox_dump)))
               (audited_seq (pl_interceptor pl) made st) \<and>
           log_verify (audit_codec (pl_interceptor pl)) (audit_log st') =
             Inr \<lparr>valid = True, record_count = length rs + run_calls_made pl env prompt ctx token st,
                  first_broken_index = None\<rparr> \<and>
           (case r of
              Inr out \<Rightarrow> made = scripted_calls pl env ctx \<and> results = map Inr (pr_tool_call_results out)
            | Inl e \<Rightarrow> admitted_prompt pl env prompt ctx token = Inl e \<or>
                inspect_output (pl_guardrail pl) (final_response (pl_llm_client pl)) ctx = Inl e \<or>
                (\<exists>before. results = map Inr before @ [Inl e]))"
proof -
  let ?n = "run_calls_made pl env prompt ctx token st" and ?ic = "pl_interceptor pl"
  let ?made = "take ?n (scripted_calls pl env ctx)"
  obtain results where h: "handle_seq ?ic ?made st = (results, st')"
    "case r of
       Inr out \<Rightarrow> ?n = length (scripted_tool_calls (pl_llm_client pl)) \<and>
         results = map Inr (pr_tool_call_results out)
     | Inl e \<Rightarrow> admitted_prompt pl env prompt ctx token = Inl e \<or>
         inspect_output (pl_guardrail pl) (final_response (pl_llm_client pl)) ctx = Inl e \<or>
         (\<exists>before. results = map Inr before @ [Inl e])"
    using run_handles_prefix [OF assms(6)] by blast
  have len: "length (scripted_calls pl env ctx) = length (scripted_tool_calls (pl_llm_client pl))"
    by (simp add: scripted_calls_def)
  have writes: "\<forall>(env, ctx, req) \<in> set ?made. le_write_error (ce_log env) = None"
    using assms(4) by (auto simp: scripted_calls_def calls_of_def dest!: in_set_takeD)
  from handle_seq_audited [OF assms(1-3) writes assms(5)] h len run_calls_made_le [of pl env prompt ctx token st]
  show ?thesis by (fastforce simp: min_absorb2 split: sum.splits)
qed

theorem run_leaves_trail_witness:
  "\<exists>r pl' st'. run (sample_pipeline (bearer_verifier {})) sample_run_env ''hi'' sample_caller ''t''
       sample_state = (r, pl', st') \<and>
     log_verify json_codec (audit_log st') =
       Inr \<lparr>valid = True, record_count = 1, first_broken_index = None\<rparr>"
proof -
  let ?pl = "sample_pipeline (bearer_verifier {})"
  let ?ic = "pl_interceptor ?pl"
  obtain r pl' st' where r: "run ?pl sample_run_env ''hi'' sample_caller ''t'' sample_state = (r, pl', st')"
    by (metis prod_cases3)
  have cd: "audit_codec ?ic = json_codec" by (simp add: sample_interceptor_def)
  have codec: "record_codec (audit_codec ?ic) wf_record" unfolding cd by (rule json_record_codec)
  have covers: "codec_covers wf_record ?ic" by (simp add: sample_covers)
  have answers: "breaker_answers ?ic" by (simp add: sample_answers)
  have writes: "le_write_error (ce_log (re_call sample_run_env i)) = None" for i
    by (simp add: sample_run_env_def sample_call_env_def sample_log_env_def)
  have reach: "log_reach (audit_codec ?ic) wf_record (audit_log sample_state) []"
    unfolding cd using sample_reach [of 0]
    by (simp add: sample_log.simps [of 0] sample_records.simps [of 0] sample_state_def)
  have "run_calls_made ?pl sample_run_env ''hi'' sample_caller ''t'' sample_state = 1"
    by (simp add: run_calls_made_def sample_admitted split: prod.split sum.split)
  with run_leaves_trail [OF codec covers answers writes reach r] r show ?thesis
    unfolding cd by auto
qed

end
