(* ===== verification/Stacks.thy ===== *)
theory Stacks
  imports DbPolicy Pipeline
begin

text \<open>
  The interceptor over the parts that the repository ships: the two policy engines, the in-process
  and the container sandbox, with any text form of the log's records. \<open>static_granted\<close> and \<open>db_granted\<close> spell out
  the permission that the engines decide. The locales \<open>typed_engine\<close> and \<open>typed_sandbox\<close> say that the
  values a part hands to the audit log are values that JSON text holds without loss; both engines
  and both sandboxes keep them, so the log's requirement on its records is met by every stack that
  is built from these parts (\<open>typed_record\<close>, \<open>shipped_calls_audited\<close>). The settings of
  \<^verbatim>\<open>config.py\<close> are here too.
\<close>

section \<open>The interceptor over the policy engines\<close>

text \<open>Neither engine awaits anything: its coroutine answers without being suspended.\<close>

definition static_engine ::
  "policy_env \<Rightarrow> policy_rule_set \<Rightarrow> execution_context \<Rightarrow> tool_request \<Rightarrow> policy_decision awaited" where
  "static_engine env rs ctx req = (0, static_evaluate_tool_call env rs ctx req)"

definition db_engine ::
  "policy_env \<Rightarrow> db_conn \<Rightarrow> execution_context \<Rightarrow> tool_request \<Rightarrow> policy_decision awaited" where
  "db_engine env conn ctx req = (0, db_evaluate_tool_call env conn ctx req)"

lemma granted_grant:
  assumes "wait_for (decision_timeout_s ic) (policy_engine ic ctx req) = Inr (grant b)"
  shows "granted ic ctx req ap \<longleftrightarrow> (b \<longrightarrow> approves ic ctx req pending_approval ap)"
  using assms by (simp add: granted_def grant_def)

lemma wait_for_immediate: "0 < limit \<Longrightarrow> wait_for limit (0, r) = r"
  by (simp add: wait_for_def)

lemma grantedD: "granted ic ctx req ap \<Longrightarrow>
    \<exists>d. wait_for (decision_timeout_s ic) (policy_engine ic ctx req) = Inr d \<and> allowed d"
  by (auto simp: granted_def split: sum.split_asm)

lemma static_granted:
  assumes "policy_engine ic = static_engine env rs" and "0 < decision_timeout_s ic"
  shows "granted ic ctx req ap \<longleftrightarrow>
           (\<exists>rule. static_permits env rs ctx req rule \<and>
              (function_name req \<in> set (requires_approval_functions rule) \<longrightarrow>
                 approves ic ctx req pending_approval ap))"
proof -
  have ans: "wait_for (decision_timeout_s ic) (policy_engine ic ctx req) =
      static_evaluate_tool_call env rs ctx req"
    using assms by (simp add: static_engine_def wait_for_immediate)
  have per: "granted ic ctx req ap \<longleftrightarrow>
      (function_name req \<in> set (requires_approval_functions rule) \<longrightarrow>
         approves ic ctx req pending_approval ap)" if "static_permits env rs ctx req rule" for rule
    using static_evaluate_permitted [OF that]
    by (intro granted_grant) (simp add: ans static_evaluate_tool_call_def)
  have "\<exists>rule. static_permits env rs ctx req rule" if "granted ic ctx req ap"
    using grantedD [OF that] by (auto simp: ans elim: static_call_allowedE)
  with per show ?thesis by blast
qed

lemma db_granted:
  assumes "policy_engine ic = db_engine env conn" and "0 < decision_timeout_s ic"
  shows "granted ic ctx req ap \<longleftrightarrow>
           (\<exists>db. conn = Inr db \<and> db_permits env db ctx req \<and>
              (db_requires_approval db (tool_name req) (function_name req) \<longrightarrow>
                 approves ic ctx req pending_approval ap))"
proof -
  have ans: "wait_for (decision_timeout_s ic) (policy_engine ic ctx req) =
      db_evaluate_tool_call env conn ctx req"
    using assms by (simp add: db_engine_def wait_for_immediate)
  have per: "granted ic ctx req ap \<longleftrightarrow>
      (db_requires_approval db (tool_name req) (function_name req) \<longrightarrow>
         approves ic ctx req pending_approval ap)" if "conn = Inr db" "db_permits env db ctx req" for db
    using db_evaluate_permitted [OF that(2)] that(1)
    by (intro granted_grant) (simp add: ans db_evaluate_tool_call_def)
  have "\<exists>db. conn = Inr db \<and> db_permits env db ctx req" if "granted ic ctx req ap"
    using grantedD [OF that] by (auto simp: ans elim: db_call_allowedE)
  with per show ?thesis by blast
qed


section \<open>The shipped sandboxes as parts of an interceptor\<close>

text \<open>
  The state counts the executions; the clock readings around the \<open>n\<close>-th execution, and what the
  operating system does in it, come from outside.
\<close>

definition in_process ::
  "subprocess_sandbox \<Rightarrow> (nat \<Rightarrow> span) \<Rightarrow> tool_request \<Rightarrow> execution_context \<Rightarrow> nat
     \<Rightarrow> sandbox_result result \<times> nat" where
  "in_process sb clock req ctx n = (sp_execute sb (clock n) req ctx, Suc n)"

definition in_container ::
  "docker_class \<Rightarrow> docker_config \<Rightarrow> (nat \<Rightarrow> os_env) \<Rightarrow> (nat \<Rightarrow> span) \<Rightarrow> tool_request
     \<Rightarrow> execution_context \<Rightarrow> nat \<Rightarrow> sandbox_result result \<times> nat" where
  "in_container cls cfg os clock req ctx n = (docker_execute cls cfg (os n) (clock n) req ctx, Suc n)"


section \<open>Values that the log can hold\<close>

text \<open>Floats are binary64 values; nothing else of a decision or a result is constrained.\<close>

definition decision_typed :: "policy_decision \<Rightarrow> bool" where
  "decision_typed d \<longleftrightarrow> wf_pyval (opt_dict (modified_parameters d))"

definition result_typed :: "sandbox_result \<Rightarrow> bool" where
  "result_typed r \<longleftrightarrow> fl (duration_ms r) = duration_ms r"

lemma span_ms_float [simp]: "fl (span_ms sp) = span_ms sp"
  by (simp add: span_ms_def fmul_def)

lemma mk_result_typed [simp]: "result_typed (mk_result out err ec (span_ms sp))"
  by (simp add: result_typed_def mk_result_def)

lemma mk_result_typed_0 [simp]: "result_typed (mk_result out err ec 0)"
  by (simp add: result_typed_def mk_result_def)

lemma timed_out_typed [simp]: "result_typed (r\<lparr>timed_out := b\<rparr>) = result_typed r"
  by (simp add: result_typed_def)

lemma mk_decision_typed [simp]: "decision_typed (mk_decision b r)"
  by (simp add: decision_typed_def opt_dict_def)

locale typed_engine =
  fixes engine :: "execution_context \<Rightarrow> tool_request \<Rightarrow> policy_decision awaited"
  assumes typed: "snd (engine ctx req) = Inr d \<Longrightarrow> decision_typed d"
begin

lemma answer_typed: "wait_for t (engine ctx req) = Inr d \<Longrightarrow> decision_typed d"
  using typed by (auto simp: wait_for_def split: if_splits)

text \<open>Whatever the stages make of the engine's answer is typed.\<close>

lemma evaluated_typed:
  assumes "policy_engine ic = engine" and "evaluate_decision ic ctx req = Inr d"
  shows "decision_typed d"
  using assms answer_typed [of "decision_timeout_s ic" ctx req]
  by (auto simp: evaluate_decision_def split: sum.splits if_splits)

lemma final_typed:
  assumes "policy_engine ic = engine" and "final_decision ic ctx req ap = (Inr d, ap')"
  shows "decision_typed d"
  using assms evaluated_typed [OF assms(1)]
  by (auto simp: final_decision_def safely_resolve_action_requirements_def
        resolve_action_requirements_def split: sum.splits if_splits option.splits prod.splits)

end

locale typed_sandbox =
  fixes exec :: "tool_request \<Rightarrow> execution_context \<Rightarrow> 'x \<Rightarrow> sandbox_result result \<times> 'x"
  assumes typed: "fst (exec req ctx x) = Inr r \<Longrightarrow> result_typed r"
begin

lemma executed_typed:
  assumes "sandbox ic = exec" and "execute_sandboxed ic sp ctx req x = (Inr r, x')"
  shows "result_typed r"
  using assms typed [of req ctx x]
  by (auto simp: execute_sandboxed_def split: prod.splits sum.splits if_splits)

end

lemma check_outcomes_typed [simp]:
  "decision_typed (deny r)" "decision_typed pending_approval" "decision_typed checks_passed"
  by (simp_all add: deny_def pending_approval_def checks_passed_def decision_typed_def opt_dict_def mk_decision_def)

lemma check_identity_typed: "check_identity env ctx fs = Some d \<Longrightarrow> decision_typed d"
  by (induction fs) (auto split: if_splits)

lemma match_patterns_typed: "match_patterns env p v ps = Inr (Some d) \<Longrightarrow> decision_typed d"
  by (induction ps) (auto split: sum.splits if_splits)

lemma check_deny_patterns_typed: "check_deny_patterns env req ps = Inr (Some d) \<Longrightarrow> decision_typed d"
  by (induction ps rule: check_deny_patterns.induct)
     (auto simp: Let_def match_patterns_typed split: if_splits sum.splits option.splits)

lemma check_role_gates_typed: "check_role_gates ctx req gs = Some d \<Longrightarrow> decision_typed d"
  by (induction gs rule: check_role_gates.induct) (auto split: if_splits)

lemmas checks_typed = check_identity_typed check_deny_patterns_typed check_role_gates_typed

lemma wrap_policy_errors_Inr [simp]: "wrap_policy_errors r = Inr d \<longleftrightarrow> r = Inr d"
  by (auto simp: wrap_policy_errors_def split: sum.splits)

definition outcome_typed :: "policy_decision result \<Rightarrow> bool" where
  "outcome_typed r \<longleftrightarrow> (\<forall>d. r = Inr d \<longrightarrow> decision_typed d)"

lemma outcome_typed_simps [simp]:
  "outcome_typed (Inl e)" "outcome_typed (Inr d) \<longleftrightarrow> decision_typed d"
  by (simp_all add: outcome_typed_def)

text \<open>One rule per construct that the evaluations are made of.\<close>

lemma outcome_typed_if: "(b \<Longrightarrow> outcome_typed x) \<Longrightarrow> (\<not> b \<Longrightarrow> outcome_typed y) \<Longrightarrow> outcome_typed (if b then x else y)"
  by simp

lemma outcome_typed_option:
  "(v = None \<Longrightarrow> outcome_typed x) \<Longrightarrow> (\<And>a. v = Some a \<Longrightarrow> outcome_typed (f a)) \<Longrightarrow>
     outcome_typed (case v of None \<Rightarrow> x | Some a \<Rightarrow> f a)"
  by (cases v) auto

lemma outcome_typed_sum:
  "(\<And>e. v = Inl e \<Longrightarrow> outcome_typed (f e)) \<Longrightarrow> (\<And>a. v = Inr a \<Longrightarrow> outcome_typed (g a)) \<Longrightarrow>
     outcome_typed (case v of Inl e \<Rightarrow> f e | Inr a \<Rightarrow> g a)"
  by (cases v) auto

lemmas outcome_typed_intros = outcome_typed_if outcome_typed_option outcome_typed_sum

lemma static_evaluate_typed: "outcome_typed (static_evaluate env rs ctx req)"
  unfolding static_evaluate_def by (intro outcome_typed_intros; simp add: checks_typed)

lemma db_evaluate_typed: "outcome_typed (db_evaluate env conn ctx req)"
  unfolding db_evaluate_def
  by (intro outcome_typed_intros; simp add: checks_typed del: check_identity.simps)

lemmas engines_typed = static_evaluate_typed [unfolded outcome_typed_def, rule_format]
  db_evaluate_typed [unfolded outcome_typed_def, rule_format]

interpretation static_typed: typed_engine "static_engine env rs" for env rs
  by unfold_locales
     (auto simp: static_engine_def static_evaluate_tool_call_def dest: engines_typed)

interpretation db_typed: typed_engine "db_engine env conn" for env conn
  by unfold_locales (auto simp: db_engine_def db_evaluate_tool_call_def dest: engines_typed)

interpretation in_process: typed_sandbox "in_process sb clock" for sb clock
  by unfold_locales (auto simp: in_process_def sp_execute_def Let_def split: sum.splits if_splits)

interpretation in_container: typed_sandbox "in_container cls cfg os clock" for cls cfg os clock
  by unfold_locales
     (auto simp: in_container_def docker_execute_def docker_handler_def
        split: sum.splits if_splits option.splits)

section \<open>Every stack of these parts keeps the log's requirement\<close>

lemma typed_record:
  assumes "decision_typed d" and "pred_option result_typed sr"
  shows "wf_record (chained p (mk_record le red ctx req d (map_option sandbox_dump sr)))"
  using assms
  by (cases sr) (auto simp: wf_record_def mk_record_def decision_dump_def sandbox_dump_def decision_typed_def
    result_typed_def strs_def opt_dict_def list_all_iff)

lemma body_typed:
  assumes "typed_engine (policy_engine ic)" and "typed_sandbox (sandbox ic)"
    and "handle_body ic env ctx req st = (pending, d, sr, st')"
  shows "decision_typed d \<and> pred_option result_typed sr"
proof (cases "final_decision ic ctx req (approval_state st)")
  case (Pair r ap)
  show ?thesis
  proof (cases r)
    case (Inl e)
    have "decision_typed unresolved" by (simp add: unresolved_def)
    with assms(3) Pair Inl typed_engine.evaluated_typed [OF assms(1) refl] show ?thesis
      by (auto simp: handle_body_eq split: sum.splits)
  next
    case (Inr d0)
    with assms(3) Pair have
      run: "run_permitted ic env ctx req d0 (st\<lparr>approval_state := ap\<rparr>) = (pending, d, sr, st')"
      by (simp add: handle_body_eq)
    have "decision_typed d0" using typed_engine.final_typed [OF assms(1) refl] Pair Inr by blast
    moreover have "d = d0" using run_permitted_frame(3) [OF run] .
    moreover have "pred_option result_typed sr"
      using run typed_sandbox.executed_typed [OF assms(2) refl, of "ce_span env"]
      by (auto simp: run_permitted_def Let_def split: if_splits prod.splits sum.splits)
    ultimately show ?thesis by simp
  qed
qed

lemma audited_typed:
  assumes "typed_engine (policy_engine ic)" and "typed_sandbox (sandbox ic)"
    and "audited ic env ctx req st = Some (d, sr)"
  shows "decision_typed d \<and> pred_option result_typed sr"
  using assms(3) body_typed [OF assms(1,2)]
  by (auto simp: audited_def breaker_open_decision_def split: prod.splits sum.splits bool.splits)

lemma typed_covers:
  assumes "typed_engine (policy_engine ic)" and "typed_sandbox (sandbox ic)"
  shows "codec_covers wf_record ic"
  unfolding codec_covers_def using audited_typed [OF assms] typed_record by blast

text \<open>
  A stack of shipped parts: either engine over any rules, either sandbox, no breaker or the in-memory
  one with at least one sample; the approval callback and the format of the log are free.
\<close>

definition shipped :: "(mem_backend, 'a, nat) interceptor \<Rightarrow> bool" where
  "shipped ic \<longleftrightarrow>
     ((\<exists>env rs. policy_engine ic = static_engine env rs) \<or>
      (\<exists>env conn. policy_engine ic = db_engine env conn)) \<and>
     ((\<exists>sb clock. sandbox ic = in_process sb clock) \<or>
      (\<exists>cls cfg os clock. sandbox ic = in_container cls cfg os clock)) \<and>
     (case circuit_breaker ic of None \<Rightarrow> True
      | Some ops \<Rightarrow> \<exists>cfg. 1 \<le> min_samples cfg \<and> ops = mem_backend_ops cfg)"

lemma shipped_typed:
  assumes "shipped ic"
  shows "typed_engine (policy_engine ic)" and "typed_sandbox (sandbox ic)"
  using assms static_typed.typed_engine_axioms db_typed.typed_engine_axioms
    in_process.typed_sandbox_axioms in_container.typed_sandbox_axioms
  unfolding shipped_def by metis+

lemma shipped_answers:
  assumes "shipped ic"
  shows "breaker_answers ic"
proof (cases "circuit_breaker ic")
  case None
  then show ?thesis by (simp add: breaker_answers_def)
next
  case (Some ops)
  then obtain cfg where "ops = mem_backend_ops cfg" "1 \<le> min_samples cfg"
    using assms by (auto simp: shipped_def)
  with Some show ?thesis by (intro mem_breaker_answers) auto
qed

definition shipped_stack :: "(mem_backend, approval_queue, nat) interceptor" where
  "shipped_stack =
     \<lparr>policy_engine = static_engine sample_env example_ruleset,
      sandbox = in_process new_subprocess_sandbox (\<lambda>n. (0, fl (1 / 3))),
      audit_codec = json_codec, approval_callback = Some queue_call, decision_timeout_s = 2,
      circuit_breaker = Some (mem_backend_ops sample_config)\<rparr>"

lemma shipped_stack_shipped: "shipped shipped_stack"
proof -
  have "policy_engine shipped_stack = static_engine sample_env example_ruleset"
    "sandbox shipped_stack =
       in_process new_subprocess_sandbox (\<lambda>n. (0, fl (1 / 3)))"
    "circuit_breaker shipped_stack = Some (mem_backend_ops sample_config)"
    by (simp_all add: shipped_stack_def)
  moreover have "1 \<le> min_samples sample_config" by (simp add: sample_config_def)
  ultimately show ?thesis unfolding shipped_def by auto
qed

section \<open>Settings\<close>

text \<open>
  \<open>Settings\<close> of \<^verbatim>\<open>config.py\<close>: its fields with their defaults, and how pydantic-settings fills them: a field takes
  the environment variable of its name with the prefix \<open>AIMW_\<close> if that is set, after validation for the field's
  type, and its default otherwise; any invalid value is a \<open>ValidationError\<close> of the whole. The validation of
  text as a float or a bool is a parameter. Nothing in the repository reads the settings; the parts have defaults
  of their own, and they are the same values.
\<close>

record settings =
  cfg_policy_path :: string
  cfg_audit_log_path :: string
  cfg_sandbox_mode :: string
  cfg_decision_timeout_s :: pyfloat
  cfg_sandbox_timeout_s :: pyfloat
  cfg_redact_audit_parameters :: bool

definition default_settings :: settings where
  "default_settings =
     \<lparr>cfg_policy_path = ''configs/policy.example.yaml'', cfg_audit_log_path = ''audit.jsonl'',
      cfg_sandbox_mode = ''subprocess'', cfg_decision_timeout_s = 2, cfg_sandbox_timeout_s = 5,
      cfg_redact_audit_parameters = True\<rparr>"

record settings_validators =
  as_float :: "string \<Rightarrow> pyfloat result"
  as_bool :: "string \<Rightarrow> bool result"

definition from_env :: "(string \<rightharpoonup> string) \<Rightarrow> string \<Rightarrow> (string \<Rightarrow> 'v result) \<Rightarrow> 'v \<Rightarrow> 'v result" where
  "from_env env name validate dflt =
     (case env (''AIMW_'' @ name) of None \<Rightarrow> Inr dflt | Some v \<Rightarrow> validate v)"

definition load_settings :: "settings_validators \<Rightarrow> (string \<rightharpoonup> string) \<Rightarrow> settings result" where
  "load_settings va env =
     (case (from_env env ''POLICY_PATH'' Inr ''configs/policy.example.yaml'',
            from_env env ''AUDIT_LOG_PATH'' Inr ''audit.jsonl'',
            from_env env ''SANDBOX_MODE'' Inr ''subprocess'',
            from_env env ''DECISION_TIMEOUT_S'' (as_float va) 2,
            from_env env ''SANDBOX_TIMEOUT_S'' (as_float va) 5,
            from_env env ''REDACT_AUDIT_PARAMETERS'' (as_bool va) True) of
        (Inr p, Inr a, Inr m, Inr d, Inr s, Inr r) \<Rightarrow>
          Inr \<lparr>cfg_policy_path = p, cfg_audit_log_path = a, cfg_sandbox_mode = m, cfg_decision_timeout_s = d,
               cfg_sandbox_timeout_s = s, cfg_redact_audit_parameters = r\<rparr>
      | _ \<Rightarrow> Inl (Exn ValidationError ''Settings''))"

text \<open>Without the variables the settings are the defaults, and variables without the prefix do not matter.\<close>

lemma load_settings_default:
  "(\<And>name. env (''AIMW_'' @ name) = None) \<Longrightarrow> load_settings va env = Inr default_settings"
  by (simp add: load_settings_def from_env_def default_settings_def del: append_Cons append_Nil)

lemma load_settings_prefix:
  "(\<And>name. env (''AIMW_'' @ name) = env' (''AIMW_'' @ name)) \<Longrightarrow> load_settings va env = load_settings va env'"
  by (simp add: load_settings_def from_env_def del: append_Cons append_Nil)

text \<open>The settings load exactly when each variable that is set holds a value of its field's type.\<close>

lemma load_settings_ok:
  "(\<exists>s. load_settings va env = Inr s) \<longleftrightarrow>
     (\<forall>name \<in> {''DECISION_TIMEOUT_S'', ''SANDBOX_TIMEOUT_S''}. \<forall>v.
        env (''AIMW_'' @ name) = Some v \<longrightarrow> (\<exists>x. as_float va v = Inr x)) \<and>
     (\<forall>v. env (''AIMW_'' @ ''REDACT_AUDIT_PARAMETERS'') = Some v \<longrightarrow> (\<exists>b. as_bool va v = Inr b))"
  by (auto simp: load_settings_def from_env_def split: option.split sum.split)

lemma settings_agree:
  "cfg_decision_timeout_s default_settings = default_decision_timeout_s"
  "cfg_sandbox_timeout_s default_settings = sp_timeout_s new_subprocess_sandbox"
  by (simp_all add: default_settings_def default_decision_timeout_s_def new_subprocess_sandbox_def)

section \<open>Properties\<close>

text \<open>
  C5: The audit trail of the shipped stack: any sequence of calls, whatever its engine decides,
  its tools do and its reviewers answer, adds exactly one record per call, in order, with the
  decision and the result of that call, and the log verifies. What is needed of the text form of a
  record, which pydantic gives, is that records made of JSON values are read back from it; only failing
  writes are excluded.
\<close>

theorem shipped_calls_audited:
  assumes "shipped ic" and "record_codec (audit_codec ic) wf_record"
    and "\<forall>(env, ctx, req) \<in> set calls. le_write_error (ce_log env) = None"
    and "log_reach (audit_codec ic) wf_record (audit_log st) rs"
  shows "\<exists>new. log_reach (audit_codec ic) wf_record (audit_log (snd (handle_seq ic calls st))) (rs @ new) \<and>
           map rec_call_id new = map (\<lambda>(env, ctx, req). call_id req) calls \<and>
           map (\<lambda>r. Some (rec_decision r, rec_sandbox_result r)) new =
             map (map_option (map_prod decision_dump (map_option sandbox_dump))) (audited_seq ic calls st) \<and>
           log_verify (audit_codec ic) (audit_log (snd (handle_seq ic calls st))) =
             Inr \<lparr>valid = True, record_count = length rs + length calls, first_broken_index = None\<rparr>"
  by (rule handle_seq_audited [OF assms(2) typed_covers [OF shipped_typed [OF assms(1)]] shipped_answers [OF assms(1)]
        assms(3,4)])

theorem shipped_calls_audited_witness:
  "log_verify json_codec (audit_log (snd (handle_seq shipped_stack
     [(sample_call_env, sample_caller, sample_command), (sample_call_env, sample_caller, sample_command)]
     sample_state))) = Inr \<lparr>valid = True, record_count = 2, first_broken_index = None\<rparr>"
proof -
  have cd: "audit_codec shipped_stack = json_codec" by (simp add: shipped_stack_def)
  have reach: "log_reach (audit_codec shipped_stack) wf_record (audit_log sample_state) []"
    using sample_reach [of 0]
    by (simp add: cd sample_log.simps [of 0] sample_records.simps [of 0] sample_state_def)
  have codec: "record_codec (audit_codec shipped_stack) wf_record" by (simp add: cd json_record_codec)
  have "\<forall>(env, ctx, req) \<in> set [(sample_call_env, sample_caller, sample_command),
      (sample_call_env, sample_caller, sample_command)]. le_write_error (ce_log env) = None"
    by (simp add: sample_call_env_def sample_log_env_def)
  from shipped_calls_audited [OF shipped_stack_shipped codec this reach] show ?thesis unfolding cd by auto
qed

end
