(* ===== verification/Scripts.thy ===== *)
theory Scripts
  imports Stacks
begin

text \<open>
  What the two demonstration scripts of \<^verbatim>\<open>examples/\<close> share. A script is a sequence of steps over the
  texts it has printed and the state of the parts it has built (\<open>and_then\<close>, \<open>say\<close>); \<open>prints\<close> is the
  specification of a step, and specifications compose as steps do. \<open>wrapped\<close>, \<open>handled_admitted\<close>
  and \<open>handled_rejected\<close> give the result of one call over shipped parts together with what it adds to
  the audit trail and to the sinks.
\<close>

section \<open>Steps of a script\<close>

record 'st script =
  printed :: "string list"
  world :: 'st

definition and_then ::
  "('s \<Rightarrow> 'a result \<times> 's) \<Rightarrow> ('a \<Rightarrow> 's \<Rightarrow> 'b result \<times> 's) \<Rightarrow> 's \<Rightarrow> 'b result \<times> 's" where
  "and_then m f s = (case m s of (Inl e, s') \<Rightarrow> (Inl e, s') | (Inr x, s') \<Rightarrow> f x s')"

text \<open>\<open>print\<close>, one text per call.\<close>

definition say :: "string list \<Rightarrow> 'st script \<Rightarrow> unit result \<times> 'st script" where
  "say texts s = (Inr (), s\<lparr>printed := printed s @ texts\<rparr>)"

definition banner :: "string \<Rightarrow> string" where
  "banner title =
     (let rule = replicate 70 (CHR ''='') in CHR 0x0A # rule @ CHR 0x0A # title @ CHR 0x0A # rule)"

text \<open>\<open>pipeline._llm_client.script_tool_call(call)\<close>\<close>

definition scripted :: "proposed_tool_call \<Rightarrow> ('s, 'a, 'x) pipeline \<Rightarrow> ('s, 'a, 'x) pipeline" where
  "scripted call pl = pl\<lparr>pl_llm_client := script_tool_call call (pl_llm_client pl)\<rparr>"

section \<open>A call and its record\<close>

lemma and_then_Inr: "m s = (Inr x, s') \<Longrightarrow> and_then m f s = f x s'"
  by (simp add: and_then_def)

text \<open>The log after calls: what was written is a trail of records, and its sinks can be caught.\<close>

definition trail :: "('s, 'a, 'x) istate \<Rightarrow> audit_record list \<Rightarrow> bool" where
  "trail st rs \<longleftrightarrow> log_reach json_codec wf_record (audit_log st) rs \<and> catchable_sinks (audit_log st)"

lemma trail_frame: "audit_log st' = audit_log st \<Longrightarrow> trail st' rs \<longleftrightarrow> trail st rs"
  by (simp add: trail_def)

lemma catchable_forward:
  assumes "catchable_sinks lg" and "log_sinks lg' = map (\<lambda>s. snd (sink_forward s r)) (log_sinks lg)"
  shows "catchable_sinks lg'"
proof -
  have "is_Exception e"
    if "s \<in> set (log_sinks lg)" "fst (sink_forward (snd (sink_forward s r)) r') = Inl e" for s r' e
    using assms(1) that by (cases s) (auto simp: catchable_sinks_def)
  with assms(2) show ?thesis by (auto simp: catchable_sinks_def)
qed

text \<open>The \<open>finally\<close> clause: a typed decision and result become the next record of the trail.\<close>

lemma wrapped:
  assumes codec: "audit_codec ic = json_codec" and tr: "trail st rs" and le: "le_write_error le = None"
    and typed: "decision_typed d" "pred_option result_typed sr"
  shows "\<exists>rec lg. audit_and_wrap ic le ctx req d sr st =
      (Inr \<lparr>ir_allowed = allowed d, ir_decision = d, ir_sandbox_result = sr, ir_audit_record = rec\<rparr>,
       st\<lparr>audit_log := lg\<rparr>) \<and> trail (st\<lparr>audit_log := lg\<rparr>) (rs @ [rec]) \<and>
      rec_decision rec = decision_dump d \<and>
      log_sinks lg = map (\<lambda>s. snd (sink_forward s rec)) (log_sinks (audit_log st))"
proof -
  let ?lg = "audit_log st"
  let ?r = "mk_record le (redact_parameters ?lg) ctx req d (map_option sandbox_dump sr)"
  let ?rec = "chained (log_prev_hash ?lg) ?r"
  let ?new = "snd (log_append json_codec None ?r ?lg)"
  have catch: "catchable_sinks ?lg" and reach: "log_reach json_codec wf_record ?lg rs"
    using tr by (simp_all add: trail_def)
  then have ok: "\<forall>s \<in> set (log_sinks ?lg). \<forall>e. fst (sink_forward s ?rec) = Inl e \<longrightarrow> is_Exception e"
    by (auto simp: catchable_sinks_def)
  have call: "log_call json_codec le ctx req d (map_option sandbox_dump sr) ?lg = (Inr ?rec, ?new)"
    using log_append_result(1) [OF ok, of json_codec] le by (simp add: log_call_def prod_eq_iff)
  have sinks: "log_sinks ?new = map (\<lambda>s. snd (sink_forward s ?rec)) (log_sinks ?lg)"
    by (rule log_append_result(2) [OF ok])
  have "log_reach json_codec wf_record ?new (rs @ [?rec])"
    using log_reach.called [OF reach le refl, of ctx req d "map_option sandbox_dump sr"]
      typed_record [OF typed] call by simp
  then have "trail (st\<lparr>audit_log := ?new\<rparr>) (rs @ [?rec])"
    using catchable_forward [OF catch sinks] by (simp add: trail_def)
  moreover have "rec_decision ?rec = decision_dump d" by (simp add: mk_record_def)
  ultimately show ?thesis
    using call sinks by (intro exI [of _ ?rec] exI [of _ ?new]) (simp add: audit_and_wrap_def codec)
qed

lemma handled_admitted:
  assumes ship: "shipped ic" and codec: "audit_codec ic = json_codec" and tr: "trail st rs" and le: "le_write_error (ce_log env) = None"
    and rej: "breaker_rejects ic (ce_check_now env) ctx req (breaker_state st) = (Inr False, bs)"
    and body: "handle_body ic env ctx req (st\<lparr>breaker_state := bs\<rparr>) = (None, d, sr, st')"
  shows "\<exists>rec lg. handle ic env ctx req st =
      (Inr \<lparr>ir_allowed = allowed d, ir_decision = d, ir_sandbox_result = sr, ir_audit_record = rec\<rparr>,
       st'\<lparr>audit_log := lg\<rparr>) \<and> trail (st'\<lparr>audit_log := lg\<rparr>) (rs @ [rec]) \<and>
      rec_decision rec = decision_dump d \<and>
      log_sinks lg = map (\<lambda>s. snd (sink_forward s rec)) (log_sinks (audit_log st))"
proof -
  have log: "audit_log st' = audit_log st" using handle_body_frame(1) [OF body] by simp
  have "audited ic env ctx req st = Some (d, sr)" by (simp add: audited_def rej body)
  then have typed: "decision_typed d" "pred_option result_typed sr"
    using audited_typed [OF shipped_typed [OF ship]] by blast+
  have "trail st' rs" using tr log by (simp add: trail_def)
  from wrapped [OF codec this le typed, of ctx req] log show ?thesis
    using handle_admitted [OF rej body] by auto
qed

lemma handled_rejected:
  assumes ship: "shipped ic" and codec: "audit_codec ic = json_codec" and tr: "trail st rs" and le: "le_write_error (ce_log env) = None"
    and rej: "breaker_rejects ic (ce_check_now env) ctx req (breaker_state st) = (Inr True, bs)"
  shows "\<exists>rec lg. handle ic env ctx req st =
      (Inr \<lparr>ir_allowed = False, ir_decision = breaker_open_decision ctx req, ir_sandbox_result = None,
            ir_audit_record = rec\<rparr>, st\<lparr>breaker_state := bs, audit_log := lg\<rparr>) \<and>
      trail (st\<lparr>breaker_state := bs, audit_log := lg\<rparr>) (rs @ [rec]) \<and>
      rec_decision rec = decision_dump (breaker_open_decision ctx req) \<and>
      log_sinks lg = map (\<lambda>s. snd (sink_forward s rec)) (log_sinks (audit_log st))"
proof -
  have "trail (st\<lparr>breaker_state := bs\<rparr>) rs" using tr by (simp add: trail_def)
  moreover have "decision_typed (breaker_open_decision ctx req)" "\<not> allowed (breaker_open_decision ctx req)"
    by (simp_all add: breaker_open_decision_def)
  ultimately show ?thesis
    using wrapped [OF codec _ le, of "st\<lparr>breaker_state := bs\<rparr>" rs
        "breaker_open_decision ctx req" None ctx req]
      handle_rejected [of ic env ctx req st] rej
    by auto
qed

lemma run_one:
  assumes adm: "admitted_prompt pl env prompt ctx token = Inr p"
    and one: "scripted_tool_calls (pl_llm_client pl) = [c]"
    and h: "handle (pl_interceptor pl) (re_call env 0) ctx (to_tool_request c) st = (Inr res, st')"
    and resp: "inspect_output (pl_guardrail pl) (final_response (pl_llm_client pl)) ctx = Inr final"
  shows "\<exists>pl'. run pl env prompt ctx token st =
           (Inr \<lparr>pr_final_response = final, pr_tool_call_results = [res]\<rparr>, pl', st')"
  by (simp add: run_admitted [OF adm] one h resp)

section \<open>What a step prints\<close>

text \<open>
  What a step does from every state that satisfies a condition: it returns, has printed the texts, and
  leaves a state of another condition. Steps compose, and so do their texts.
\<close>

definition prints ::
  "('st \<Rightarrow> bool) \<Rightarrow> ('st script \<Rightarrow> unit result \<times> 'st script) \<Rightarrow> string list \<Rightarrow> ('st \<Rightarrow> bool) \<Rightarrow> bool" where
  "prints P f texts Q \<longleftrightarrow>
     (\<forall>s. P (world s) \<longrightarrow>
        (\<exists>st. f s = (Inr (), s\<lparr>printed := printed s @ texts, world := st\<rparr>) \<and> Q st))"

lemma prints_then:
  assumes "prints P f texts Q" and "prints Q g texts' R"
  shows "prints P (and_then f (\<lambda>_. g)) (texts @ texts') R"
  unfolding prints_def
proof (intro allI impI)
  fix s :: "'a script"
  assume "P (world s)"
  then obtain st where st: "f s = (Inr (), s\<lparr>printed := printed s @ texts, world := st\<rparr>)" "Q st"
    using assms(1) by (auto simp: prints_def)
  then obtain st' where "g (s\<lparr>printed := printed s @ texts, world := st\<rparr>) =
      (Inr (), s\<lparr>printed := (printed s @ texts) @ texts', world := st'\<rparr>)" "R st'"
    using assms(2) unfolding prints_def by (metis script.select_convs(1,2) script.surjective script.update_convs(1,2))
  with st show "\<exists>st. and_then f (\<lambda>_. g) s = (Inr (), s\<lparr>printed := printed s @ texts @ texts', world := st\<rparr>) \<and> R st"
    by (intro exI [of _ st']) (simp add: and_then_Inr)
qed

lemma prints_say: "prints P (say texts) texts P"
  unfolding prints_def say_def by (metis script.surjective script.update_convs(1,2) script.select_convs(2))

lemma prints_eq: "prints P f texts Q \<Longrightarrow> texts' = texts \<Longrightarrow> Q' = Q \<Longrightarrow> prints P f texts' Q'"
  by simp

text \<open>A value from outside that is there.\<close>

lemma prints_value: "v = Inr x \<Longrightarrow> prints P (f x) texts Q \<Longrightarrow> prints P (and_then (Pair v) f) texts Q"
  by (simp add: prints_def and_then_def)

end
