(* ===== verification/Demo.thy ===== *)
theory Demo
  imports Scripts
begin

text \<open>
  The first demonstration script, \<^verbatim>\<open>examples/run_demo.py\<close>, over the model of everything it builds: four
  runs through the pipeline, then the audit log verified, tampered with and verified again. The
  script is a sequence of steps over what it has printed and the state its parts share
  (\<open>and_then\<close>). \<open>demo_confirms\<close> says what it prints, for all clocks and identifiers: the scenarios
  end as their banners announce, and the edit on disk is found at its line, unless it exhibits a
  collision of SHA-256.
\<close>

type_synonym 'st demo_state = "(mem_backend, approval_queue, 'st) istate"

definition show_result :: "string \<Rightarrow> pipeline_result \<Rightarrow> string list" where
  "show_result label res =
     concat (map (\<lambda>r.
       (''  ['' @ label @ ''] allowed='' @ py_repr (PBool (ir_allowed r)) @ ''  reason=''
          @ reason (ir_decision r))
       # (case ir_sandbox_result r of None \<Rightarrow> []
          | Some s \<Rightarrow> [''           sandbox stdout: '' @ stdout s])) (pr_tool_call_results res))"


section \<open>The parts that the script builds\<close>

text \<open>
  The one deny pattern of the example rules as an expression of the matcher; \<open>re.search\<close> of another
  pattern does not occur.
\<close>

definition sql_deny_rx :: rx where
  "sql_deny_rx = ralt [rlit_i ''drop'', rlit_i ''delete'', rlit_i ''truncate'', rlit_i ''alter'']"

definition demo_search :: "string \<Rightarrow> string \<Rightarrow> bool result" where
  "demo_search pattern s =
     (if pattern = ''(?i)(DROP|DELETE|TRUNCATE|ALTER)'' then Inr (Regex.re_search sql_deny_rx s)
      else Inl (Exn ReError pattern))"

definition demo_policy_env :: policy_env where
  "demo_policy_env = policy_env.make demo_search (\<lambda>session. Inr 0) (\<lambda>name. False)"

text \<open>What the script takes from outside: readings of the clock, identifiers, its temporary file.\<close>

record demo_world =
  dw_clock :: "nat \<Rightarrow> span"
  dw_run :: "nat \<Rightarrow> run_env"
  dw_path :: string
  dw_loader :: rule_loader
  dw_policy_path :: string

definition demo_interceptor ::
  "demo_world \<Rightarrow> policy_rule_set \<Rightarrow> (mem_backend, approval_queue, nat) interceptor" where
  "demo_interceptor w ruleset =
     \<lparr>policy_engine = static_engine demo_policy_env ruleset,
      sandbox = in_process new_subprocess_sandbox (dw_clock w), audit_codec = json_codec,
      approval_callback = Some queue_call, decision_timeout_s = default_decision_timeout_s,
      circuit_breaker = None\<rparr>"

definition make_pipeline ::
  "demo_world \<Rightarrow> policy_rule_set \<Rightarrow> (mem_backend, approval_queue, nat) pipeline" where
  "make_pipeline w ruleset =
     \<lparr>pl_gateway = default_gateway, pl_guardrail = regex_guardrail True,
      pl_llm_client = new_llm_client, pl_interceptor = demo_interceptor w ruleset\<rparr>"

definition analyst_ctx :: execution_context where
  "analyst_ctx =
     \<lparr>user_id = ''user-jane'', agent_id = ''agent-research'', session_id = ''session-1'',
      roles = [''AgentExecutor''], delegated_scopes = [], metadata = []\<rparr>"

definition admin_ctx :: execution_context where
  "admin_ctx =
     \<lparr>user_id = ''user-jane'', agent_id = ''agent-ops'', session_id = ''session-2'',
      roles = [''AgentExecutor'', ''ProductionAdmin''], delegated_scopes = [], metadata = []\<rparr>"

definition search_call :: proposed_tool_call where
  "search_call =
     \<lparr>p_tool_name = ''search_tool'', p_function_name = ''query'',
      p_parameters = [(''q'', PStr ''weather in Boston'')], p_call_id = ''demo-search-1''\<rparr>"

definition sql_call :: proposed_tool_call where
  "sql_call =
     \<lparr>p_tool_name = ''sql_tool'', p_function_name = ''ExecuteReadOnlyQuery'',
      p_parameters = [(''query'', PStr ''DROP TABLE users'')], p_call_id = ''demo-sql-1''\<rparr>"

definition deploy_call :: "string \<Rightarrow> string \<Rightarrow> proposed_tool_call" where
  "deploy_call version cid =
     \<lparr>p_tool_name = ''deploy_tool'', p_function_name = ''deploy'',
      p_parameters = [(''environment'', PStr ''production''), (''version'', PStr version)],
      p_call_id = cid\<rparr>"


section \<open>The script\<close>

definition run_and_show ::
  "demo_world \<Rightarrow> policy_rule_set \<Rightarrow> nat \<Rightarrow> string \<Rightarrow> string \<Rightarrow> execution_context \<Rightarrow> proposed_tool_call
     \<Rightarrow> nat demo_state script \<Rightarrow> unit result \<times> nat demo_state script" where
  "run_and_show w ruleset i label prompt ctx call s =
     (case run (scripted call (make_pipeline w ruleset)) (dw_run w i) prompt ctx ''t'' (world s) of
        (Inl e, _, st) \<Rightarrow> (Inl e, s\<lparr>world := st\<rparr>)
      | (Inr res, _, st) \<Rightarrow> say (show_result label res) (s\<lparr>world := st\<rparr>))"

definition decide_ahead ::
  "string \<Rightarrow> bool \<Rightarrow> 'x demo_state script \<Rightarrow> unit result \<times> 'x demo_state script" where
  "decide_ahead cid b s =
     (let st = world s in
      (Inr (), s\<lparr>world := st\<lparr>approval_state := set_decision cid b (approval_state st)\<rparr>\<rparr>))"

text \<open>\<open>approvals.received[-1][1].parameters\<close>.\<close>

definition payload_line :: "tool_request \<Rightarrow> string" where
  "payload_line req = ''  Human reviewer saw the RAW payload: '' @ py_repr (PDict (parameters req))"

definition show_received :: "'x demo_state script \<Rightarrow> unit result \<times> 'x demo_state script" where
  "show_received s =
     (case rev (received (approval_state (world s))) of
        [] \<Rightarrow> (Inl (Exn (OtherException ''IndexError'') ''list index out of range''), s)
      | (ctx, req, d) # _ \<Rightarrow>
          say [payload_line req] s)"

text \<open>\<open>record["decision"]["allowed"] = not record["decision"]["allowed"]\<close>.\<close>

definition flip_allowed :: "pyval \<Rightarrow> pyval result" where
  "flip_allowed v =
     (case v of
        PDict d \<Rightarrow>
          (case map_of d ''decision'' of
             None \<Rightarrow> Inl (Exn KeyError (squote ''decision''))
           | Some (PDict dec) \<Rightarrow>
               (case map_of dec ''allowed'' of
                  None \<Rightarrow> Inl (Exn KeyError (squote ''allowed''))
                | Some a \<Rightarrow>
                    Inr (PDict (AList.update ''decision''
                           (PDict (AList.update ''allowed'' (PBool (\<not> truthy a)) dec)) d)))
           | Some _ \<Rightarrow> Inl (Exn TypeError ''indices''))
      | _ \<Rightarrow> Inl (Exn TypeError ''indices''))"

text \<open>\<open>str.splitlines\<close>, whose line boundaries are more than those of a text file.\<close>

definition line_boundary :: "char \<Rightarrow> bool" where
  "line_boundary c \<longleftrightarrow> c \<in> {CHR 0x0A, CHR 0x0B, CHR 0x0C, CHR 0x1C, CHR 0x1D, CHR 0x1E, CHR 0x85}"

fun splitlines :: "string \<Rightarrow> string \<Rightarrow> string list" where
  "splitlines acc [] = (if acc = [] then [] else [rev acc])"
| "splitlines acc (c # cs) =
     (if line_boundary c then rev acc # splitlines [] cs
      else if c = CHR 0x0D then
        (case cs of
           d # ds \<Rightarrow> (if d = CHR 0x0A then rev acc # splitlines [] ds else rev acc # splitlines [] cs)
         | [] \<Rightarrow> [rev acc])
      else splitlines (c # acc) cs)"

definition tamper :: "string list \<Rightarrow> string result" where
  "tamper texts =
     (if length texts \<le> 1 then Inl (Exn (OtherException ''IndexError'') ''list index out of range'')
      else (case json_loads (texts ! 1) of
              None \<Rightarrow> Inl (Exn ValueError ''JSONDecodeError'')
            | Some v \<Rightarrow>
                (case flip_allowed v of
                   Inl e \<Rightarrow> Inl e
                 | Inr v' \<Rightarrow> Inr (join [CHR 0x0A] (texts[1 := json_text '' '' v']) @ [CHR 0x0A]))))"

definition show_index :: "nat option \<Rightarrow> string" where
  "show_index i = (case i of None \<Rightarrow> ''None'' | Some n \<Rightarrow> str_nat n)"

definition read_log :: "demo_world \<Rightarrow> 'x demo_state script \<Rightarrow> string result \<times> 'x demo_state script" where
  "read_log w s =
     (case log_file (audit_log (world s)) of
        None \<Rightarrow> Inl (Exn FileNotFoundError (dw_path w)) | Some content \<Rightarrow> Inr content, s)"

definition write_log :: "string \<Rightarrow> 'x demo_state script \<Rightarrow> unit result \<times> 'x demo_state script" where
  "write_log content s =
     (let st = world s; lg = audit_log st in
      (Inr (), s\<lparr>world := st\<lparr>audit_log := lg\<lparr>log_file := Some content\<rparr>\<rparr>\<rparr>))"

definition verify_log :: "'x demo_state script \<Rightarrow> chain_verification result \<times> 'x demo_state script" where
  "verify_log s = (verify_chain json_codec (log_file (audit_log (world s))), s)"

text \<open>The two assertions, and the last text if they hold.\<close>

definition confirm ::
  "chain_verification \<Rightarrow> chain_verification \<Rightarrow> 's script \<Rightarrow> unit result \<times> 's script" where
  "confirm before later s =
     (if \<not> valid before \<or> valid later then (Inl (Exn (OtherException ''AssertionError'') ''''), s)
      else say [CHR 0x0A # ''Tamper-evidence confirmed: the hash chain detected the modification.''] s)"

definition audit_and_tamper :: "demo_world \<Rightarrow> 'x demo_state script \<Rightarrow> unit result \<times> 'x demo_state script" where
  "audit_and_tamper w =
     and_then (read_log w) (\<lambda>content.
     and_then (say [''  '' @ str_nat (length (splitlines '''' content)) @ '' audit records written to '' @ dw_path w]) (\<lambda>_.
     and_then verify_log (\<lambda>before.
     and_then (say [''  verify_chain() before tampering: valid='' @ py_repr (PBool (valid before))
                      @ '' records='' @ str_nat (record_count before),
                    ''  Tampering with record index 1 on disk (flipping its decision outcome)...'']) (\<lambda>_.
     and_then (Pair (tamper (splitlines '''' content))) (\<lambda>content'.
     and_then (write_log content') (\<lambda>_.
     and_then verify_log (\<lambda>later.
     and_then (say [''  verify_chain() after tampering:  valid='' @ py_repr (PBool (valid later))
                      @ ''  first_broken_index='' @ show_index (first_broken_index later)]) (\<lambda>_.
     confirm before later))))))))"

definition weather_prompt :: string where
  "weather_prompt = ''What'' @ CHR 0x27 # ''s the weather in Boston?''"

text \<open>The four scenarios, up to the fourth banner, and the whole script.\<close>

definition demo_calls ::
  "demo_world \<Rightarrow> policy_rule_set \<Rightarrow> nat demo_state script \<Rightarrow> unit result \<times> nat demo_state script" where
  "demo_calls w ruleset =
     and_then (say [banner ''1. ALLOWED CALL - search_tool.query'']) (\<lambda>_.
     and_then (run_and_show w ruleset 0 ''allowed'' weather_prompt analyst_ctx search_call) (\<lambda>_.
     and_then (say [banner ''2. DENIED CALL - sql_tool.ExecuteReadOnlyQuery with DROP TABLE'']) (\<lambda>_.
     and_then (run_and_show w ruleset 1 ''denied'' ''Clean up the users table'' analyst_ctx sql_call) (\<lambda>_.
     and_then (say [banner ''3a. APPROVAL-REQUIRED CALL, APPROVED - deploy_tool.deploy'']) (\<lambda>_.
     and_then (decide_ahead ''demo-deploy-approved'' True) (\<lambda>_.
     and_then (run_and_show w ruleset 2 ''approved'' ''Deploy v2.3.1 to production'' admin_ctx
                 (deploy_call ''v2.3.1'' ''demo-deploy-approved'')) (\<lambda>_.
     and_then show_received (\<lambda>_.
     and_then (say [banner ''3b. APPROVAL-REQUIRED CALL, DENIED - deploy_tool.deploy'']) (\<lambda>_.
     and_then (decide_ahead ''demo-deploy-denied'' False) (\<lambda>_.
     and_then (run_and_show w ruleset 3 ''denied-by-human'' ''Deploy v9.9.9-risky to production'' admin_ctx
                 (deploy_call ''v9.9.9-risky'' ''demo-deploy-denied'')) (\<lambda>_.
     say [banner ''4. AUDIT TRAIL + TAMPER-EVIDENCE CHECK''])))))))))))"

definition demo_scenarios :: "demo_world \<Rightarrow> nat demo_state script \<Rightarrow> unit result \<times> nat demo_state script" where
  "demo_scenarios w =
     and_then (say [''Audit log: '' @ dw_path w]) (\<lambda>_.
     and_then (Pair (load_ruleset (dw_loader w) (dw_policy_path w))) (\<lambda>ruleset. demo_calls w ruleset))"

definition demo_main :: "demo_world \<Rightarrow> nat demo_state script \<Rightarrow> unit result \<times> nat demo_state script" where
  "demo_main w = and_then (demo_scenarios w) (\<lambda>_. audit_and_tamper w)"

text \<open>The script starts with a new queue and a log on a file that does not exist yet.\<close>

definition demo_start :: "logger \<Rightarrow> nat demo_state script" where
  "demo_start lg =
     \<lparr>printed = [],
      world = \<lparr>breaker_state = mem_init, approval_state = approval_queue_init False,
               sandbox_state = 0, audit_log = lg\<rparr>\<rparr>"


section \<open>The scenarios\<close>

lemma demo_fields [simp]:
  "policy_engine (demo_interceptor w example_ruleset) = static_engine demo_policy_env example_ruleset"
  "sandbox (demo_interceptor w example_ruleset) = in_process new_subprocess_sandbox (dw_clock w)"
  "audit_codec (demo_interceptor w example_ruleset) = json_codec"
  "approval_callback (demo_interceptor w example_ruleset) = Some queue_call"
  "decision_timeout_s (demo_interceptor w example_ruleset) = 2"
  "circuit_breaker (demo_interceptor w example_ruleset) = None"
  by (simp_all add: demo_interceptor_def default_decision_timeout_s_def)

lemma demo_shipped: "shipped (demo_interceptor w example_ruleset)"
proof -
  have "\<exists>env rs. policy_engine (demo_interceptor w example_ruleset) = static_engine env rs"
    "\<exists>sb clock. sandbox (demo_interceptor w example_ruleset) = in_process sb clock" by (simp; blast)+
  then show ?thesis by (simp add: shipped_def del: demo_fields(1,2))
qed

lemma demo_admits: "breaker_rejects (demo_interceptor w example_ruleset) now ctx req bs = (Inr False, bs)"
  by (simp add: breaker_rejects_def)

lemma demo_admitted_prompt:
  assumes "find_injection_markers (mask prompt) = []"
  shows "\<exists>p. admitted_prompt (scripted call (make_pipeline w example_ruleset)) env prompt ctx ''t'' = Inr p"
  using assms
  by (simp add: admitted_prompt_def make_pipeline_def scripted_def handle_inbound_eq default_gateway_def new_gateway_def
        bearer_verifier_def static_verify_def count_of_def regex_guardrail_def regex_inspect_input_def)

text \<open>The result of a tool without an implementation of its own.\<close>

definition stub_result :: "tool_request \<Rightarrow> span \<Rightarrow> sandbox_result" where
  "stub_result req sp = mk_result (''ok: executed '' @ tool_name req @ ''.'' @ function_name req) '''' 0 (span_ms sp)"

lemma demo_executes:
  "execute_sandboxed (demo_interceptor w example_ruleset) sp ctx req n = (Inr (stub_result req (dw_clock w n)), Suc n)"
  by (simp add: execute_sandboxed_def in_process_def sp_execute_def new_subprocess_sandbox_def
        default_implementation_def wait_for_def stub_result_def)

lemma demo_runs_permitted:
  "allowed d \<Longrightarrow> run_permitted (demo_interceptor w example_ruleset) env ctx req d st =
     (None, d, Some (stub_result req (dw_clock w (sandbox_state st))),
      st\<lparr>sandbox_state := Suc (sandbox_state st)\<rparr>)"
  by (simp add: run_permitted_def demo_executes record_circuit_breaker_outcome_def)

lemma run_permitted_refused: "\<not> allowed d \<Longrightarrow> run_permitted ic env ctx req d st = (None, d, None, st)"
  by (simp add: run_permitted_def)

lemma demo_evaluates:
  "static_evaluate_tool_call demo_policy_env example_ruleset ctx req = Inr d \<Longrightarrow>
     evaluate_decision (demo_interceptor w example_ruleset) ctx req = Inr d"
  by (simp add: evaluate_decision_def static_engine_def wait_for_def)

lemma demo_body_denied:
  assumes "static_evaluate_tool_call demo_policy_env example_ruleset ctx req = Inr d" and "\<not> allowed d"
  shows "handle_body (demo_interceptor w example_ruleset) env ctx req st = (None, d, None, st)"
  using assms(2) by (simp add: handle_body_def demo_evaluates [OF assms(1)] run_permitted_refused)

lemma demo_body_allowed:
  assumes "static_evaluate_tool_call demo_policy_env example_ruleset ctx req = Inr checks_passed"
  shows "handle_body (demo_interceptor w example_ruleset) env ctx req st =
    (None, checks_passed, Some (stub_result req (dw_clock w (sandbox_state st))),
     st\<lparr>sandbox_state := Suc (sandbox_state st)\<rparr>)"
  by (simp add: handle_body_def demo_evaluates [OF assms] safely_resolve_action_requirements_def
        resolve_action_requirements_def unsupported_def demo_runs_permitted)

definition human_approved :: policy_decision where
  "human_approved = mk_decision True ''approved pending human-in-the-loop review; human-approved''"

definition human_refused :: policy_decision where
  "human_refused = mk_decision False ''approval required but not granted''"

lemma demo_body_reviewed:
  assumes "static_evaluate_tool_call demo_policy_env example_ruleset ctx req = Inr pending_approval"
  shows "handle_body (demo_interceptor w example_ruleset) env ctx req st =
    (let q = approval_state st;
         st1 = st\<lparr>approval_state := q\<lparr>received := received q @ [(ctx, req, pending_approval)]\<rparr>\<rparr>
     in if answer q (call_id req)
        then (None, human_approved, Some (stub_result req (dw_clock w (sandbox_state st))),
              st1\<lparr>sandbox_state := Suc (sandbox_state st)\<rparr>)
        else (None, human_refused, None, st1))"
proof -
  have "reason pending_approval @ ''; human-approved'' = reason human_approved"
    by (simp add: pending_approval_def human_approved_def)
  then show ?thesis
    by (simp add: handle_body_def demo_evaluates [OF assms] safely_resolve_action_requirements_def
          resolve_action_requirements_def unsupported_Nil queue_call_eq demo_runs_permitted
          human_approved_def human_refused_def run_permitted_refused Let_def)
qed

text \<open>The texts that \<open>show_result\<close> prints for one handled call.\<close>

definition outcome_line :: "string \<Rightarrow> policy_decision \<Rightarrow> string" where
  "outcome_line label d = ''  ['' @ label @ ''] allowed='' @ py_repr (PBool (allowed d)) @ ''  reason='' @ reason d"

definition stdout_line :: "sandbox_result \<Rightarrow> string" where
  "stdout_line r = ''           sandbox stdout: '' @ stdout r"

definition stub_line :: "proposed_tool_call \<Rightarrow> string" where
  "stub_line call = ''           sandbox stdout: ok: executed '' @ p_tool_name call @ ''.'' @ p_function_name call"

lemma stdout_line_stub [simp]: "stdout_line (stub_result (to_tool_request call) sp) = stub_line call"
  by (simp add: stdout_line_def stub_line_def stub_result_def to_tool_request_def)

lemma show_one:
  "show_result label \<lparr>pr_final_response = t, pr_tool_call_results =
       [\<lparr>ir_allowed = allowed d, ir_decision = d, ir_sandbox_result = sr, ir_audit_record = rec\<rparr>]\<rparr> =
     outcome_line label d # (case sr of None \<Rightarrow> [] | Some r \<Rightarrow> [stdout_line r])"
  by (simp add: show_result_def outcome_line_def stdout_line_def split: option.split)

lemma run_and_show_outcome:
  assumes "find_injection_markers (mask prompt) = []" and tr: "trail (world s) rs"
    and le: "le_write_error (ce_log (re_call (dw_run w i) 0)) = None"
    and body: "handle_body (demo_interceptor w example_ruleset) (re_call (dw_run w i) 0) ctx (to_tool_request call) (world s) =
      (None, d, sr, st')"
  shows "\<exists>rec lg. run_and_show w example_ruleset i label prompt ctx call s =
      (Inr (), s\<lparr>printed := printed s @
          outcome_line label d # (case sr of None \<Rightarrow> [] | Some r \<Rightarrow> [stdout_line r]),
        world := st'\<lparr>audit_log := lg\<rparr>\<rparr>) \<and>
      trail (st'\<lparr>audit_log := lg\<rparr>) (rs @ [rec]) \<and> rec_decision rec = decision_dump d"
proof -
  let ?pl = "scripted call (make_pipeline w example_ruleset)"
  obtain p where adm: "admitted_prompt ?pl (dw_run w i) prompt ctx ''t'' = Inr p"
    using demo_admitted_prompt [OF assms(1)] by blast
  have "handle_body (demo_interceptor w example_ruleset) (re_call (dw_run w i) 0) ctx (to_tool_request call)
      (world s\<lparr>breaker_state := breaker_state (world s)\<rparr>) = (None, d, sr, st')" using body by simp
  from handled_admitted [OF demo_shipped demo_fields(3) tr le demo_admits this]
  obtain rec lg where h: "handle (demo_interceptor w example_ruleset) (re_call (dw_run w i) 0) ctx (to_tool_request call) (world s) =
      (Inr \<lparr>ir_allowed = allowed d, ir_decision = d, ir_sandbox_result = sr, ir_audit_record = rec\<rparr>,
       st'\<lparr>audit_log := lg\<rparr>)"
    and new: "trail (st'\<lparr>audit_log := lg\<rparr>) (rs @ [rec])" "rec_decision rec = decision_dump d"
    by blast
  have "\<exists>pl'. run ?pl (dw_run w i) prompt ctx ''t'' (world s) =
      (Inr \<lparr>pr_final_response = mask (final_response (pl_llm_client ?pl)), pr_tool_call_results =
         [\<lparr>ir_allowed = allowed d, ir_decision = d, ir_sandbox_result = sr, ir_audit_record = rec\<rparr>]\<rparr>,
       pl', st'\<lparr>audit_log := lg\<rparr>)"
    using h by (intro run_one [OF adm, of call])
      (simp_all add: make_pipeline_def scripted_def script_tool_call_def new_llm_client_def regex_guardrail_def
         regex_inspect_output_def)
  then have "run_and_show w example_ruleset i label prompt ctx call s =
      (Inr (), s\<lparr>printed := printed s @
          outcome_line label d # (case sr of None \<Rightarrow> [] | Some r \<Rightarrow> [stdout_line r]),
        world := st'\<lparr>audit_log := lg\<rparr>\<rparr>)"
    by (auto simp: run_and_show_def show_one say_def)
  with new show ?thesis by blast
qed

section \<open>The edit on disk\<close>

text \<open>What \<open>flip_allowed\<close> makes of a record whose decision has the flag.\<close>

definition flipped :: "policy_decision \<Rightarrow> audit_record \<Rightarrow> audit_record" where
  "flipped d r = r\<lparr>rec_decision := decision_dump (d\<lparr>allowed := \<not> allowed d\<rparr>)\<rparr>"

lemma flipped_fields [simp]:
  "prev_hash (flipped d r) = prev_hash r" "record_hash (flipped d r) = record_hash r"
  by (simp_all add: flipped_def)

lemma flip_payload:
  assumes "rec_decision r = decision_dump d"
  shows "flip_allowed (PDict (full_payload r)) = Inr (PDict (full_payload (flipped d r)))"
  using assms by (simp add: flip_allowed_def full_payload_def record_payload_def flipped_def decision_dump_def)

lemma flipped_wf: "wf_record r \<Longrightarrow> rec_decision r = decision_dump d \<Longrightarrow> wf_record (flipped d r)"
  by (simp add: wf_record_def flipped_def decision_dump_def)

lemma flipped_differs:
  assumes "wf_record r" and "rec_decision r = decision_dump d"
  shows "canonical_bytes (record_payload (flipped d r)) \<noteq> canonical_bytes (record_payload r)"
proof
  assume "canonical_bytes (record_payload (flipped d r)) = canonical_bytes (record_payload r)"
  from canonical_decision_field [OF flipped_wf [OF assms] assms(1) this, of "''allowed''"] show False
    using assms(2) by (simp add: flipped_def decision_dump_def)
qed

lemma lines_of_join:
  assumes "texts \<noteq> []" and "\<forall>t \<in> set texts. CHR 0x0A \<notin> set t \<and> CHR 0x0D \<notin> set t"
  shows "lines_of '''' (join [CHR 0x0A] texts @ [CHR 0x0A]) = texts"
  using assms
proof (induction texts)
  case (Cons t texts)
  then show ?case
    using lines_of_line [of t "[]" "[]"] lines_of_line [of t "[]" "join [CHR 0x0A] texts @ [CHR 0x0A]"]
    by (cases "texts = []") (simp_all add: join_cons)
qed simp

text \<open>On the text of a log, the two ways of finding its lines agree.\<close>

lemma splitlines_printable:
  "\<forall>c \<in> set s. printable c \<or> c = CHR 0x0A \<Longrightarrow> splitlines acc s = lines_of acc s"
proof (induction s arbitrary: acc)
  case (Cons c s)
  have "\<not> printable c" if "line_boundary c \<and> c \<noteq> CHR 0x0A \<or> c = CHR 0x0D"
    using that by (auto simp: line_boundary_def printable_def)
  then show ?case using Cons by (auto simp: line_boundary_def)
qed simp

lemma splitlines_written: "splitlines acc (file_text json_codec rs) = lines_of acc (file_text json_codec rs)"
proof (rule splitlines_printable)
  have "\<forall>c \<in> set (record_line '''' r). printable c" for r
    using printable_json_text [OF no_blanks, of "PDict (full_payload r)"]
    by (simp add: record_line_def list_all_iff del: json_text.simps)
  then show "\<forall>c \<in> set (file_text json_codec rs). printable c \<or> c = CHR 0x0A"
    by (auto simp: file_text_def dump_json_line)
qed

lemma tampered_log:
  assumes reach: "log_reach json_codec wf_record lg rs" and two: "1 < length rs"
    and dec: "rec_decision (rs ! 1) = decision_dump d"
    and nc: "\<not> collision (hashed_bytes (prev_hash (rs ! 1)) (flipped d (rs ! 1)))
      (hashed_bytes (prev_hash (rs ! 1)) (rs ! 1))"
  shows "\<exists>content content'. log_file lg = Some content \<and> length (splitlines '''' content) = length rs \<and>
    verify_chain json_codec (Some content) = Inr \<lparr>valid = True, record_count = length rs, first_broken_index = None\<rparr> \<and>
    tamper (splitlines '''' content) = Inr content' \<and>
    verify_chain json_codec (Some content') = Inr \<lparr>valid = False, record_count = 1, first_broken_index = Some 1\<rparr>"
proof -
  let ?r = "rs ! 1"
  have holds: "log_holds json_codec wf_record lg rs"
    by (rule log_reach_holds [OF json.record_codec_axioms reach])
  then have g: "list_all wf_record rs" and stored: "log_file lg = Some (file_text json_codec rs)"
    using two by (auto simp: log_holds_def)
  have wf: "wf_record ?r" using g two by (simp add: list_all_length)
  have texts: "splitlines '''' (file_text json_codec rs) = map (record_line '''') rs"
    using json.lines_file_text [OF g] splitlines_written by (simp add: dump_json_line)
  let ?texts = "(map (record_line '''') rs)[1 := record_line '' '' (flipped d ?r)]"
  have ws: "blanks '' ''" by (simp add: blanks_def)
  have load: "json_loads (record_line '''' ?r) = Some (PDict (full_payload ?r))"
    using json_text_roundtrip [OF no_blanks wf_full_payload [OF wf]] by (simp add: record_line_def)
  have tamper: "tamper (map (record_line '''') rs) = Inr (join [CHR 0x0A] ?texts @ [CHR 0x0A])"
    using two load by (simp add: tamper_def flip_payload [OF dec] record_line_def del: json_text.simps One_nat_def)
  have "\<forall>t \<in> set ?texts. CHR 0x0A \<notin> set t \<and> CHR 0x0D \<notin> set t"
    using set_update_subset_insert [of "map (record_line []) rs" 1] record_line_one [OF ws]
      record_line_one [OF no_blanks] by fastforce
  moreover have "?texts \<noteq> []" using two by auto
  ultimately have "verify_chain json_codec (Some (join [CHR 0x0A] ?texts @ [CHR 0x0A])) =
      verify_lines json_codec 0 GENESIS_HASH 0 ?texts"
    by (simp add: verify_chain_def lines_of_join)
  also have "\<dots> = Inr \<lparr>valid = False, record_count = 1, first_broken_index = Some 1\<rparr>"
    using edited_line_report [OF reach two flipped_wf [OF wf dec] _ _ flipped_differs [OF wf dec] ws] nc by simp
  finally show ?thesis
    using tamper texts stored json.holds_verify [OF holds] by (simp add: log_verify_def)
qed

section \<open>What the script prints\<close>

definition sql_denied :: policy_decision where
  "sql_denied =
     deny (''parameter '' @ squote ''query'' @ '' matched deny-pattern ''
           @ squote ''(?i)(DROP|DELETE|TRUNCATE|ALTER)'' @ '' (excerpt: '' @ squote ''DROP TABLE users'' @ '')'')"

lemma demo_decisions:
  "static_evaluate_tool_call demo_policy_env example_ruleset analyst_ctx (to_tool_request search_call) =
     Inr checks_passed"
  "static_evaluate_tool_call demo_policy_env example_ruleset analyst_ctx (to_tool_request sql_call) =
     Inr sql_denied"
  "static_evaluate_tool_call demo_policy_env example_ruleset admin_ctx (to_tool_request (deploy_call v cid)) =
     Inr pending_approval"
  by code_simp+

lemma demo_prompts:
  "find_injection_markers (mask weather_prompt) = []"
  "find_injection_markers (mask ''Clean up the users table'') = []"
  "find_injection_markers (mask ''Deploy v2.3.1 to production'') = []"
  "find_injection_markers (mask ''Deploy v9.9.9-risky to production'') = []"
  by code_simp+

definition scenario_output :: "string \<Rightarrow> string list" where
  "scenario_output path =
     [''Audit log: '' @ path,
      banner ''1. ALLOWED CALL - search_tool.query'',
      ''  [allowed] allowed=True  reason=all policy checks passed'',
      ''           sandbox stdout: ok: executed search_tool.query'',
      banner ''2. DENIED CALL - sql_tool.ExecuteReadOnlyQuery with DROP TABLE'',
      ''  [denied] allowed=False  reason='' @ reason sql_denied,
      banner ''3a. APPROVAL-REQUIRED CALL, APPROVED - deploy_tool.deploy'',
      ''  [approved] allowed=True  reason=approved pending human-in-the-loop review; human-approved'',
      ''           sandbox stdout: ok: executed deploy_tool.deploy'',
      ''  Human reviewer saw the RAW payload: {'' @ squote ''environment'' @ '': '' @ squote ''production'' @ '', ''
        @ squote ''version'' @ '': '' @ squote ''v2.3.1'' @ ''}'',
      banner ''3b. APPROVAL-REQUIRED CALL, DENIED - deploy_tool.deploy'',
      ''  [denied-by-human] allowed=False  reason=approval required but not granted'',
      banner ''4. AUDIT TRAIL + TAMPER-EVIDENCE CHECK'']"

definition tamper_output :: "string \<Rightarrow> string list" where
  "tamper_output path =
     [''  4 audit records written to '' @ path,
      ''  verify_chain() before tampering: valid=True records=4'',
      ''  Tampering with record index 1 on disk (flipping its decision outcome)...'',
      ''  verify_chain() after tampering:  valid=False  first_broken_index=1'',
      CHR 0x0A # ''Tamper-evidence confirmed: the hash chain detected the modification.'']"

lemma audit_and_tamper_outcome:
  assumes "log_reach json_codec wf_record (audit_log (world s)) rs" and "length rs = 4"
    and "rec_decision (rs ! 1) = decision_dump d"
    and "\<not> collision (hashed_bytes (prev_hash (rs ! 1)) (flipped d (rs ! 1)))
      (hashed_bytes (prev_hash (rs ! 1)) (rs ! 1))"
  shows "\<exists>s'. audit_and_tamper w s = (Inr (), s') \<and> printed s' = printed s @ tamper_output (dw_path w)"
proof -
  obtain content content' where c: "log_file (audit_log (world s)) = Some content"
    "length (splitlines '''' content) = 4"
    "verify_chain json_codec (Some content) = Inr \<lparr>valid = True, record_count = 4, first_broken_index = None\<rparr>"
    "tamper (splitlines '''' content) = Inr content'"
    "verify_chain json_codec (Some content') = Inr \<lparr>valid = False, record_count = 1, first_broken_index = Some 1\<rparr>"
    using tampered_log [OF assms(1) _ assms(3,4)] assms(2) by auto
  have texts: "str_nat 4 = ''4''" "str_nat 1 = ''1''" by code_simp+
  show ?thesis
    using c texts
    by (simp add: audit_and_tamper_def and_then_def read_log_def say_def verify_log_def write_log_def
          confirm_def show_index_def tamper_output_def Let_def)
qed

text \<open>The queue as it stands, and a trail with the given decisions.\<close>

definition standing :: "approval_queue \<Rightarrow> policy_decision list \<Rightarrow> 'x demo_state \<Rightarrow> bool" where
  "standing q ds st \<longleftrightarrow> approval_state st = q \<and>
     (\<exists>rs. trail st rs \<and> map rec_decision rs = map decision_dump ds)"

lemma standing_extend:
  "trail st (rs @ [rec]) \<Longrightarrow> map rec_decision rs = map decision_dump ds \<Longrightarrow> rec_decision rec = decision_dump d \<Longrightarrow>
     approval_state st = q \<Longrightarrow> standing q (ds @ [d]) st"
  unfolding standing_def by (intro conjI exI [of _ "rs @ [rec]"]) simp_all

lemma prints_scenario:
  assumes "find_injection_markers (mask prompt) = []"
    and le: "le_write_error (ce_log (re_call (dw_run w i) 0)) = None"
    and body: "\<And>st. approval_state st = q \<Longrightarrow>
      \<exists>st'. handle_body (demo_interceptor w example_ruleset) (re_call (dw_run w i) 0) ctx (to_tool_request call) st =
        (None, d, (if allowed d then Some (stub_result (to_tool_request call) (dw_clock w (sandbox_state st))) else None), st') \<and>
        approval_state st' = q'"
  shows "prints (standing q ds) (run_and_show w example_ruleset i label prompt ctx call)
    (outcome_line label d # (if allowed d then [stub_line call] else [])) (standing q' (ds @ [d]))"
  unfolding prints_def
proof (intro allI impI)
  fix s :: "nat demo_state script"
  assume "standing q ds (world s)"
  then obtain rs where rs: "approval_state (world s) = q" "trail (world s) rs" "map rec_decision rs = map decision_dump ds"
    by (auto simp: standing_def)
  obtain st' where b: "handle_body (demo_interceptor w example_ruleset) (re_call (dw_run w i) 0) ctx (to_tool_request call) (world s) =
      (None, d, (if allowed d then Some (stub_result (to_tool_request call) (dw_clock w (sandbox_state (world s)))) else None), st')"
    "approval_state st' = q'" using body [OF rs(1)] by blast
  from run_and_show_outcome [OF assms(1) rs(2) le b(1), where label = label] obtain rec lg where
    "run_and_show w example_ruleset i label prompt ctx call s =
       (Inr (), s\<lparr>printed := printed s @ outcome_line label d # (if allowed d then [stub_line call] else []),
          world := st'\<lparr>audit_log := lg\<rparr>\<rparr>)"
    "trail (st'\<lparr>audit_log := lg\<rparr>) (rs @ [rec])" "rec_decision rec = decision_dump d"
    by (cases "allowed d") auto
  then show "\<exists>st. run_and_show w example_ruleset i label prompt ctx call s =
      (Inr (), s\<lparr>printed := printed s @ outcome_line label d # (if allowed d then [stub_line call] else []), world := st\<rparr>) \<and>
      standing q' (ds @ [d]) st"
    using standing_extend [OF _ rs(3)] b(2) by fastforce
qed

lemma prints_decide: "prints (standing q ds) (decide_ahead cid b) [] (standing (set_decision cid b q) ds)"
  unfolding prints_def
proof (intro allI impI)
  fix s :: "'a demo_state script"
  assume "standing q ds (world s)"
  then have "standing (set_decision cid b q) ds ((world s)\<lparr>approval_state := set_decision cid b q\<rparr>)"
    "decide_ahead cid b s = (Inr (), s\<lparr>printed := printed s @ [], world := (world s)\<lparr>approval_state := set_decision cid b q\<rparr>\<rparr>)"
    by (auto simp: standing_def decide_ahead_def trail_def Let_def)
  then show "\<exists>st. decide_ahead cid b s = (Inr (), s\<lparr>printed := printed s @ [], world := st\<rparr>) \<and> standing (set_decision cid b q) ds st"
    by blast
qed

lemma prints_received:
  assumes "received q = seen @ [(ctx, req, d)]"
  shows "prints (standing q ds) show_received [payload_line req] (standing q ds)"
  unfolding prints_def
proof (intro allI impI)
  fix s :: "'a demo_state script"
  assume pre: "standing q ds (world s)"
  then have "show_received s = say [payload_line req] s"
    using assms by (simp add: standing_def show_received_def)
  with pre show "\<exists>st. show_received s = (Inr (), s\<lparr>printed := printed s @ [payload_line req], world := st\<rparr>) \<and>
      standing q ds st"
    by (intro exI [of _ "world s"]) (simp add: say_def)
qed

lemma prints_direct:
  assumes "find_injection_markers (mask prompt) = []"
    and "le_write_error (ce_log (re_call (dw_run w i) 0)) = None"
    and eval: "static_evaluate_tool_call demo_policy_env example_ruleset ctx (to_tool_request call) = Inr d"
    and "d = checks_passed \<or> \<not> allowed d"
  shows "prints (standing q ds) (run_and_show w example_ruleset i label prompt ctx call)
    (outcome_line label d # (if allowed d then [stub_line call] else [])) (standing q (ds @ [d]))"
  using assms(4) eval
  by (intro prints_scenario [OF assms(1,2)])
     (auto simp: demo_body_allowed demo_body_denied)

lemma prints_reviewed:
  assumes "find_injection_markers (mask prompt) = []"
    and "le_write_error (ce_log (re_call (dw_run w i) 0)) = None"
    and eval: "static_evaluate_tool_call demo_policy_env example_ruleset ctx (to_tool_request call) = Inr pending_approval"
    and d: "d = (if answer q (p_call_id call) then human_approved else human_refused)"
    and q': "q' = q\<lparr>received := received q @ [(ctx, to_tool_request call, pending_approval)]\<rparr>"
  shows "prints (standing q ds) (run_and_show w example_ruleset i label prompt ctx call)
    (outcome_line label d # (if allowed d then [stub_line call] else [])) (standing q' (ds @ [d]))"
proof -
  have id: "call_id (to_tool_request call) = p_call_id call" by (simp add: to_tool_request_def)
  have allow: "allowed human_approved" "\<not> allowed human_refused"
    by (simp_all add: human_approved_def human_refused_def)
  show ?thesis
    by (rule prints_scenario [OF assms(1,2)])
       (simp add: demo_body_reviewed [OF eval] id d q' allow Let_def)
qed

text \<open>The texts, evaluated.\<close>

lemma demo_texts:
  "outcome_line ''allowed'' checks_passed = ''  [allowed] allowed=True  reason=all policy checks passed''"
  "stub_line search_call = ''           sandbox stdout: ok: executed search_tool.query''"
  "outcome_line ''denied'' sql_denied = ''  [denied] allowed=False  reason='' @ reason sql_denied"
  "outcome_line ''approved'' human_approved =
     ''  [approved] allowed=True  reason=approved pending human-in-the-loop review; human-approved''"
  "stub_line (deploy_call ''v2.3.1'' ''demo-deploy-approved'') = ''           sandbox stdout: ok: executed deploy_tool.deploy''"
  "outcome_line ''denied-by-human'' human_refused =
     ''  [denied-by-human] allowed=False  reason=approval required but not granted''"
  "payload_line (to_tool_request (deploy_call ''v2.3.1'' ''demo-deploy-approved'')) = ''  Human reviewer saw the RAW payload: {'' @ squote ''environment''
    @ '': '' @ squote ''production'' @ '', '' @ squote ''version'' @ '': '' @ squote ''v2.3.1'' @ ''}''"
  "allowed checks_passed" "\<not> allowed sql_denied" "allowed human_approved" "\<not> allowed human_refused"
  by code_simp+

text \<open>The whole script up to its fourth banner.\<close>

lemma demo_calls_prints:
  assumes writes: "\<And>i. le_write_error (ce_log (re_call (dw_run w i) 0)) = None"
  shows "\<exists>q. prints (standing (approval_queue_init False) []) (demo_calls w example_ruleset)
    (tl (scenario_output (dw_path w))) (standing q [checks_passed, sql_denied, human_approved, human_refused])"
proof -
  let ?q0 = "approval_queue_init False"
  let ?c3 = "deploy_call ''v2.3.1'' ''demo-deploy-approved''"
  let ?c4 = "deploy_call ''v9.9.9-risky'' ''demo-deploy-denied''"
  define q1 where "q1 = set_decision ''demo-deploy-approved'' True ?q0"
  define q2 where "q2 = q1\<lparr>received := received q1 @ [(admin_ctx, to_tool_request ?c3, pending_approval)]\<rparr>"
  define q3 where "q3 = set_decision ''demo-deploy-denied'' False q2"
  define q4 where "q4 = q3\<lparr>received := received q3 @ [(admin_ctx, to_tool_request ?c4, pending_approval)]\<rparr>"
  have ids: "p_call_id (deploy_call v c) = c" for v c by (simp add: deploy_call_def)
  have "\<not> allowed sql_denied" by (simp add: sql_denied_def)
  note p2 = prints_direct [OF demo_prompts(2) writes demo_decisions(2) disjI2 [OF this]]
  note p1 = prints_direct [OF demo_prompts(1) writes demo_decisions(1) disjI1 [OF refl]]
  have p3: "prints (standing q1 ds) (run_and_show w example_ruleset 2 label ''Deploy v2.3.1 to production'' admin_ctx ?c3)
      (outcome_line label human_approved # (if allowed human_approved then [stub_line ?c3] else []))
      (standing q2 (ds @ [human_approved]))" for ds label
    by (rule prints_reviewed [OF demo_prompts(3) writes demo_decisions(3)]) (simp_all add: ids q1_def q2_def)
  have p4: "prints (standing q3 ds) (run_and_show w example_ruleset 3 label ''Deploy v9.9.9-risky to production'' admin_ctx ?c4)
      (outcome_line label human_refused # (if allowed human_refused then [stub_line ?c4] else []))
      (standing q4 (ds @ [human_refused]))" for ds label
    by (rule prints_reviewed [OF demo_prompts(4) writes demo_decisions(3)]) (simp_all add: ids q3_def q4_def)
  have seen: "received q2 = [] @ [(admin_ctx, to_tool_request ?c3, pending_approval)]"
    by (simp add: q2_def q1_def set_decision_def approval_queue_init_def)
  have d1: "prints (standing ?q0 ds) (decide_ahead ''demo-deploy-approved'' True) [] (standing q1 ds)" for ds
    unfolding q1_def by (rule prints_decide)
  have d2: "prints (standing q2 ds) (decide_ahead ''demo-deploy-denied'' False) [] (standing q3 ds)" for ds
    unfolding q3_def by (rule prints_decide)
  note calls = prints_then [OF prints_say prints_then [OF p1 prints_then [OF prints_say prints_then [OF p2
    prints_then [OF prints_say prints_then [OF d1 prints_then [OF p3 prints_then [OF prints_received [OF seen]
    prints_then [OF prints_say prints_then [OF d2 prints_then [OF p4 prints_say]]]]]]]]]]]
  have "prints (standing ?q0 []) (demo_calls w example_ruleset) (tl (scenario_output (dw_path w)))
      (standing q4 [checks_passed, sql_denied, human_approved, human_refused])"
    unfolding demo_calls_def
    by (rule prints_eq [OF calls])
       (simp_all only: scenario_output_def demo_texts if_True if_False append.simps list.sel)
  then show ?thesis by blast
qed

lemma demo_scenarios_prints:
  assumes load: "load_ruleset (dw_loader w) (dw_policy_path w) = Inr example_ruleset"
    and writes: "\<And>i. le_write_error (ce_log (re_call (dw_run w i) 0)) = None"
  shows "\<exists>q. prints (standing (approval_queue_init False) []) (demo_scenarios w) (scenario_output (dw_path w))
    (standing q [checks_passed, sql_denied, human_approved, human_refused])"
proof -
  obtain q where "prints (standing (approval_queue_init False) []) (demo_calls w example_ruleset)
      (tl (scenario_output (dw_path w))) (standing q [checks_passed, sql_denied, human_approved, human_refused])"
    using demo_calls_prints [OF writes] by blast
  from prints_then [OF prints_say prints_value [OF load, where f = "demo_calls w", OF this],
      of "[''Audit log: '' @ dw_path w]"]
  have "prints (standing (approval_queue_init False) []) (demo_scenarios w) (scenario_output (dw_path w))
      (standing q [checks_passed, sql_denied, human_approved, human_refused])"
    by (simp only: demo_scenarios_def scenario_output_def list.sel append.simps)
  then show ?thesis by blast
qed

lemma demo_start_standing:
  assumes "open_logger json_codec None None True [] = Inr lg"
  shows "standing (approval_queue_init False) [] (world (demo_start lg))" and "printed (demo_start lg) = []"
proof -
  have "log_sinks lg = []" using assms by (auto simp: open_logger_def load_last_hash_def)
  then show "standing (approval_queue_init False) [] (world (demo_start lg))"
    using log_reach.fresh [OF assms] by (simp add: demo_start_def standing_def trail_def catchable_sinks_def)
qed (simp add: demo_start_def)

section \<open>Properties\<close>

text \<open>
  C19: The demonstration confirms what it announces: over any clocks and identifiers, as long as its
  writes succeed and the policy file loads as the example rule set, the script returns after printing one allowed call, one call denied for its SQL,
  one approved and one refused deployment with the payload that the reviewer saw, four records, a
  chain that verifies, and, after the edit of the second line on disk, a chain that breaks at
  exactly that line; otherwise that record and its edit are a collision of SHA-256.
\<close>

theorem demo_confirms:
  assumes "\<forall>i. le_write_error (ce_log (re_call (dw_run w i) 0)) = None"
    and "open_logger json_codec None None True [] = Inr lg"
    and "load_ruleset (dw_loader w) (dw_policy_path w) = Inr example_ruleset"
  shows "\<exists>rs. log_reach json_codec wf_record (audit_log (world (snd (demo_scenarios w (demo_start lg))))) rs \<and>
    map rec_decision rs = map decision_dump [checks_passed, sql_denied, human_approved, human_refused] \<and>
    ((\<exists>s. demo_main w (demo_start lg) = (Inr (), s) \<and>
        printed s = scenario_output (dw_path w) @ tamper_output (dw_path w)) \<or>
     collision (hashed_bytes (prev_hash (rs ! 1)) (flipped sql_denied (rs ! 1)))
       (hashed_bytes (prev_hash (rs ! 1)) (rs ! 1)))"
proof -
  obtain q where "prints (standing (approval_queue_init False) []) (demo_scenarios w) (scenario_output (dw_path w))
      (standing q [checks_passed, sql_denied, human_approved, human_refused])"
    using demo_scenarios_prints [OF assms(3)] assms(1) by blast
  then obtain st where run: "demo_scenarios w (demo_start lg) =
      (Inr (), (demo_start lg)\<lparr>printed := scenario_output (dw_path w), world := st\<rparr>)"
    and "standing q [checks_passed, sql_denied, human_approved, human_refused] st"
    using demo_start_standing [OF assms(2)] by (auto simp: prints_def)
  then obtain rs where rs: "log_reach json_codec wf_record (audit_log st) rs"
    "map rec_decision rs = map decision_dump [checks_passed, sql_denied, human_approved, human_refused]"
    by (auto simp: standing_def trail_def)
  have len: "length rs = 4" using arg_cong [OF rs(2), of length] by simp
  have "map rec_decision rs ! 1 = decision_dump sql_denied" unfolding rs(2) by simp
  then have dec: "rec_decision (rs ! 1) = decision_dump sql_denied" using len by simp
  show ?thesis
    using rs audit_and_tamper_outcome [of "(demo_start lg)\<lparr>printed := scenario_output (dw_path w), world := st\<rparr>" rs sql_denied w]
      len dec by (intro exI [of _ rs]) (auto simp: run demo_main_def and_then_Inr)
qed

definition sample_demo_world :: demo_world where
  "sample_demo_world =
     \<lparr>dw_clock = (\<lambda>n. (0, fl (1 / 3))),
      dw_run = (\<lambda>i. \<lparr>re_now = 0, re_call = (\<lambda>j. sample_call_env)\<rparr>),
      dw_path = ''/tmp/aimw_demo_0/audit.jsonl'',
      dw_loader = \<lparr>read_text = Inr, safe_load = (\<lambda>content. Inr PNone),
                   model_validate = (\<lambda>raw. Inr example_ruleset)\<rparr>,
      dw_policy_path = ''configs/policy.example.yaml''\<rparr>"

theorem demo_confirms_witness:
  "\<exists>rs. length rs = 4 \<and>
    ((\<exists>s. demo_main sample_demo_world (demo_start sample_logger) = (Inr (), s) \<and>
        last (printed s) = CHR 0x0A # ''Tamper-evidence confirmed: the hash chain detected the modification.'') \<or>
     collision (hashed_bytes (prev_hash (rs ! 1)) (flipped sql_denied (rs ! 1)))
       (hashed_bytes (prev_hash (rs ! 1)) (rs ! 1)))"
proof -
  have "\<forall>i. le_write_error (ce_log (re_call (dw_run sample_demo_world i) 0)) = None"
    by (simp add: sample_demo_world_def sample_call_env_def sample_log_env_def)
  moreover have "open_logger json_codec None None True [] = Inr sample_logger"
    by (simp add: open_logger_def load_last_hash_def sample_logger_def)
  moreover have "load_ruleset (dw_loader sample_demo_world) (dw_policy_path sample_demo_world) = Inr example_ruleset"
    by (simp add: sample_demo_world_def load_ruleset_def)
  ultimately obtain rs where rs: "map rec_decision rs = map decision_dump [checks_passed, sql_denied, human_approved, human_refused]"
    "(\<exists>s. demo_main sample_demo_world (demo_start sample_logger) = (Inr (), s) \<and>
        printed s = scenario_output (dw_path sample_demo_world) @ tamper_output (dw_path sample_demo_world)) \<or>
     collision (hashed_bytes (prev_hash (rs ! 1)) (flipped sql_denied (rs ! 1)))
       (hashed_bytes (prev_hash (rs ! 1)) (rs ! 1))"
    using demo_confirms [of sample_demo_world sample_logger] by blast
  have "length rs = 4" using arg_cong [OF rs(1), of length] by simp
  with rs(2) show ?thesis by (intro exI [of _ rs]) (auto simp: tamper_output_def)
qed

end
