(* ===== verification/ShellWords.thy ===== *)
theory ShellWords
  imports Prelude
begin

text \<open>
  \<open>DockerSandbox.format_command_for_log\<close>: \<open>shlex.join\<close> of the standard library, which quotes every argument
  for a POSIX shell. \<open>shell_words\<close> is the specification: how a shell splits a line into words (POSIX
  shell command language, 2.2 and 2.3), giving up on every character that would mean more to it
  than itself. The line of a command reads back as exactly its arguments, so no argument can end
  its word, start another command or expand.
\<close>

section \<open>Quoting\<close>

text \<open>\<open>[\w@%+=:,./-]\<close> with \<open>re.ASCII\<close>.\<close>

definition shell_safe :: "char \<Rightarrow> bool" where
  "shell_safe c \<longleftrightarrow>
     (let n = (of_char c :: nat) in
      48 \<le> n \<and> n \<le> 57 \<or> 65 \<le> n \<and> n \<le> 90 \<or> 97 \<le> n \<and> n \<le> 122) \<or> c \<in> set ''_@%+=:,./-''"

text \<open>\<open>s.replace(Q, QDQDQ)\<close> for the single quote \<open>Q\<close> and the double quote \<open>D\<close>.\<close>

definition escape_quotes :: "string \<Rightarrow> string" where
  "escape_quotes s =
     concat (map (\<lambda>c. if c = CHR 0x27 then [CHR 0x27, CHR 0x22, CHR 0x27, CHR 0x22, CHR 0x27] else [c]) s)"

definition shlex_quote :: "string \<Rightarrow> string" where
  "shlex_quote s =
     (if s = [] then [CHR 0x27, CHR 0x27]
      else if list_all shell_safe s then s
      else [CHR 0x27] @ escape_quotes s @ [CHR 0x27])"

definition shlex_join :: "string list \<Rightarrow> string" where
  "shlex_join command = join '' '' (map shlex_quote command)"

definition format_command_for_log :: "string list \<Rightarrow> string" where
  "format_command_for_log command = shlex_join command"


section \<open>How a shell reads a line\<close>

text \<open>
  The characters that a shell gives a meaning of their own: operators, expansions, quotes, blanks,
  patterns, comments.
\<close>

definition shell_special :: "char \<Rightarrow> bool" where
  "shell_special c \<longleftrightarrow>
     c \<in> set (''|&;<>()$*?[]#~!{}^'' @ [CHR 0x20, CHR 0x09, CHR 0x0A, CHR 0x0D, CHR 0x27, CHR 0x22, CHR 0x5C, CHR 0x60])"

text \<open>Between words, in a word, between single quotes, between double quotes.\<close>

datatype quoting = Between | Bare | Single | Double

fun shell_words :: "quoting \<Rightarrow> string \<Rightarrow> string \<Rightarrow> string list option" where
  "shell_words Between w [] = Some []"
| "shell_words Bare w [] = Some [w]"
| "shell_words Single w [] = None"
| "shell_words Double w [] = None"
| "shell_words Between w (c # cs) =
     (if c = CHR 0x20 then shell_words Between [] cs
      else if c = CHR 0x27 then shell_words Single [] cs
      else if c = CHR 0x22 then shell_words Double [] cs
      else if shell_special c then None
      else shell_words Bare [c] cs)"
| "shell_words Bare w (c # cs) =
     (if c = CHR 0x20 then map_option ((#) w) (shell_words Between [] cs)
      else if c = CHR 0x27 then shell_words Single w cs
      else if c = CHR 0x22 then shell_words Double w cs
      else if shell_special c then None
      else shell_words Bare (w @ [c]) cs)"
| "shell_words Single w (c # cs) =
     (if c = CHR 0x27 then shell_words Bare w cs else shell_words Single (w @ [c]) cs)"
| "shell_words Double w (c # cs) =
     (if c = CHR 0x22 then shell_words Bare w cs
      else if c \<in> {CHR 0x24, CHR 0x60, CHR 0x5C} then None
      else shell_words Double (w @ [c]) cs)"


section \<open>The round trip\<close>

lemma safe_plain: "shell_safe c \<Longrightarrow> \<not> shell_special c"
  by (auto simp: shell_safe_def shell_special_def Let_def)

lemma special_quotes: "shell_special (CHR 0x20)" "shell_special (CHR 0x27)" "shell_special (CHR 0x22)"
  by (simp_all add: shell_special_def)

lemma plain_step:
  assumes "\<not> shell_special c"
  shows "shell_words Bare w (c # cs) = shell_words Bare (w @ [c]) cs"
    and "shell_words Between [] (c # cs) = shell_words Bare [c] cs"
  using assms special_quotes by auto

lemma bare_word:
  "list_all shell_safe s \<Longrightarrow> shell_words Bare w (s @ rest) = shell_words Bare (w @ s) rest"
  by (induction s arbitrary: w) (simp_all add: safe_plain plain_step del: shell_words.simps)

lemma escape_quotes_simps [simp]:
  "escape_quotes [] = []"
  "escape_quotes (c # cs) =
     (if c = CHR 0x27 then [CHR 0x27, CHR 0x22, CHR 0x27, CHR 0x22, CHR 0x27] else [c]) @ escape_quotes cs"
  by (simp_all add: escape_quotes_def)

lemma single_quoted:
  "shell_words Single w (escape_quotes s @ CHR 0x27 # rest) = shell_words Bare (w @ s) rest"
  by (induction s arbitrary: w) auto

text \<open>A quoted argument is one word, whatever stands behind it.\<close>

lemma quoted_word: "shell_words Between [] (shlex_quote s @ rest) = shell_words Bare s rest"
proof (cases "s \<noteq> [] \<and> list_all shell_safe s")
  case True
  then obtain c cs where s: "s = c # cs" "shell_safe c" "list_all shell_safe cs" by (cases s) auto
  then show ?thesis
    using bare_word [of cs "[c]" rest] by (simp add: shlex_quote_def safe_plain plain_step del: shell_words.simps)
next
  case False
  then show ?thesis using single_quoted [of "[]" s rest] by (auto simp: shlex_quote_def)
qed

text \<open>
  C38: The logged line of a command is unambiguous and harmless: split as a shell splits it, it gives
  back exactly the arguments of the command, whatever characters they hold; a character with a
  meaning for the shell occurs in it only between quotes.
\<close>

theorem logged_command_reads_back:
  "shell_words Between [] (format_command_for_log command) = Some command"
  unfolding format_command_for_log_def shlex_join_def
proof (induction command rule: induct_list012)
  case (2 x)
  then show ?case using quoted_word [of x "[]"] by simp
next
  case (3 x y zs)
  then show ?case using quoted_word [of x "CHR 0x20 # join '' '' (map shlex_quote (y # zs))"] by simp
qed simp

end
