(* ===== verification/Tasks.thy ===== *)
theory Tasks
  imports Main
begin

text \<open>
  Concurrent tasks of one event loop. A task is a description of what is to be done and the stage it has
  reached; \<open>adv\<close> is what it does from one await to the next, and \<open>task_step\<close> lets any task that has not
  ended go on, on the state that all tasks share. The locale \<open>tasks\<close> asks for a measure that every advance
  decreases and proves once what the handlers of calls (\<open>Concurrency\<close>) and the runs of a
  pipeline (\<open>ConcurrentRuns\<close>) both need: induction over schedules, invariants of stages and state,
  what brought a task to its stage, that a task may run alone, that no schedule goes on for ever (every await answering).
\<close>

inductive task_step ::
  "('c \<Rightarrow> 's \<Rightarrow> 'g \<Rightarrow> 's \<times> 'g) \<Rightarrow> ('s \<Rightarrow> bool) \<Rightarrow> 'c list \<Rightarrow> 's list \<times> 'g \<Rightarrow> 's list \<times> 'g \<Rightarrow> bool"
  for adv ended cs where
  task_stepI: "i < length cs \<Longrightarrow> i < length ts \<Longrightarrow> \<not> ended (ts ! i) \<Longrightarrow>
    adv (cs ! i) (ts ! i) g = (s', g') \<Longrightarrow> task_step adv ended cs (ts, g) (ts[i := s'], g')"

inductive_cases task_stepE: "task_step adv ended cs (ts, g) (ts', g')"

text \<open>A task that is not interleaved with others, for a number of steps.\<close>

fun advance_n :: "('c \<Rightarrow> 's \<Rightarrow> 'g \<Rightarrow> 's \<times> 'g) \<Rightarrow> nat \<Rightarrow> 'c \<Rightarrow> 's \<times> 'g \<Rightarrow> 's \<times> 'g" where
  "advance_n adv 0 c conf = conf"
| "advance_n adv (Suc n) c (s, g) = advance_n adv n c (adv c s g)"

lemma advance_n_Suc_right:
  "advance_n adv (Suc n) c (s, g) = (case advance_n adv n c (s, g) of (s', g') \<Rightarrow> adv c s' g')"
proof (induction n arbitrary: s g)
  case (Suc n)
  obtain s' g' where "adv c s g = (s', g')" by fastforce
  then show ?case using Suc.IH [of s' g'] by simp
qed (simp split: prod.split)

text \<open>A value that differs at the ends of a schedule changes in one of its steps.\<close>

lemma changes_at_step:
  assumes "r\<^sup>*\<^sup>* a b" and "f a \<noteq> f b"
  shows "\<exists>c d. r\<^sup>*\<^sup>* a c \<and> r c d \<and> f c \<noteq> f d"
  using assms
proof (induction rule: rtranclp_induct)
  case (step b c)
  then show ?case by (cases "f a = f b") auto
qed simp

text \<open>What holds at the end of a schedule, and not at its start, has come to hold by one of its steps.\<close>

lemma enters_at_step:
  assumes "r\<^sup>*\<^sup>* a b" and "\<not> H a" and "H b"
  shows "\<exists>c d. r\<^sup>*\<^sup>* a c \<and> \<not> H c \<and> r c d \<and> H d \<and> r\<^sup>*\<^sup>* d b"
  using assms
proof (induction rule: rtranclp_induct)
  case (step b b')
  show ?case
  proof (cases "H b")
    case True
    then show ?thesis using step by (meson rtranclp.rtrancl_into_rtrancl)
  qed (use step in blast)
qed simp

definition task_sum :: "('s \<Rightarrow> nat) \<Rightarrow> 's list \<Rightarrow> nat" where
  "task_sum left ts = sum_list (map left ts)"

lemma task_sum_update: "i < length ts \<Longrightarrow> task_sum left (ts[i := s]) + left (ts ! i) = task_sum left ts + left s"
  unfolding task_sum_def by (induction ts arbitrary: i) (auto simp: nth_Cons split: nat.split)

lemma task_sum_replicate: "task_sum left (replicate n s) = n * left s"
  by (simp add: task_sum_def sum_list_replicate)

locale tasks =
  fixes adv :: "'c \<Rightarrow> 's \<Rightarrow> 'g \<Rightarrow> 's \<times> 'g" and ended :: "'s \<Rightarrow> bool" and left :: "'s \<Rightarrow> nat"
  assumes ended_left: "left s = 0 \<longleftrightarrow> ended s"
    and advance_left: "\<not> ended s \<Longrightarrow> left (fst (adv c s g)) < left s"
    and ended_stays: "ended s \<Longrightarrow> adv c s g = (s, g)"
begin

lemma steps_induct:
  assumes "(task_step adv ended cs)\<^sup>*\<^sup>* (ts0, g0) conf" and "P ts0 g0"
    and "\<And>ts g i s' g'. (task_step adv ended cs)\<^sup>*\<^sup>* (ts0, g0) (ts, g) \<Longrightarrow> P ts g \<Longrightarrow> i < length cs \<Longrightarrow>
      i < length ts \<Longrightarrow> \<not> ended (ts ! i) \<Longrightarrow> adv (cs ! i) (ts ! i) g = (s', g') \<Longrightarrow> P (ts[i := s']) g'"
  shows "P (fst conf) (snd conf)"
  using assms(1)
proof (induction rule: rtranclp_induct)
  case base
  then show ?case using assms(2) by simp
next
  case (step conf conf')
  obtain ts g where c: "conf = (ts, g)" by fastforce
  obtain ts' g' where c': "conf' = (ts', g')" by fastforce
  have P: "P ts g" using step.IH by (simp add: c)
  from step.hyps(2) [unfolded c c'] obtain i s' where "i < length cs" "i < length ts"
    "\<not> ended (ts ! i)" "adv (cs ! i) (ts ! i) g = (s', g')" "ts' = ts[i := s']"
    by (elim task_stepE) blast
  with assms(3) [OF step.hyps(1) [unfolded c] P] c' show ?case by simp
qed

lemma steps_length: "(task_step adv ended cs)\<^sup>*\<^sup>* (ts0, g0) (ts, g) \<Longrightarrow> length ts = length ts0"
  by (induction "(ts, g)" arbitrary: ts g rule: rtranclp_induct) (auto elim!: task_stepE)

text \<open>
  An invariant of the shared state together with one of the tasks, kept by every advance of a task in
  any state of the first: the second holds of every task, whatever the others do.
\<close>

lemma steps_invariant:
  assumes "(task_step adv ended cs)\<^sup>*\<^sup>* (ts0, g0) (ts, g)" and "Q g0"
    and "\<And>i. i < length cs \<Longrightarrow> i < length ts0 \<Longrightarrow> P (cs ! i) (ts0 ! i)"
    and "\<And>c s g. c \<in> set cs \<Longrightarrow> Q g \<Longrightarrow> P c s \<Longrightarrow> Q (snd (adv c s g)) \<and> P c (fst (adv c s g))"
  shows "Q g" and "i < length cs \<Longrightarrow> i < length ts \<Longrightarrow> P (cs ! i) (ts ! i)"
proof -
  have "Q (snd (ts, g)) \<and> (\<forall>i < length cs. i < length (fst (ts, g)) \<longrightarrow> P (cs ! i) (fst (ts, g) ! i))"
    using assms(1)
  proof (rule steps_induct)
    show "Q g0 \<and> (\<forall>i < length cs. i < length ts0 \<longrightarrow> P (cs ! i) (ts0 ! i))" using assms(2,3) by simp
  next
    fix ts g j s' g'
    assume h: "Q g \<and> (\<forall>i < length cs. i < length ts \<longrightarrow> P (cs ! i) (ts ! i))" "j < length cs" "j < length ts"
      "adv (cs ! j) (ts ! j) g = (s', g')"
    then have "Q g' \<and> P (cs ! j) s'" using assms(4) [of "cs ! j" g "ts ! j"] by simp
    with h show "Q g' \<and> (\<forall>i < length cs. i < length (ts[j := s']) \<longrightarrow> P (cs ! i) (ts[j := s'] ! i))"
      by (auto simp: nth_list_update)
  qed
  then show "Q g" "i < length cs \<Longrightarrow> i < length ts \<Longrightarrow> P (cs ! i) (ts ! i)" by auto
qed

lemma advance_n_ended: "ended s \<Longrightarrow> advance_n adv n c (s, g) = (s, g)"
  by (induction n) (simp_all add: ended_stays)

text \<open>A task run to its end: more steps than are left change nothing.\<close>

lemma advance_n_enough: "left s \<le> n \<Longrightarrow> advance_n adv n c (s, g) = advance_n adv (left s) c (s, g)"
proof (induction n arbitrary: s g rule: less_induct)
  case (less n)
  show ?case
  proof (cases "ended s")
    case True
    then show ?thesis by (simp add: advance_n_ended)
  next
    case False
    obtain s' g' where adv: "adv c s g = (s', g')" by fastforce
    obtain k where k: "left s = Suc k" using False ended_left [of s] by (cases "left s") auto
    obtain m where m: "n = Suc m" "k \<le> m" using less.prems k by (cases n) auto
    have "left s' \<le> k" using advance_left [OF False, of c g] by (simp add: adv k)
    then have "advance_n adv m c (s', g') = advance_n adv k c (s', g')"
      using less.IH [of m s' g'] less.IH [of k s' g'] m by auto
    then show ?thesis by (simp add: adv k m)
  qed
qed

lemma to_end_step: "advance_n adv (left s) c (s, g) = (case adv c s g of (s', g') \<Rightarrow> advance_n adv (left s') c (s', g'))"
proof (cases "ended s")
  case True
  then show ?thesis by (simp add: ended_stays advance_n_ended)
next
  case False
  obtain s' g' where adv: "adv c s g = (s', g')" by fastforce
  obtain k where k: "left s = Suc k" using False ended_left [of s] by (cases "left s") auto
  have "left s' \<le> k" using advance_left [OF False, of c g] by (simp add: adv k)
  then show ?thesis using advance_n_enough [of s' k c g'] by (simp add: adv k)
qed

text \<open>One task may go on alone.\<close>

lemma steps_alone:
  assumes "i < length cs" and "i < length ts" and "advance_n adv n (cs ! i) (ts ! i, g) = (s', g')"
  shows "(task_step adv ended cs)\<^sup>*\<^sup>* (ts, g) (ts[i := s'], g')"
  using assms(2,3)
proof (induction n arbitrary: ts g)
  case 0
  then have "ts[i := s'] = ts" "g' = g" by (simp_all add: list_update_same_conv)
  then show ?case by simp
next
  case (Suc n)
  obtain s1 g1 where adv: "adv (cs ! i) (ts ! i) g = (s1, g1)" by fastforce
  show ?case
  proof (cases "ended (ts ! i)")
    case True
    with Suc.prems have "s' = ts ! i" "g' = g" by (simp_all add: advance_n_ended ended_stays)
    then show ?thesis by simp
  next
    case False
    have "task_step adv ended cs (ts, g) (ts[i := s1], g1)"
      using assms(1) Suc.prems(1) False adv by (rule task_stepI)
    also have "(task_step adv ended cs)\<^sup>*\<^sup>* \<dots> (ts[i := s1, i := s'], g')"
      using Suc.IH [of "ts[i := s1]" g1] Suc.prems adv by simp
    finally show ?thesis by simp
  qed
qed

text \<open>
  The history of a stage: if a task is at a stage that it was not at when the schedule began, it has been
  brought there by an advance of its own, in a configuration that lies on the schedule.
\<close>

lemma task_enters:
  assumes "(task_step adv ended cs)\<^sup>*\<^sup>* (ts0, g0) (ts, g)" and "\<not> H (ts0 ! i)" and "H (ts ! i)"
  shows "\<exists>ts1 g1 s' g1'. (task_step adv ended cs)\<^sup>*\<^sup>* (ts0, g0) (ts1, g1) \<and>
           i < length cs \<and> i < length ts1 \<and> \<not> H (ts1 ! i) \<and> \<not> ended (ts1 ! i) \<and>
           adv (cs ! i) (ts1 ! i) g1 = (s', g1') \<and> H s' \<and>
           (task_step adv ended cs)\<^sup>*\<^sup>* (ts1[i := s'], g1') (ts, g) \<and>
           (task_step adv ended cs)\<^sup>*\<^sup>* (ts1, g1) (ts, g)"
proof -
  from enters_at_step [where H = "\<lambda>conf. H (fst conf ! i)", OF assms(1)] assms(2,3)
  obtain ts1 g1 ts2 g2 where path: "(task_step adv ended cs)\<^sup>*\<^sup>* (ts0, g0) (ts1, g1)" "\<not> H (ts1 ! i)"
    "H (ts2 ! i)" "(task_step adv ended cs)\<^sup>*\<^sup>* (ts2, g2) (ts, g)"
    and step: "task_step adv ended cs (ts1, g1) (ts2, g2)" by auto
  from step obtain j s' where j: "j < length cs" "j < length ts1" "\<not> ended (ts1 ! j)"
    "adv (cs ! j) (ts1 ! j) g1 = (s', g2)" "ts2 = ts1[j := s']" by (elim task_stepE) blast
  moreover from this path(2,3) have "j = i" by (cases "j = i") simp_all
  ultimately show ?thesis
    using path converse_rtranclp_into_rtranclp [of "task_step adv ended cs", OF step path(4)]
    by (intro exI [of _ ts1] exI [of _ g1] exI [of _ s'] exI [of _ g2]) simp
qed

text \<open>What the tasks have left bounds the steps of any schedule.\<close>

lemma step_left: "task_step adv ended cs (ts, g) (ts', g') \<Longrightarrow> task_sum left ts' < task_sum left ts"
proof (elim task_stepE)
  fix i s'
  assume i: "i < length ts" "\<not> ended (ts ! i)" and ts': "ts' = ts[i := s']"
    and adv: "adv (cs ! i) (ts ! i) g = (s', g')"
  have "left s' < left (ts ! i)" using advance_left [OF i(2), of "cs ! i" g] by (simp add: adv)
  then show "task_sum left ts' < task_sum left ts" using task_sum_update [OF i(1), of left s'] ts' by simp
qed

lemma steps_left:
  "(task_step adv ended cs ^^ n) (ts, g) (ts', g') \<Longrightarrow> n + task_sum left ts' \<le> task_sum left ts"
proof (induction n arbitrary: ts' g')
  case (Suc n)
  then obtain ts1 g1 where "(task_step adv ended cs ^^ n) (ts, g) (ts1, g1)"
    "task_step adv ended cs (ts1, g1) (ts', g')" by auto
  then show ?case using Suc.IH step_left by fastforce
qed auto

text \<open>The tasks are stuck only when each of them has ended.\<close>

lemma stuck_iff:
  assumes "length ts = length cs"
  shows "(\<nexists>conf. task_step adv ended cs (ts, g) conf) \<longleftrightarrow> (\<forall>s \<in> set ts. ended s)"
proof
  assume stuck: "\<nexists>conf. task_step adv ended cs (ts, g) conf"
  show "\<forall>s \<in> set ts. ended s"
  proof (rule ccontr)
    assume "\<not> (\<forall>s \<in> set ts. ended s)"
    then obtain i where i: "i < length ts" "\<not> ended (ts ! i)" by (auto simp: in_set_conv_nth)
    obtain s' g' where "adv (cs ! i) (ts ! i) g = (s', g')" by fastforce
    with task_stepI [of i cs ts ended adv g s' g'] i assms stuck show False by auto
  qed
next
  assume "\<forall>s \<in> set ts. ended s"
  then show "\<nexists>conf. task_step adv ended cs (ts, g) conf" by (auto elim!: task_step.cases)
qed

lemma schedule_ends:
  assumes "(task_step adv ended cs ^^ n) (replicate (length cs) s0, g0) (ts, g)"
  shows "n \<le> left s0 * length cs \<and>
    ((\<nexists>conf. task_step adv ended cs (ts, g) conf) \<longleftrightarrow> (\<forall>s \<in> set ts. ended s))"
proof -
  have "length ts = length cs" using steps_length [OF relpowp_imp_rtranclp [OF assms]] by simp
  moreover have "n \<le> left s0 * length cs"
    using steps_left [OF assms] by (simp add: task_sum_replicate mult.commute)
  ultimately show ?thesis using stuck_iff by blast
qed

end

end
