(* ===== verification/Concurrency.thy ===== *)
theory Concurrency
  imports InterceptorProps Tasks "HOL-Library.Multiset"
begin

text \<open>
  Handled calls that run as concurrent tasks of one event loop. \<open>handle\<close> of \<^verbatim>\<open>interceptor.py\<close> can be
  suspended wherever it awaits: at the breaker's check, the policy engine, the approval callback,
  the sandbox and the breaker's record. \<open>stage\<close> is where a task stands between two awaits, \<open>advance\<close>
  what it does up to the next one, and \<open>step\<close> lets any unfinished task go on; the tasks share the
  interceptor's state. Schedules, their measure and their invariants come from the locale \<open>tasks\<close>. The record is written where the code writes it, in a step of its own that
  nothing interrupts. A cancelled await is an outcome of the awaited part, as in \<open>Interceptor\<close>.

  A task that runs alone is \<open>handle\<close>. The lemmas show what of the sequential properties survives
  every interleaving (who enters the sandbox, what is logged, that the tasks end) and what does
  not (the bound of the circuit breaker on failing calls).
\<close>

datatype stage =
    Waiting
  | Admitted
  | Decided policy_decision
  | Resolved policy_decision
  | Executed policy_decision sandbox_result
  | Ending "exn option" policy_decision "sandbox_result option"
  | Finished "interceptor_result result"

type_synonym call = "call_env \<times> execution_context \<times> tool_request"

fun advance ::
  "('s, 'a, 'x) interceptor \<Rightarrow> call \<Rightarrow> stage \<Rightarrow> ('s, 'a, 'x) istate \<Rightarrow> stage \<times> ('s, 'a, 'x) istate" where
  "advance ic (env, ctx, req) Waiting st =
     (case breaker_rejects ic (ce_check_now env) ctx req (breaker_state st) of
        (Inl e, bs) \<Rightarrow> (Finished (Inl e), st\<lparr>breaker_state := bs\<rparr>)
      | (Inr True, bs) \<Rightarrow>
          (Ending None (breaker_open_decision ctx req) None, st\<lparr>breaker_state := bs\<rparr>)
      | (Inr False, bs) \<Rightarrow> (Admitted, st\<lparr>breaker_state := bs\<rparr>))"
| "advance ic (env, ctx, req) Admitted st =
     (case evaluate_decision ic ctx req of
        Inl e \<Rightarrow> (Ending (Some e) unresolved None, st)
      | Inr d \<Rightarrow> (Decided d, st))"
| "advance ic (env, ctx, req) (Decided d) st =
     (if allowed d then
        (case safely_resolve_action_requirements ic ctx req d (approval_state st) of
           (Inl e, ap) \<Rightarrow> (Ending (Some e) d None, st\<lparr>approval_state := ap\<rparr>)
         | (Inr d', ap) \<Rightarrow> (Resolved d', st\<lparr>approval_state := ap\<rparr>))
      else (Ending None d None, st))"
| "advance ic (env, ctx, req) (Resolved d) st =
     (if allowed d then
        (case execute_sandboxed ic (ce_span env) ctx req (sandbox_state st) of
           (Inl e, x) \<Rightarrow> (Ending (Some e) d None, st\<lparr>sandbox_state := x\<rparr>)
         | (Inr r, x) \<Rightarrow> (Executed d r, st\<lparr>sandbox_state := x\<rparr>))
      else (Ending None d None, st))"
| "advance ic (env, ctx, req) (Executed d r) st =
     (case record_circuit_breaker_outcome ic (ce_record_now env) ctx req r (breaker_state st) of
        (Inl e, bs) \<Rightarrow> (Ending (Some e) d (Some r), st\<lparr>breaker_state := bs\<rparr>)
      | (Inr _, bs) \<Rightarrow> (Ending None d (Some r), st\<lparr>breaker_state := bs\<rparr>))"
| "advance ic (env, ctx, req) (Ending pending d sr) st =
     (case audit_and_wrap ic (ce_log env) ctx req d sr st of
        (Inl e, st') \<Rightarrow> (Finished (Inl e), st')
      | (Inr res, st') \<Rightarrow>
          (Finished (case pending of None \<Rightarrow> Inr res | Some e \<Rightarrow> Inl e), st'))"
| "advance ic (env, ctx, req) (Finished r) st = (Finished r, st)"

definition is_finished :: "stage \<Rightarrow> bool" where
  "is_finished s = (case s of Finished r \<Rightarrow> True | _ \<Rightarrow> False)"

text \<open>Task \<open>i\<close> is call \<open>i\<close>; a configuration is the tasks' stages and the shared state.\<close>

abbreviation step where
  "step ic calls \<equiv> task_step (advance ic) is_finished calls"

lemmas go_on = task_stepI [of _ _ _ is_finished "advance ic" for ic]

lemmas stepE = task_stepE [of "advance ic" is_finished for ic]

definition starting :: "call list \<Rightarrow> stage list" where
  "starting calls = replicate (length calls) Waiting"

abbreviation reach where
  "reach ic calls st0 \<equiv> (step ic calls)\<^sup>*\<^sup>* (starting calls, st0)"


section \<open>A task on its own\<close>

text \<open>At most six steps; the measure counts those that are left.\<close>

fun left :: "stage \<Rightarrow> nat" where
  "left Waiting = 6" | "left Admitted = 5" | "left (Decided d) = 4" | "left (Resolved d) = 3"
| "left (Executed d r) = 2" | "left (Ending p d sr) = 1" | "left (Finished r) = 0"

lemma left_0: "left s = 0 \<longleftrightarrow> is_finished s"
  by (cases s) (simp_all add: is_finished_def)

lemma advance_left: "\<not> is_finished s \<Longrightarrow> left (fst (advance ic c s st)) < left s"
  by (cases c; cases s)
     (auto simp: is_finished_def split: sum.split prod.split bool.split)

lemma advance_Finished [simp]: "advance ic c (Finished r) st = (Finished r, st)"
  by (cases c) simp

interpretation handler: tasks "advance ic" is_finished left for ic :: "('s, 'a, 'x) interceptor"
  by unfold_locales (auto simp: left_0 advance_left is_finished_def split: stage.splits)

abbreviation advances where
  "advances n ic \<equiv> advance_n (advance ic) n"

lemma left_le: "left s \<le> 6"
  by (cases s) simp_all

definition finish ::
  "('s, 'a, 'x) interceptor \<Rightarrow> call \<Rightarrow> stage \<times> ('s, 'a, 'x) istate \<Rightarrow> stage \<times> ('s, 'a, 'x) istate" where
  "finish ic c conf = advances 6 ic c conf"

lemma finish_left: "finish ic c (s, st) = advances (left s) ic c (s, st)"
  unfolding finish_def by (rule handler.advance_n_enough [OF left_le])

lemma finish_step: "finish ic c (s, st) = finish ic c (advance ic c s st)"
  unfolding finish_left by (subst handler.to_end_step) (simp add: finish_left split: prod.split)

lemma finish_Finished [simp]: "finish ic c (Finished r, st) = (Finished r, st)"
  by (simp add: finish_def handler.advance_n_ended is_finished_def)

text \<open>What is left of \<open>handle\<close> at each stage.\<close>

lemma finish_Ending:
  "finish ic (env, ctx, req) (Ending pending d sr, st) =
     (case audit_and_wrap ic (ce_log env) ctx req d sr st of
        (Inl e, st') \<Rightarrow> (Finished (Inl e), st')
      | (Inr res, st') \<Rightarrow> (Finished (case pending of None \<Rightarrow> Inr res | Some e \<Rightarrow> Inl e), st'))"
  by (subst finish_step) (simp split: prod.split sum.split)

lemma finish_Resolved:
  "finish ic (env, ctx, req) (Resolved d, st) =
     (case run_permitted ic env ctx req d st of
        (p, d', sr, st') \<Rightarrow> finish ic (env, ctx, req) (Ending p d' sr, st'))"
  by (subst finish_step)
     (auto simp: run_permitted_def Let_def finish_step [of _ _ "Executed d r" for r]
        split: prod.split sum.split)

lemma finish_Admitted:
  "finish ic (env, ctx, req) (Admitted, st) =
     (case handle_body ic env ctx req st of
        (p, d, sr, st') \<Rightarrow> finish ic (env, ctx, req) (Ending p d sr, st'))"
proof -
  have decided: "finish ic (env, ctx, req) (Decided d, st) =
      (if allowed d then
         (case safely_resolve_action_requirements ic ctx req d (approval_state st) of
            (Inl e, ap) \<Rightarrow> finish ic (env, ctx, req) (Ending (Some e) d None, st\<lparr>approval_state := ap\<rparr>)
          | (Inr d', ap) \<Rightarrow> finish ic (env, ctx, req) (Resolved d', st\<lparr>approval_state := ap\<rparr>))
       else finish ic (env, ctx, req) (Resolved d, st))" for d
    by (subst finish_step)
       (simp add: finish_step [of _ _ "Resolved d"] split: prod.split sum.split)
  show ?thesis
    by (subst finish_step)
       (simp add: decided finish_Resolved handle_body_def split: prod.split sum.split)
qed

lemma finish_handle:
  "finish ic (env, ctx, req) (Waiting, st) =
     (Finished (fst (handle ic env ctx req st)), snd (handle ic env ctx req st))"
  by (subst finish_step)
     (auto simp: handle_def finish_Admitted finish_Ending
        split: prod.split sum.split bool.split option.split)

section \<open>Interleavings\<close>

lemma reach_induct [consumes 1, case_names start go_on]:
  assumes "reach ic calls st0 conf"
    and "P (starting calls) st0"
    and "\<And>ts st i s' st'. reach ic calls st0 (ts, st) \<Longrightarrow> P ts st \<Longrightarrow> i < length calls \<Longrightarrow> i < length ts \<Longrightarrow>
      \<not> is_finished (ts ! i) \<Longrightarrow> advance ic (calls ! i) (ts ! i) st = (s', st') \<Longrightarrow> P (ts[i := s']) st'"
  shows "P (fst conf) (snd conf)"
  using assms by (rule handler.steps_induct)

lemma reach_length: "reach ic calls st0 (ts, st) \<Longrightarrow> length ts = length calls"
  by (drule handler.steps_length) (simp add: starting_def)

text \<open>A predicate on calls and stages that every advance keeps holds of every task, whatever the others do.\<close>

lemma reach_stages:
  assumes "reach ic calls st0 (ts, st)" and "\<And>c. c \<in> set calls \<Longrightarrow> P c Waiting"
    and "\<And>c s st. c \<in> set calls \<Longrightarrow> P c s \<Longrightarrow> P c (fst (advance ic c s st))" and "i < length calls"
  shows "P (calls ! i) (ts ! i)"
proof (rule handler.steps_invariant(2) [OF assms(1), of "\<lambda>_. True"])
  show "i < length ts" using reach_length [OF assms(1)] assms(4) by simp
qed (simp_all add: starting_def assms)

text \<open>The schedule that lets each task finish before the next one starts.\<close>

lemma handle_seq_snoc:
  "handle_seq ic (calls @ [(env, ctx, req)]) st =
     (fst (handle_seq ic calls st) @ [fst (handle ic env ctx req (snd (handle_seq ic calls st)))],
      snd (handle ic env ctx req (snd (handle_seq ic calls st))))"
  by (induction calls arbitrary: st) (simp_all add: split_beta split_paired_all)

lemma handle_seq_length: "length (fst (handle_seq ic calls st)) = length calls"
  by (induction calls arbitrary: st) (simp_all add: split_beta split_paired_all)

lemma reach_sequential:
  assumes "n \<le> length calls"
  shows "reach ic calls st0 (map Finished (fst (handle_seq ic (take n calls) st0))
           @ replicate (length calls - n) Waiting, snd (handle_seq ic (take n calls) st0))"
  using assms
proof (induction n)
  case 0
  then show ?case by (simp add: starting_def)
next
  case (Suc n)
  obtain env ctx req where call: "calls ! n = (env, ctx, req)" by (cases "calls ! n")
  let ?rs = "fst (handle_seq ic (take n calls) st0)" and ?st = "snd (handle_seq ic (take n calls) st0)"
  let ?ts = "map Finished ?rs @ replicate (length calls - n) Waiting"
  have len: "length ?rs = n" using Suc.prems by (simp add: handle_seq_length)
  have split: "replicate (length calls - n) Waiting = Waiting # replicate (length calls - Suc n) Waiting"
    using Suc.prems by (simp add: Suc_diff_Suc flip: replicate_Suc)
  have here: "?ts ! n = Waiting" using len split by (simp add: nth_append)
  have "advances 6 ic (calls ! n) (?ts ! n, ?st) =
      (Finished (fst (handle ic env ctx req ?st)), snd (handle ic env ctx req ?st))"
    unfolding here call using finish_handle by (simp only: finish_def)
  from handler.steps_alone [OF _ _ this] Suc.prems len
  have "(step ic calls)\<^sup>*\<^sup>* (?ts, ?st)
      (?ts[n := Finished (fst (handle ic env ctx req ?st))], snd (handle ic env ctx req ?st))" by simp
  moreover have "?ts[n := Finished (fst (handle ic env ctx req ?st))] =
      map Finished (fst (handle_seq ic (take (Suc n) calls) st0)) @ replicate (length calls - Suc n) Waiting"
    using Suc.prems len split by (simp add: take_Suc_conv_app_nth call handle_seq_snoc list_update_append)
  moreover have "snd (handle ic env ctx req ?st) = snd (handle_seq ic (take (Suc n) calls) st0)"
    using Suc.prems by (simp add: take_Suc_conv_app_nth call handle_seq_snoc)
  ultimately show ?case using Suc by (metis (no_types, lifting) Suc_leD rtranclp_trans)
qed

section \<open>Properties\<close>

text \<open>
  The tasks are the handler: a task that is not interleaved with others goes through at most six
  steps and ends with the result and the state of \<open>handle\<close>; and among the schedules of any calls is
  the one that handles them one after the other.
\<close>

theorem tasks_refine_handle:
  "advances 6 ic (env, ctx, req) (Waiting, st) =
     (Finished (fst (handle ic env ctx req st)), snd (handle ic env ctx req st)) \<and>
   reach ic calls st0 (map Finished (fst (handle_seq ic calls st0)), snd (handle_seq ic calls st0))"
  using finish_handle [of ic env ctx req st] reach_sequential [of "length calls" calls ic st0]
  by (simp add: finish_def)

text \<open>
  Every schedule ends: tasks of \<open>k\<close> calls make at most \<open>6 * k\<close> steps in all, and the tasks are stuck
  only when each of them has finished; no interleaving deadlocks.
\<close>

theorem schedules_terminate:
  assumes "(step ic calls ^^ n) (starting calls, st0) (ts, st)"
  shows "n \<le> 6 * length calls \<and>
         ((\<nexists>conf. step ic calls (ts, st) conf) \<longleftrightarrow> (\<forall>s \<in> set ts. is_finished s))"
  using handler.schedule_ends [OF assms [unfolded starting_def]] by simp

theorem schedules_terminate_witness:
  "\<exists>n. n \<le> 12 \<and> (step (sample_interceptor (1, Inr sample_ok) sample_out)
     [(sample_call_env, sample_caller, sample_command), (sample_call_env, sample_caller, sample_command)] ^^ n)
     ([Waiting, Waiting], sample_state)
     (map Finished (fst (handle_seq (sample_interceptor (1, Inr sample_ok) sample_out)
        [(sample_call_env, sample_caller, sample_command), (sample_call_env, sample_caller, sample_command)]
        sample_state)), snd (handle_seq (sample_interceptor (1, Inr sample_ok) sample_out)
        [(sample_call_env, sample_caller, sample_command), (sample_call_env, sample_caller, sample_command)]
        sample_state))"
proof -
  let ?ic = "sample_interceptor (1, Inr sample_ok) sample_out"
  let ?calls = "[(sample_call_env, sample_caller, sample_command),
    (sample_call_env, sample_caller, sample_command)]"
  have start: "starting ?calls = [Waiting, Waiting]"
    by (simp add: starting_def numeral_2_eq_2)
  have "reach ?ic ?calls sample_state
      (map Finished (fst (handle_seq ?ic ?calls sample_state)), snd (handle_seq ?ic ?calls sample_state))"
    using reach_sequential [of "length ?calls" ?calls ?ic sample_state] by simp
  then obtain n where n: "(step ?ic ?calls ^^ n) (starting ?calls, sample_state)
      (map Finished (fst (handle_seq ?ic ?calls sample_state)), snd (handle_seq ?ic ?calls sample_state))"
    by (auto simp only: rtranclp_power)
  from schedules_terminate [OF n] have "n \<le> 12" by simp
  with n show ?thesis unfolding start by blast
qed

text \<open>What the stages of a call tell of the policy decision and the approval it has had.\<close>

definition permitted_at :: "('s, 'a, 'x) interceptor \<Rightarrow> call \<Rightarrow> stage \<Rightarrow> bool" where
  "permitted_at ic c s =
     (case c of (env, ctx, req) \<Rightarrow>
        (case s of
           Decided d \<Rightarrow> evaluate_decision ic ctx req = Inr d
         | Resolved d \<Rightarrow> allowed d \<longrightarrow> (\<exists>ap. granted ic ctx req ap)
         | Executed d r \<Rightarrow> allowed d \<and> (\<exists>ap. granted ic ctx req ap)
         | Ending p d sr \<Rightarrow> sr \<noteq> None \<longrightarrow> allowed d \<and> (\<exists>ap. granted ic ctx req ap)
         | Finished (Inr res) \<Rightarrow>
             ir_sandbox_result res \<noteq> None \<longrightarrow> ir_allowed res \<and> (\<exists>ap. granted ic ctx req ap)
         | _ \<Rightarrow> True))"

lemma resolved_granted:
  assumes "evaluate_decision ic ctx req = Inr d" and "allowed d"
    and "safely_resolve_action_requirements ic ctx req d ap = (Inr d', ap')" and "allowed d'"
  shows "granted ic ctx req ap"
  using final_decision_allowed [of ic ctx req ap] assms by (simp add: final_decision_def)

lemma advance_permitted: "permitted_at ic c s \<Longrightarrow> permitted_at ic c (fst (advance ic c s st))"
proof (cases c)
  case (fields env ctx req)
  assume "permitted_at ic c s"
  then show ?thesis
    by (cases s)
       (auto simp: fields permitted_at_def audit_and_wrap_def
          split: prod.splits sum.splits bool.splits option.splits dest: resolved_granted)
qed

text \<open>Only one step of a handler touches the sandbox.\<close>

lemma advance_sandbox_change:
  assumes "advance ic (env, ctx, req) s st = (s', st')" and "sandbox_state st' \<noteq> sandbox_state st"
  shows "\<exists>d. s = Resolved d \<and> allowed d \<and> sandbox_state st' = snd (sandbox ic req ctx (sandbox_state st))"
proof (cases s)
  case (Ending p d sr)
  have "sandbox_state (snd (audit_and_wrap ic (ce_log env) ctx req d sr st)) = sandbox_state st"
    by (rule audit_and_wrap_frame)
  with assms Ending show ?thesis by (auto split: prod.splits sum.splits)
qed (use assms in \<open>auto simp: execute_sandboxed_def split: prod.splits sum.splits bool.splits if_splits\<close>)

text \<open>
  No execution without permission, under every interleaving: whenever a step of concurrent calls
  changes the sandbox, it is the execution step of a task whose call the engine allowed in time,
  with no requirement but human approval, and which was approved where that is required; and a
  finished task that carries a sandbox result is of such a call.
\<close>

theorem concurrent_execution_permitted:
  assumes "reach ic calls st0 (ts, st)" and "step ic calls (ts, st) (ts', st')"
  shows "(sandbox_state st' \<noteq> sandbox_state st \<longrightarrow>
            (\<exists>i < length calls. \<exists>env ctx req d. calls ! i = (env, ctx, req) \<and> ts ! i = Resolved d \<and>
               allowed d \<and> (\<exists>ap. granted ic ctx req ap) \<and>
               sandbox_state st' = snd (sandbox ic req ctx (sandbox_state st)))) \<and>
         (\<forall>i < length calls. \<forall>res. ts' ! i = Finished (Inr res) \<and> ir_sandbox_result res \<noteq> None \<longrightarrow>
            (\<exists>ap. granted ic (fst (snd (calls ! i))) (snd (snd (calls ! i))) ap))"
proof (intro conjI impI allI)
  have stages: "permitted_at ic (calls ! i) (us ! i)" if "reach ic calls st0 (us, s)" "i < length calls" for i us s
  proof (rule reach_stages [OF that(1) _ _ that(2)])
    show "permitted_at ic c Waiting" for c by (cases c) (simp add: permitted_at_def)
    show "permitted_at ic c s \<Longrightarrow> permitted_at ic c (fst (advance ic c s st))" for c s st
      by (rule advance_permitted)
  qed
  {
    assume change: "sandbox_state st' \<noteq> sandbox_state st"
    from assms(2) obtain i s' where i: "i < length calls" "\<not> is_finished (ts ! i)"
      "advance ic (calls ! i) (ts ! i) st = (s', st')" by (elim stepE) blast
    obtain env ctx req where c: "calls ! i = (env, ctx, req)" by (cases "calls ! i")
    have "\<exists>d. ts ! i = Resolved d \<and> allowed d \<and> sandbox_state st' = snd (sandbox ic req ctx (sandbox_state st))"
      using advance_sandbox_change [OF i(3) [unfolded c] change] .
    with stages [OF assms(1) i(1)] c i(1) show "\<exists>i < length calls. \<exists>env ctx req d.
        calls ! i = (env, ctx, req) \<and> ts ! i = Resolved d \<and> allowed d \<and> (\<exists>ap. granted ic ctx req ap) \<and>
        sandbox_state st' = snd (sandbox ic req ctx (sandbox_state st))"
      by (fastforce simp: permitted_at_def)
  }
  fix i res
  assume i: "i < length calls" and fin: "ts' ! i = Finished (Inr res) \<and> ir_sandbox_result res \<noteq> None"
  have "reach ic calls st0 (ts', st')" using assms by (rule rtranclp.rtrancl_into_rtrancl)
  from stages [OF this i] fin
  show "\<exists>ap. granted ic (fst (snd (calls ! i))) (snd (snd (calls ! i))) ap"
    by (cases "calls ! i") (auto simp: permitted_at_def)
qed

text \<open>A call that is granted whatever the approval state reaches its execution alone.\<close>

lemma advances_granted:
  assumes "\<And>ap. granted ic ctx req ap"
  shows "\<exists>d st1. advances 2 ic (env, ctx, req) (Admitted, st) = (Resolved d, st1) \<and> allowed d \<and>
           sandbox_state st1 = sandbox_state st \<and> breaker_state st1 = breaker_state st"
proof -
  obtain d ap where fd: "final_decision ic ctx req (approval_state st) = (Inr d, ap)" "allowed d"
    using granted_final [OF assms] by blast
  then obtain d0 where d0: "evaluate_decision ic ctx req = Inr d0"
    by (cases "evaluate_decision ic ctx req") (auto simp: final_decision_def)
  have "allowed d0" using fd d0 by (auto simp: final_decision_def split: if_splits)
  with d0 fd have "safely_resolve_action_requirements ic ctx req d0 (approval_state st) = (Inr d, ap)"
    by (simp add: final_decision_def)
  with d0 \<open>allowed d0\<close> fd(2) show ?thesis by (simp add: numeral_2_eq_2)
qed

lemma advances_executed:
  assumes "\<And>ap. granted ic ctx req ap"
    and "execute_sandboxed ic (ce_span env) ctx req (sandbox_state st) = (Inr r, x)"
  shows "\<exists>d st1. advances 3 ic (env, ctx, req) (Admitted, st) = (Executed d r, st1)"
proof -
  obtain d st1 where "advances 2 ic (env, ctx, req) (Admitted, st) = (Resolved d, st1)" "allowed d"
    "sandbox_state st1 = sandbox_state st"
    using advances_granted [OF assms(1)] by blast
  moreover have "advances 3 ic (env, ctx, req) (Admitted, st) =
      (case advances 2 ic (env, ctx, req) (Admitted, st) of (s, st) \<Rightarrow> advance ic (env, ctx, req) s st)"
    unfolding numeral_3_eq_3 numeral_2_eq_2 by (rule advance_n_Suc_right)
  ultimately show ?thesis using assms(2) by simp
qed

text \<open>Every task is checked before any of them has run; then every task runs.\<close>

lemma reach_all_admitted:
  assumes cb: "circuit_breaker ic = Some (mem_backend_ops cfg)" and "1 \<le> min_samples cfg"
    and win: "fsub t1 (window_seconds cfg) \<le> t0"
    and calls: "\<And>i. i < length calls \<Longrightarrow> \<exists>env ctx req. calls ! i = (env, ctx, req) \<and> between t0 t1 env \<and>
                  key_for (agent_id ctx) (tool_name req) = k"
    and st: "failed_times t0 (breaker_state st0) k 0" and "n \<le> length calls"
  shows "\<exists>st. reach ic calls st0 (replicate n Admitted @ replicate (length calls - n) Waiting, st) \<and>
              failed_times t0 (breaker_state st) k 0"
  using assms(6)
proof (induction n)
  case 0
  then show ?case using st by (auto simp: starting_def)
next
  case (Suc n)
  let ?ts = "replicate n Admitted @ replicate (length calls - n) Waiting"
  obtain st where r: "reach ic calls st0 (?ts, st)" and f: "failed_times t0 (breaker_state st) k 0"
    using Suc by auto
  obtain env ctx req where c: "calls ! n = (env, ctx, req)" "between t0 t1 env"
    "key_for (agent_id ctx) (tool_name req) = k" using calls [of n] Suc.prems by auto
  obtain bs where chk: "mem_is_open cfg k (ce_check_now env) (breaker_state st) = (Inr False, bs)"
    and bs: "failed_times t0 bs k 0"
    using failed_times_check [OF f win, of "ce_check_now env"] c(2) assms(2) by (auto simp: between_def)
  have here: "?ts ! n = Waiting" "n < length ?ts" using Suc.prems by (auto simp: nth_append)
  have "advance ic (calls ! n) (?ts ! n) st = (Admitted, st\<lparr>breaker_state := bs\<rparr>)"
    unfolding here c
    using chk c(3) by (simp add: breaker_rejects_def cb breaker_check_def mem_backend_ops_def)
  from go_on [OF _ here(2) _ this] Suc.prems here(1) have
    "step ic calls (?ts, st) (?ts[n := Admitted], st\<lparr>breaker_state := bs\<rparr>)" by (simp add: is_finished_def)
  moreover have "replicate (length calls - n) Waiting = Waiting # replicate (length calls - Suc n) Waiting"
    using Suc.prems by (simp add: Suc_diff_Suc flip: replicate_Suc)
  then have "?ts[n := Admitted] =
      replicate (Suc n) Admitted @ replicate (length calls - Suc n) Waiting"
    by (simp add: list_update_append replicate_app_Cons_same)
  ultimately show ?case
    using r bs by (intro exI [of _ "st\<lparr>breaker_state := bs\<rparr>"]) (auto intro: rtranclp.rtrancl_into_rtrancl)
qed

lemma reach_all_executed:
  assumes calls: "\<And>i. i < length calls \<Longrightarrow>
      \<exists>env ctx req. calls ! i = (env, ctx, req) \<and> failing_call ic ctx req"
    and start: "reach ic calls st0 (replicate (length calls) Admitted, st)" and "n \<le> length calls"
  shows "\<exists>ts st'. reach ic calls st0 (ts, st') \<and> length ts = length calls \<and>
           (\<forall>i < n. \<exists>d r. ts ! i = Executed d r \<and> \<not> succeeded r) \<and>
           (\<forall>i < length calls. n \<le> i \<longrightarrow> ts ! i = Admitted)"
  using assms(3)
proof (induction n)
  case 0
  then show ?case using start by (intro exI [of _ "replicate (length calls) Admitted"]) auto
next
  case (Suc n)
  then obtain ts st' where r: "reach ic calls st0 (ts, st')" "length ts = length calls"
    "\<forall>i < n. \<exists>d r. ts ! i = Executed d r \<and> \<not> succeeded r"
    "\<forall>i < length calls. n \<le> i \<longrightarrow> ts ! i = Admitted" by auto
  obtain env ctx req where c: "calls ! n = (env, ctx, req)" "failing_call ic ctx req"
    using calls [of n] Suc.prems by auto
  obtain res x where x: "execute_sandboxed ic (ce_span env) ctx req (sandbox_state st') = (Inr res, x)"
    "\<not> succeeded res" using c(2) unfolding failing_call_def by blast
  obtain d st1 where "advances 3 ic (calls ! n) (ts ! n, st') = (Executed d res, st1)"
    using advances_executed [OF _ x(1)] c Suc.prems r(4) by (auto simp: failing_call_def)
  from handler.steps_alone [OF _ _ this] Suc.prems r(2)
  have "(step ic calls)\<^sup>*\<^sup>* (ts, st') (ts[n := Executed d res], st1)" by simp
  with r(1) have "reach ic calls st0 (ts[n := Executed d res], st1)" by (rule rtranclp_trans)
  moreover have "\<forall>i < Suc n. \<exists>d' r. ts[n := Executed d res] ! i = Executed d' r \<and> \<not> succeeded r"
    using r(2,3) x(2) Suc.prems by (auto simp: nth_list_update less_Suc_eq)
  moreover have "length (ts[n := Executed d res]) = length calls" using r(2) by simp
  moreover have "\<forall>i < length calls. Suc n \<le> i \<longrightarrow> ts[n := Executed d res] ! i = Admitted"
    using r(4) by simp
  ultimately show ?case by (intro exI conjI)
qed

text \<open>
  C27: The circuit breaker does not bound concurrent failures: however many calls of one agent to one
  failing tool arrive together, there is a schedule in which every one of them is executed and
  fails, although the in-memory breaker would have stopped the same calls after \<open>min_samples\<close> of them
  in sequence; each task is checked before any outcome is recorded.
\<close>

theorem breaker_admits_concurrent_failures:
  assumes "circuit_breaker ic = Some (mem_backend_ops cfg)" and "1 \<le> min_samples cfg"
    and "fsub t1 (window_seconds cfg) \<le> t0"
    and "\<forall>(env, ctx, req) \<in> set calls. between t0 t1 env \<and> failing_call ic ctx req \<and>
           key_for (agent_id ctx) (tool_name req) = k"
    and "failed_times t0 (breaker_state st0) k 0"
  shows "\<exists>ts st. reach ic calls st0 (ts, st) \<and>
           (\<forall>i < length calls. \<exists>d r. ts ! i = Executed d r \<and> \<not> succeeded r)"
proof -
  have c: "\<exists>env ctx req. calls ! i = (env, ctx, req) \<and> between t0 t1 env \<and> failing_call ic ctx req \<and>
      key_for (agent_id ctx) (tool_name req) = k" if "i < length calls" for i
    using assms(4) nth_mem [OF that] by (cases "calls ! i") auto
  obtain st where "reach ic calls st0 (replicate (length calls) Admitted, st)"
    using reach_all_admitted [OF assms(1-3) _ assms(5), of calls "length calls"] c by fastforce
  from reach_all_executed [OF _ this order_refl] c
  obtain ts st' where "reach ic calls st0 (ts, st')"
    "\<forall>i < length calls. \<exists>d r. ts ! i = Executed d r \<and> \<not> succeeded r" by blast
  then show ?thesis by blast
qed

theorem breaker_admits_concurrent_failures_witness:
  "\<exists>ts st. reach (sample_interceptor (1, Inr sample_ok) (Inl (Exn OSError ''disk'')))
       (replicate 50 (sample_call_env, sample_caller, sample_command)) sample_state (ts, st) \<and>
     min_samples sample_config = 2 \<and> (\<forall>i < 50. \<exists>d r. ts ! i = Executed d r \<and> \<not> succeeded r)"
proof -
  let ?ic = "sample_interceptor (1, Inr sample_ok) (Inl (Exn OSError ''disk''))"
  let ?calls = "replicate 50 (sample_call_env, sample_caller, sample_command)"
  have win: "fsub 1 (window_seconds sample_config) \<le> 0" by code_simp
  have calls: "\<forall>(env, ctx, req) \<in> set ?calls. between 0 1 env \<and> failing_call ?ic ctx req \<and>
      key_for (agent_id ctx) (tool_name req) = ''a:t''"
    by (simp add: sample_failing)
       (simp add: between_def sample_call_env_def key_for_def sample_caller_def sample_command_def)
  have fresh: "failed_times 0 (breaker_state sample_state) ''a:t'' 0"
    by (simp add: failed_times_def sample_state_def mem_init_def key_events_def)
  have "1 \<le> min_samples sample_config" by (simp add: sample_config_def)
  from breaker_admits_concurrent_failures [OF sample_fields(1) this win calls fresh]
  show ?thesis by (auto simp: sample_config_def)
qed

section \<open>The audit trail of concurrent calls\<close>

definition finished_tasks :: "stage list \<Rightarrow> nat set" where
  "finished_tasks ts = {i. i < length ts \<and> is_finished (ts ! i)}"

definition call_id_of :: "call \<Rightarrow> string" where
  "call_id_of c = call_id (snd (snd c))"

text \<open>The record format covers every record that some schedule can leave.\<close>

definition records_covered ::
  "(audit_record \<Rightarrow> bool) \<Rightarrow> ('s, 'a, 'x) interceptor \<Rightarrow> call list \<Rightarrow> ('s, 'a, 'x) istate \<Rightarrow> bool" where
  "records_covered good ic calls st0 \<longleftrightarrow>
     (\<forall>ts st i env ctx req p d sr red prev. reach ic calls st0 (ts, st) \<longrightarrow> i < length calls \<longrightarrow>
        calls ! i = (env, ctx, req) \<longrightarrow> ts ! i = Ending p d sr \<longrightarrow>
        good (chained prev (mk_record (ce_log env) red ctx req d (map_option sandbox_dump sr))))"

text \<open>Only the last step of a task finishes it and writes to the log.\<close>

lemma advance_unfinished:
  assumes "breaker_answers ic" and "\<not> is_finished s" and "\<nexists>p d sr. s = Ending p d sr"
    and "advance ic c s st = (s', st')"
  shows "\<not> is_finished s'" and "audit_log st' = audit_log st"
  using assms
  by (cases c; cases s; auto simp: is_finished_def dest: breaker_answers_rejects
        split: prod.splits sum.splits bool.splits if_splits)+

text \<open>What the log holds once some tasks have finished.\<close>

definition trail :: "codec \<Rightarrow> (audit_record \<Rightarrow> bool) \<Rightarrow> call list \<Rightarrow> audit_record list
    \<Rightarrow> stage list \<Rightarrow> logger \<Rightarrow> audit_record list \<Rightarrow> bool" where
  "trail cd good calls rs ts lg new \<longleftrightarrow>
     log_reach cd good lg (rs @ new) \<and>
     mset (map rec_call_id new) = image_mset (\<lambda>i. call_id_of (calls ! i)) (mset_set (finished_tasks ts)) \<and>
     (\<forall>i < length ts. \<forall>res. ts ! i = Finished (Inr res) \<longrightarrow> ir_audit_record res \<in> set new)"

lemma finished_tasks_update:
  "i < length ts \<Longrightarrow> \<not> is_finished (ts ! i) \<Longrightarrow>
     finished_tasks (ts[i := s]) = (if is_finished s then insert i (finished_tasks ts) else finished_tasks ts)"
  by (auto simp: finished_tasks_def nth_list_update)

lemma finished_tasks_finite [simp]: "finite (finished_tasks ts)"
  by (simp add: finished_tasks_def)

lemma trail_unfinished:
  assumes "trail cd good calls rs ts lg new" and "i < length ts" and "\<not> is_finished (ts ! i)"
    and "\<not> is_finished s"
  shows "trail cd good calls rs (ts[i := s]) lg new"
  using assms by (auto simp: trail_def finished_tasks_update nth_list_update is_finished_def)

lemma trail_finished:
  assumes "trail cd good calls rs ts lg new" and "i < length ts" and "\<not> is_finished (ts ! i)"
    and "log_reach cd good lg' (rs @ new @ [rec])" and "rec_call_id rec = call_id_of (calls ! i)"
    and "\<And>res. r = Inr res \<Longrightarrow> ir_audit_record res = rec"
  shows "trail cd good calls rs (ts[i := Finished r]) lg' (new @ [rec])"
proof -
  have "i \<notin> finished_tasks ts" using assms(3) by (simp add: finished_tasks_def)
  then have "mset (map rec_call_id (new @ [rec])) =
      image_mset (\<lambda>i. call_id_of (calls ! i)) (mset_set (finished_tasks (ts[i := Finished r])))"
    using assms(1,5) by (simp add: trail_def finished_tasks_update [OF assms(2,3)] is_finished_def)
  with assms show ?thesis by (auto simp: trail_def nth_list_update)
qed

lemma reach_trail:
  assumes ans: "breaker_answers ic" and cov: "records_covered good ic calls st0"
    and writes: "\<And>c. c \<in> set calls \<Longrightarrow> le_write_error (ce_log (fst c)) = None"
    and log: "log_reach (audit_codec ic) good (audit_log st0) rs" and "reach ic calls st0 conf"
  shows "\<exists>new. trail (audit_codec ic) good calls rs (fst conf) (audit_log (snd conf)) new"
  using assms(5)
proof (induction rule: reach_induct)
  case start
  have none: "finished_tasks (starting calls) = {}"
    by (auto simp: finished_tasks_def starting_def is_finished_def)
  show ?case
    using log by (intro exI [of _ "[]"]) (simp add: trail_def none, simp add: starting_def)
next
  case (go_on ts st i s' st')
  obtain new where new: "trail (audit_codec ic) good calls rs ts (audit_log st) new"
    using go_on.IH by blast
  show ?case
  proof (cases "\<exists>p d sr. ts ! i = Ending p d sr")
    case False
    with advance_unfinished [OF ans go_on.hyps(4) _ go_on.hyps(5)] show ?thesis
      using trail_unfinished [OF new go_on.hyps(3,4), of s'] by auto
  next
    case True
    then obtain p d sr where here: "ts ! i = Ending p d sr" by blast
    obtain env ctx req where c: "calls ! i = (env, ctx, req)" by (cases "calls ! i")
    let ?rec = "chained (log_prev_hash (audit_log st))
      (mk_record (ce_log env) (redact_parameters (audit_log st)) ctx req d (map_option sandbox_dump sr))"
    obtain res lg where call: "log_call (audit_codec ic) (ce_log env) ctx req d
        (map_option sandbox_dump sr) (audit_log st) = (res, lg)" by fastforce
    have "good ?rec" using cov go_on.hyps(1,2) c here unfolding records_covered_def by blast
    moreover have "le_write_error (ce_log env) = None" using writes [OF nth_mem [OF go_on.hyps(2)]] c by simp
    moreover have "log_reach (audit_codec ic) good (audit_log st) (rs @ new)" using new by (simp add: trail_def)
    ultimately have grown: "log_reach (audit_codec ic) good lg (rs @ new @ [?rec])"
      using log_reach.called [OF _ _ refl _ call, where good = good and rs = "rs @ new"] by simp
    have lg: "audit_log st' = lg" and fin: "\<exists>r. s' = Finished r \<and> (\<forall>out. r = Inr out \<longrightarrow> ir_audit_record out = ?rec)"
      using go_on.hyps(5) call log_call_record [of "audit_codec ic" "ce_log env" ctx req d
          "map_option sandbox_dump sr" "audit_log st"]
      by (auto simp: here c audit_and_wrap_def split: sum.split_asm option.split)
    obtain r where r: "s' = Finished r" "\<And>out. r = Inr out \<Longrightarrow> ir_audit_record out = ?rec"
      using fin by blast
    have "rec_call_id ?rec = call_id_of (calls ! i)" by (simp add: mk_record_def c call_id_of_def)
    from trail_finished [OF new go_on.hyps(3,4) grown this r(2)] show ?thesis
      unfolding lg r(1) by (intro exI)
  qed
qed

text \<open>
  Every call is audited, under every interleaving: whatever the schedule, the log verifies at any
  time and holds exactly one new record for each task that has finished and none for the others
  (the identifiers of the new records are those of the finished calls, each as often as it
  occurs), and the record that a result carries is one of them; so the appends of concurrent calls
  never break the hash chain.
\<close>

theorem concurrent_calls_audited:
  assumes "record_codec (audit_codec ic) good" and "records_covered good ic calls st0"
    and "breaker_answers ic" and "\<And>c. c \<in> set calls \<Longrightarrow> le_write_error (ce_log (fst c)) = None"
    and "log_reach (audit_codec ic) good (audit_log st0) rs" and "reach ic calls st0 (ts, st)"
  shows "\<exists>new. mset (map rec_call_id new) =
             image_mset (\<lambda>i. call_id_of (calls ! i)) (mset_set (finished_tasks ts)) \<and>
           (\<forall>i < length ts. \<forall>res. ts ! i = Finished (Inr res) \<longrightarrow> ir_audit_record res \<in> set new) \<and>
           log_reach (audit_codec ic) good (audit_log st) (rs @ new) \<and>
           log_verify (audit_codec ic) (audit_log st) =
             Inr \<lparr>valid = True, record_count = length rs + card (finished_tasks ts),
                  first_broken_index = None\<rparr>"
proof -
  obtain new where new: "trail (audit_codec ic) good calls rs ts (audit_log st) new"
    using reach_trail [OF assms(3,2,4,5,6)] by auto
  then have reach: "log_reach (audit_codec ic) good (audit_log st) (rs @ new)"
    and ids: "mset (map rec_call_id new) =
      image_mset (\<lambda>i. call_id_of (calls ! i)) (mset_set (finished_tasks ts))"
    by (simp_all add: trail_def)
  have "size (mset (map rec_call_id new)) = card (finished_tasks ts)" unfolding ids by simp
  then have "length new = card (finished_tasks ts)" by simp
  with record_codec.holds_verify [OF assms(1) log_reach_holds [OF assms(1) reach]] new reach show ?thesis
    by (auto simp: trail_def)
qed

text \<open>The sample stack leaves records without parameter changes only, under every schedule.\<close>

definition plain_stage :: "stage \<Rightarrow> bool" where
  "plain_stage s =
     (case s of
        Decided d \<Rightarrow> modified_parameters d = None
      | Resolved d \<Rightarrow> modified_parameters d = None
      | Executed d r \<Rightarrow> modified_parameters d = None \<and> r = mk_result ''done'' '''' 0 0
      | Ending p d sr \<Rightarrow>
          modified_parameters d = None \<and> sr \<in> {None, Some (mk_result ''done'' '''' 0 0)}
      | _ \<Rightarrow> True)"

lemma sample_plain:
  "plain_stage s \<Longrightarrow> plain_stage (fst (advance (sample_interceptor (1, Inr sample_ok) sample_out) c s st))"
proof -
  let ?ic = "sample_interceptor (1, Inr sample_ok) sample_out"
  have ev: "evaluate_decision ?ic ctx req = Inr sample_ok" for ctx req
    by (simp add: evaluate_decision_def wait_for_def)
  have ex: "execute_sandboxed ?ic sp ctx req x = (Inr (mk_result ''done'' '''' 0 0), Suc x)" for sp ctx req x
    by (simp add: execute_sandboxed_def sample_out_def)
  have res: "modified_parameters d = None \<Longrightarrow>
      safely_resolve_action_requirements ?ic ctx req d ap = (Inr d', ap') \<Longrightarrow> modified_parameters d' = None"
    for ctx req d ap d' ap'
    by (auto simp: safely_resolve_action_requirements_def resolve_action_requirements_def
          split: if_splits option.splits prod.splits sum.splits)
  have plain_decisions: "modified_parameters sample_ok = None" "modified_parameters unresolved = None"
    "modified_parameters (breaker_open_decision ctx req) = None" for ctx req
    by (simp_all add: sample_ok_def unresolved_def breaker_open_decision_def)
  assume "plain_stage s"
  then show ?thesis
    by (cases c; cases s)
       (auto simp: plain_stage_def ev ex plain_decisions dest: res
          split: prod.splits sum.splits bool.splits)
qed

lemma sample_records_covered:
  "records_covered wf_record (sample_interceptor (1, Inr sample_ok) sample_out) calls sample_state"
proof -
  have float: "wf_pyval (PFloat 0)" by code_simp
  have wf: "wf_record (chained p (mk_record le red ctx req d (map_option sandbox_dump sr)))"
    if "modified_parameters d = None \<and> sr \<in> {None, Some (mk_result ''done'' '''' 0 0)}"
    for p le red ctx req d sr
    using that float
    by (auto simp: wf_record_def mk_record_def decision_dump_def sandbox_dump_def opt_dict_def strs_def
          mk_result_def list_all_iff)
  have "plain_stage (ts ! i)"
    if "reach (sample_interceptor (1, Inr sample_ok) sample_out) calls sample_state (ts, st)"
      "i < length calls" for ts st i
    by (rule reach_stages [where P = "\<lambda>c. plain_stage", OF that(1) _ _ that(2)])
       (simp_all add: sample_plain, simp add: plain_stage_def)
  then show ?thesis unfolding records_covered_def by (force simp: plain_stage_def intro!: wf)
qed

theorem concurrent_calls_audited_witness:
  "\<exists>ts st. reach (sample_interceptor (1, Inr sample_ok) sample_out)
       [(sample_call_env, sample_caller, sample_command), (sample_call_env, sample_caller, sample_command)]
       sample_state (ts, st) \<and>
     log_verify json_codec (audit_log st) =
       Inr \<lparr>valid = True, record_count = 2, first_broken_index = None\<rparr>"
proof -
  let ?ic = "sample_interceptor (1, Inr sample_ok) sample_out"
  let ?calls = "[(sample_call_env, sample_caller, sample_command),
    (sample_call_env, sample_caller, sample_command)]"
  let ?ts = "map Finished (fst (handle_seq ?ic ?calls sample_state))"
  have r: "reach ?ic ?calls sample_state (?ts, snd (handle_seq ?ic ?calls sample_state))"
    using reach_sequential [of "length ?calls" ?calls ?ic sample_state] by simp
  have cd: "audit_codec ?ic = json_codec" by (simp add: sample_interceptor_def)
  have codec: "record_codec (audit_codec ?ic) wf_record" unfolding cd by (rule json_record_codec)
  have log: "log_reach (audit_codec ?ic) wf_record (audit_log sample_state) []"
    unfolding cd using sample_reach [of 0]
    by (simp add: sample_log.simps [of 0] sample_records.simps [of 0] sample_state_def)
  have writes: "le_write_error (ce_log (fst c)) = None" if "c \<in> set ?calls" for c
    using that by (auto simp: sample_call_env_def sample_log_env_def)
  have "length (fst (handle_seq ?ic ?calls sample_state)) = 2" by (simp add: handle_seq_length del: handle_seq.simps)
  then have "finished_tasks ?ts = {0, 1}"
    by (auto simp: finished_tasks_def is_finished_def simp del: handle_seq.simps)
  then have "card (finished_tasks ?ts) = 2" by simp
  with concurrent_calls_audited [OF codec sample_records_covered sample_answers writes log r]
  have "log_verify json_codec (audit_log (snd (handle_seq ?ic ?calls sample_state))) =
      Inr \<lparr>valid = True, record_count = 2, first_broken_index = None\<rparr>"
    unfolding cd by (auto simp: numeral_2_eq_2 simp del: handle_seq.simps)
  with r show ?thesis by blast
qed

theorem concurrent_execution_permitted_witness:
  "\<exists>ap. granted (sample_interceptor (1, Inr sample_ok) sample_out) sample_caller sample_command ap"
proof -
  let ?ic = "sample_interceptor (1, Inr sample_ok) sample_out"
  let ?c = "(sample_call_env, sample_caller, sample_command)"
  obtain bs where adm: "advance ?ic ?c Waiting sample_state = (Admitted, sample_state\<lparr>breaker_state := bs\<rparr>)"
    using sample_admits [of "(1, Inr sample_ok)" sample_out sample_caller sample_command]
    by (cases "breaker_rejects ?ic (ce_check_now sample_call_env) sample_caller sample_command
          (breaker_state sample_state)") auto
  let ?st = "sample_state\<lparr>breaker_state := bs\<rparr>"
  have g: "granted ?ic sample_caller sample_command ap" for ap
    by (simp add: granted_def wait_for_def sample_ok_def)
  obtain d st1 where two: "advances 2 ?ic ?c (Admitted, ?st) = (Resolved d, st1)" "allowed d"
    "sandbox_state st1 = 0"
    using advances_granted [OF g, of sample_call_env ?st] by (auto simp: sample_state_def)
  have "advances 3 ?ic ?c (Waiting, sample_state) = (Resolved d, st1)"
    using two(1) adm by (simp add: numeral_3_eq_3 numeral_2_eq_2)
  then have r: "reach ?ic [?c] sample_state ([Resolved d], st1)"
    using handler.steps_alone [of 0 "[?c]" "[Waiting]" ?ic 3 sample_state "Resolved d" st1]
    by (simp add: starting_def)
  obtain x where x: "advance ?ic ?c (Resolved d) st1 = (Executed d (mk_result ''done'' '''' 0 0), st1\<lparr>sandbox_state := x\<rparr>)"
    "x = 1" using two(2,3) by (simp add: execute_sandboxed_def sample_out_def)
  have "step ?ic [?c] ([Resolved d], st1)
      ([Executed d (mk_result ''done'' '''' 0 0)], st1\<lparr>sandbox_state := x\<rparr>)"
    using go_on [of 0 "[?c]" "[Resolved d]" ?ic st1] x by (simp add: is_finished_def)
  from concurrent_execution_permitted [OF r this] two(3) x(2) show ?thesis by auto
qed

end
