(* ===== verification/ConcurrentRuns.thy ===== *)
theory ConcurrentRuns
  imports Concurrency Pipeline
begin

text \<open>
  Whole runs of the pipeline as concurrent tasks of one event loop. A service calls \<open>run\<close> of
  \<^verbatim>\<open>pipeline.py\<close> once per request on one \<open>GovernancePipeline\<close>, so the runs share the gateway with its
  counters and the interceptor's state. \<open>run_stage\<close> is where a run stands between two awaits; while it
  loops over the proposed calls it is in a stage of the handler of \<open>Concurrency\<close> for one of them.
  \<open>advance_run\<close> is what it does up to the next await, and \<open>run_step\<close> lets any run go on. A run that has
  raised is \<open>Refused\<close> if the gateway did it and \<open>Returned\<close> with the exception otherwise.

  A run that is alone is \<open>run\<close>, and every schedule of runs is, on the interceptor's state, a schedule of
  the handlers of all the calls they propose (\<open>runs_are_calls\<close>), so what holds of concurrent calls
  holds of concurrent runs.
\<close>

datatype run_stage =
    Arriving
  | Refused exn
  | Cleaned string
  | Asking string
  | Calling string "interceptor_result list" "proposed_tool_call list" stage
  | Answering string "interceptor_result list"
  | Checking string "interceptor_result list"
  | Returned "pipeline_result result"

type_synonym run_job = "run_env \<times> string \<times> execution_context \<times> string"

definition called :: "string \<Rightarrow> interceptor_result list \<Rightarrow> proposed_tool_call \<Rightarrow> proposed_tool_call list \<Rightarrow> stage \<Rightarrow> run_stage" where
  "called p rs c cs s =
     (case s of
        Finished (Inl e) \<Rightarrow> Returned (Inl e)
      | Finished (Inr result) \<Rightarrow> Calling p (rs @ [result]) cs Waiting
      | _ \<Rightarrow> Calling p rs (c # cs) s)"

fun advance_run ::
  "('s, 'a, 'x) pipeline \<Rightarrow> run_job \<Rightarrow> run_stage \<Rightarrow> gateway \<times> ('s, 'a, 'x) istate
     \<Rightarrow> run_stage \<times> gateway \<times> ('s, 'a, 'x) istate" where
  "advance_run pl (env, prompt, ctx, bearer_token) Arriving (gw, st) =
     (case handle_inbound gw (re_now env) prompt ctx bearer_token of
        (Inl e, gw') \<Rightarrow> (Refused e, gw', st)
      | (Inr gateway_clean_prompt, gw') \<Rightarrow> (Cleaned gateway_clean_prompt, gw', st))"
| "advance_run pl (env, prompt, ctx, bearer_token) (Cleaned p) (gw, st) =
     (case inspect_input (pl_guardrail pl) p ctx of
        Inl e \<Rightarrow> (Returned (Inl e), gw, st)
      | Inr guardrail_clean_prompt \<Rightarrow> (Asking guardrail_clean_prompt, gw, st))"
| "advance_run pl (env, prompt, ctx, bearer_token) (Asking p) (gw, st) =
     (Calling p [] (propose_tool_calls (pl_llm_client pl) p ctx) Waiting, gw, st)"
| "advance_run pl (env, prompt, ctx, bearer_token) (Calling p rs [] s) (gw, st) = (Answering p rs, gw, st)"
| "advance_run pl (env, prompt, ctx, bearer_token) (Calling p rs (c # cs) s) (gw, st) =
     (let (s', st') = advance (pl_interceptor pl) (re_call env (length rs), ctx, to_tool_request c) s st
      in (called p rs c cs s', gw, st'))"
| "advance_run pl (env, prompt, ctx, bearer_token) (Answering p rs) (gw, st) =
     (Checking (complete (pl_llm_client pl) p ctx) rs, gw, st)"
| "advance_run pl (env, prompt, ctx, bearer_token) (Checking raw_response rs) (gw, st) =
     (case inspect_output (pl_guardrail pl) raw_response ctx of
        Inl e \<Rightarrow> (Returned (Inl e), gw, st)
      | Inr final \<Rightarrow>
          (Returned (Inr \<lparr>pr_final_response = final, pr_tool_call_results = rs\<rparr>), gw, st))"
| "advance_run pl job s (gw, st) = (s, gw, st)"

definition run_outcome :: "run_stage \<Rightarrow> pipeline_result result option" where
  "run_outcome s = (case s of Refused e \<Rightarrow> Some (Inl e) | Returned r \<Rightarrow> Some r | _ \<Rightarrow> None)"

definition is_returned :: "run_stage \<Rightarrow> bool" where
  "is_returned s \<longleftrightarrow> run_outcome s \<noteq> None"

abbreviation run_step where
  "run_step pl jobs \<equiv> task_step (advance_run pl) is_returned jobs"

abbreviation reach_runs where
  "reach_runs pl jobs conf0 \<equiv> (run_step pl jobs)\<^sup>*\<^sup>* (replicate (length jobs) Arriving, conf0)"


section \<open>The steps of a run\<close>

text \<open>What is left of a run whose client proposes \<open>n\<close> calls.\<close>

fun run_left :: "nat \<Rightarrow> run_stage \<Rightarrow> nat" where
  "run_left n Arriving = 6 + 6 * n" | "run_left n (Cleaned p) = 5 + 6 * n" | "run_left n (Asking p) = 4 + 6 * n"
| "run_left n (Calling p rs [] s) = 3"
| "run_left n (Calling p rs (c # cs) s) = 3 + 6 * length cs + max 1 (left s)"
| "run_left n (Answering p rs) = 2" | "run_left n (Checking p rs) = 1" | "run_left n (Returned r) = 0" | "run_left n (Refused e) = 0"

abbreviation proposals :: "('s, 'a, 'x) pipeline \<Rightarrow> proposed_tool_call list" where
  "proposals pl \<equiv> scripted_tool_calls (pl_llm_client pl)"

lemma run_left_0: "run_left n s = 0 \<longleftrightarrow> is_returned s"
  by (induction n s rule: run_left.induct) (simp_all add: is_returned_def run_outcome_def)

lemma run_left_calls: "run_left n (Calling p rs cs Waiting) = 3 + 6 * length cs"
  by (cases cs) simp_all

lemma called_left:
  assumes "is_finished s' \<or> left s' < left s"
  shows "run_left n (called p rs c cs s') < 3 + 6 * length cs + max 1 (left s)"
  using assms left_0 [of s']
  by (cases s') (auto simp: called_def is_finished_def run_left_calls max_def split: sum.split)

lemma advance_finished_or_left:
  "is_finished (fst (advance ic c s st)) \<or> left (fst (advance ic c s st)) < left s"
  using handler.ended_stays [of s ic c st] advance_left [of s ic c st] by (cases "is_finished s") simp_all

lemma advance_run_left:
  assumes "\<not> is_returned s"
  shows "run_left (length (proposals pl)) (fst (advance_run pl c s conf)) < run_left (length (proposals pl)) s"
proof -
  obtain env prompt ctx token where c: "c = (env, prompt, ctx, token)" by (cases c)
  obtain gw st where conf: "conf = (gw, st)" by fastforce
  show ?thesis
  proof (cases s)
    case (Calling p rs cs s1)
    show ?thesis
    proof (cases cs)
      case (Cons c1 cs1)
      show ?thesis
        using called_left [OF advance_finished_or_left]
        by (simp add: c conf Calling Cons split_beta)
    qed (simp add: c conf Calling)
  qed (use assms in \<open>auto simp: c conf is_returned_def run_outcome_def propose_tool_calls_def run_left_calls
         split: sum.splits prod.splits\<close>)
qed

lemma advance_run_Returned: "is_returned s \<Longrightarrow> advance_run pl c s conf = (s, conf)"
  by (cases c; cases conf; cases s) (simp_all add: is_returned_def run_outcome_def)

interpretation runs: tasks "advance_run pl" is_returned "run_left (length (proposals pl))"
  for pl :: "('s, 'a, 'x) pipeline"
  by unfold_locales (auto simp: run_left_0 advance_run_left advance_run_Returned)

definition finish_run ::
  "('s, 'a, 'x) pipeline \<Rightarrow> run_job \<Rightarrow> run_stage \<times> gateway \<times> ('s, 'a, 'x) istate
     \<Rightarrow> run_stage \<times> gateway \<times> ('s, 'a, 'x) istate" where
  "finish_run pl job conf = advance_n (advance_run pl) (run_left (length (proposals pl)) (fst conf)) job conf"

lemma finish_run_step: "finish_run pl job (s, conf) = finish_run pl job (advance_run pl job s conf)"
  unfolding finish_run_def fst_conv by (subst runs.to_end_step) (simp add: split_beta)

lemma finish_run_ended [simp]:
  "finish_run pl job (Returned r, conf) = (Returned r, conf)"
  "finish_run pl job (Refused e, conf) = (Refused e, conf)"
  by (simp_all add: finish_run_def)

text \<open>A call of a run goes through the stages of its handler.\<close>

lemma finish_run_call:
  "finish_run pl (env, prompt, ctx, token) (Calling p rs (c # cs) s, gw, st) =
     (case finish (pl_interceptor pl) (re_call env (length rs), ctx, to_tool_request c) (s, st) of
        (s', st') \<Rightarrow> finish_run pl (env, prompt, ctx, token) (called p rs c cs s', gw, st'))"
proof (induction "left s" arbitrary: s st rule: less_induct)
  case less
  let ?call = "(re_call env (length rs), ctx, to_tool_request c)" and ?ic = "pl_interceptor pl"
  obtain s' st' where adv: "advance ?ic ?call s st = (s', st')" by fastforce
  have step: "finish_run pl (env, prompt, ctx, token) (Calling p rs (c # cs) s, gw, st) =
      finish_run pl (env, prompt, ctx, token) (called p rs c cs s', gw, st')"
    by (subst finish_run_step) (simp add: adv)
  have fin: "finish ?ic ?call (s, st) = finish ?ic ?call (s', st')"
    using finish_step [of ?ic ?call s st] by (simp add: adv)
  show ?case
  proof (cases "is_finished s'")
    case True
    then obtain r where r: "s' = Finished r" by (auto simp: is_finished_def split: stage.splits)
    show ?thesis unfolding step fin r by simp
  next
    case False
    then have "called p rs c cs s' = Calling p rs (c # cs) s'"
      by (simp add: called_def is_finished_def split: stage.splits)
    moreover have "left s' < left s"
      using advance_finished_or_left [of ?ic ?call s st] False by (simp add: adv)
    ultimately show ?thesis using less step fin by simp
  qed
qed

lemma finish_run_calls:
  "finish_run pl (env, prompt, ctx, token) (Calling p rs cs Waiting, gw, st) =
     (case run_calls (pl_interceptor pl) (re_call env) (length rs) ctx cs st of
        (Inl e, st') \<Rightarrow> (Returned (Inl e), gw, st')
      | (Inr results, st') \<Rightarrow> finish_run pl (env, prompt, ctx, token) (Answering p (rs @ results), gw, st'))"
proof (induction cs arbitrary: rs st)
  case Nil
  show ?case by (subst finish_run_step) simp
next
  case (Cons c cs)
  show ?case
    using Cons.IH [of "rs @ [r]" for r]
    by (simp add: finish_run_call finish_handle called_def split: prod.split sum.split)
qed

lemma finish_run_arriving:
  "map_prod run_outcome id (finish_run pl (env, prompt, ctx, token) (Arriving, gw, st)) =
     (case run (pl\<lparr>pl_gateway := gw\<rparr>) env prompt ctx token st of
        (r, pl', st') \<Rightarrow> (Some r, pl_gateway pl', st'))"
proof -
  have answering: "finish_run pl (env, prompt, ctx, token) (Answering p rs, gw', st') =
      (Returned (case inspect_output (pl_guardrail pl) (complete (pl_llm_client pl) p ctx) ctx of
         Inl e \<Rightarrow> Inl e | Inr final \<Rightarrow> Inr \<lparr>pr_final_response = final, pr_tool_call_results = rs\<rparr>), gw', st')"
    for p rs gw' st'
    by (simp add: finish_run_step [of _ _ "Answering p rs"] finish_run_step [of _ _ "Checking x rs" for x]
          split: sum.split)
  show ?thesis
    by (simp add: finish_run_step [of _ _ Arriving] finish_run_step [of _ _ "Cleaned x" for x]
          finish_run_step [of _ _ "Asking x" for x] finish_run_calls answering run_def Let_def run_outcome_def
          split: prod.split sum.split)
qed


section \<open>Runs are schedules of calls\<close>

definition job_calls :: "('s, 'a, 'x) pipeline \<Rightarrow> run_job \<Rightarrow> call list" where
  "job_calls pl job = (case job of (env, prompt, ctx, token) \<Rightarrow> scripted_calls pl env ctx)"

definition all_calls :: "('s, 'a, 'x) pipeline \<Rightarrow> run_job list \<Rightarrow> call list" where
  "all_calls pl jobs = concat (map (job_calls pl) jobs)"

definition handled :: "interceptor_result list \<Rightarrow> stage list" where
  "handled rs = map (\<lambda>r. Finished (Inr r)) rs"

text \<open>
  The stages \<open>hs\<close> of the handlers of the proposed calls \<open>ps\<close> when the run is in stage \<open>s\<close>; of a run that
  has raised, only that each of its handlers has finished or was never called.
\<close>

definition handlers_at :: "proposed_tool_call list \<Rightarrow> run_stage \<Rightarrow> stage list \<Rightarrow> bool" where
  "handlers_at ps s hs \<longleftrightarrow> length hs = length ps \<and>
     (case s of
        Calling p rs [] x \<Rightarrow> hs = handled rs
      | Calling p rs (c # cs) x \<Rightarrow>
          c # cs = drop (length rs) ps \<and> \<not> is_finished x \<and>
          hs = handled rs @ x # replicate (length cs) Waiting
      | Answering p rs \<Rightarrow> hs = handled rs
      | Checking p rs \<Rightarrow> hs = handled rs
      | Returned (Inr out) \<Rightarrow> hs = handled (pr_tool_call_results out)
      | Returned (Inl e) \<Rightarrow> \<forall>x \<in> set hs. is_finished x \<or> x = Waiting
      | _ \<Rightarrow> hs = replicate (length ps) Waiting)"

lemma handled_simps [simp]:
  "length (handled rs) = length rs" "handled (rs @ [r]) = handled rs @ [Finished (Inr r)]" "handled [] = []"
  by (simp_all add: handled_def)

lemma handled_finished: "x \<in> set (handled rs) \<Longrightarrow> is_finished x"
  by (auto simp: handled_def is_finished_def)

lemma handlers_at_called:
  assumes "handlers_at ps (Calling p rs (c # cs) s) hs"
  shows "handlers_at ps (called p rs c cs s') (hs[length rs := s'])"
proof -
  have hs: "hs = handled rs @ s # replicate (length cs) Waiting" "length hs = length ps"
    and cs: "c # cs = drop (length rs) ps"
    using assms unfolding handlers_at_def run_stage.case list.case by blast+
  have upd: "hs[length rs := s'] = handled rs @ s' # replicate (length cs) Waiting"
    by (simp add: hs(1) list_update_append)
  have len: "Suc (length rs + length cs) = length ps" using hs by simp
  have tl: "drop (Suc (length rs)) ps = cs" using cs by (metis drop_Suc list.sel(3) tl_drop)
  show ?thesis
  proof (cases "is_finished s'")
    case False
    then have "called p rs c cs s' = Calling p rs (c # cs) s'"
      by (simp add: called_def is_finished_def split: stage.splits)
    with False hs upd show ?thesis by (simp add: handlers_at_def flip: cs)
  next
    case True
    then obtain r where r: "s' = Finished r" by (auto simp: is_finished_def split: stage.splits)
    show ?thesis
      using hs(2) len upd tl handled_finished [of _ rs]
      by (cases cs) (auto simp: called_def r handlers_at_def is_finished_def split: sum.split)
  qed
qed

lemma scripted_calls_nth:
  "k < length (proposals pl) \<Longrightarrow>
     scripted_calls pl env ctx ! k = (re_call env k, ctx, to_tool_request (proposals pl ! k))"
  by (simp add: scripted_calls_def calls_of_def nth_enumerate_eq)

lemma job_calls_length [simp]: "length (job_calls pl job) = length (proposals pl)"
  by (simp add: job_calls_def scripted_calls_def split: prod.split)

text \<open>A step of a run leaves the interceptor's state alone or is a step of one of its handlers.\<close>

lemma advance_run_handlers:
  assumes "handlers_at (proposals pl) s hs" and "\<not> is_returned s"
    and "advance_run pl job s (gw, st) = (s', gw', st')"
  shows "handlers_at (proposals pl) s' hs \<and> st' = st \<or>
    (\<exists>k < length (proposals pl). \<exists>x. \<not> is_finished (hs ! k) \<and>
       advance (pl_interceptor pl) (job_calls pl job ! k) (hs ! k) st = (x, st') \<and>
       handlers_at (proposals pl) s' (hs[k := x]))"
proof -
  obtain env prompt ctx token where job: "job = (env, prompt, ctx, token)" by (cases job)
  show ?thesis
  proof (cases "\<exists>p rs c cs x. s = Calling p rs (c # cs) x")
    case True
    then obtain p rs c cs x where s: "s = Calling p rs (c # cs) x" by blast
    have at: "c # cs = drop (length rs) (proposals pl)" "\<not> is_finished x" "hs ! length rs = x"
      using assms(1) by (auto simp: s handlers_at_def nth_append)
    have lt: "length rs < length (proposals pl)" using at(1) by (metis drop_all list.discI not_le)
    have c: "proposals pl ! length rs = c" using at(1) lt by (metis hd_drop_conv_nth list.sel(1))
    obtain y st1 where adv: "advance (pl_interceptor pl) (re_call env (length rs), ctx, to_tool_request c) x st = (y, st1)"
      by fastforce
    have s': "s' = called p rs c cs y" "st' = st1" using assms(3) by (simp_all add: job s adv)
    have "job_calls pl job ! length rs = (re_call env (length rs), ctx, to_tool_request c)"
      by (simp add: job_calls_def job scripted_calls_nth [OF lt] c)
    with at lt adv s' handlers_at_called [OF assms(1) [unfolded s], of y] show ?thesis by auto
  next
    case False
    have "handlers_at (proposals pl) (Calling p [] (proposals pl) Waiting)
        (replicate (length (proposals pl)) Waiting)" for p
      by (cases "proposals pl") (simp_all add: handlers_at_def is_finished_def)
    note asked = this
    have "handlers_at (proposals pl) s' hs \<and> st' = st"
    proof (cases s)
      case (Calling p rs cs x)
      with False have "cs = []" by (cases cs) simp_all
      with Calling assms show ?thesis by (auto simp: job handlers_at_def)
    next
      case (Asking p)
      with assms asked show ?thesis by (auto simp: job propose_tool_calls_def handlers_at_def [of _ "Asking p"])
    qed (use assms in \<open>auto simp: job handlers_at_def is_returned_def run_outcome_def
           handled_finished split: sum.splits prod.splits\<close>)
    then show ?thesis by blast
  qed
qed

text \<open>Positions in a concatenation.\<close>

lemma concat_at:
  assumes "i < length xss" and "k < length (xss ! i)"
  shows "length (concat (take i xss)) + k < length (concat xss)"
    and "concat xss ! (length (concat (take i xss)) + k) = xss ! i ! k"
    and "(concat xss)[length (concat (take i xss)) + k := x] = concat (xss[i := (xss ! i)[k := x]])"
proof -
  have split: "concat xss = concat (take i xss) @ xss ! i @ concat (drop (Suc i) xss)"
    using arg_cong [OF id_take_nth_drop [OF assms(1)], of concat] by simp
  show "length (concat (take i xss)) + k < length (concat xss)" using assms(2) unfolding split by simp
  show "concat xss ! (length (concat (take i xss)) + k) = xss ! i ! k"
    using assms(2) unfolding split by (simp add: nth_append)
  show "(concat xss)[length (concat (take i xss)) + k := x] = concat (xss[i := (xss ! i)[k := x]])"
    using assms unfolding split by (simp add: list_update_append upd_conv_take_nth_drop)
qed

lemma concat_take_length:
  assumes "length xss = length yss" and "\<And>i. i < length xss \<Longrightarrow> length (xss ! i) = length (yss ! i)"
  shows "length (concat (take n xss)) = length (concat (take n yss))"
proof -
  have "map length xss = map length yss" using assms by (simp add: list_eq_iff_nth_eq)
  then show ?thesis by (metis length_concat take_map)
qed

lemma reach_calls:
  assumes "reach_runs pl jobs (gw0, st0) (ts, gw, st)"
  shows "\<exists>hss. length hss = length ts \<and> (\<forall>i < length ts. handlers_at (proposals pl) (ts ! i) (hss ! i)) \<and>
    reach (pl_interceptor pl) (all_calls pl jobs) st0 (concat hss, st)"
proof -
  let ?R = "\<lambda>ts st. \<exists>hss. length hss = length ts \<and> (\<forall>i < length ts. handlers_at (proposals pl) (ts ! i) (hss ! i)) \<and>
    reach (pl_interceptor pl) (all_calls pl jobs) st0 (concat hss, st)"
  have "length (fst (ts, gw, st)) = length jobs \<and> ?R (fst (ts, gw, st)) (snd (snd (ts, gw, st)))"
    using assms
  proof (rule runs.steps_induct)
    have "starting (all_calls pl jobs) = concat (replicate (length jobs) (replicate (length (proposals pl)) Waiting))"
      unfolding starting_def all_calls_def
      by (induction jobs) (simp_all add: replicate_add)
    then show "length (replicate (length jobs) Arriving) = length jobs \<and>
        ?R (replicate (length jobs) Arriving) (snd (gw0, st0))"
      by (intro conjI exI [of _ "replicate (length jobs) (replicate (length (proposals pl)) Waiting)"])
         (simp_all add: handlers_at_def)
  next
    fix ts :: "run_stage list" and conf i s' conf'
    assume h: "length ts = length jobs \<and> ?R ts (snd conf)" "i < length jobs" "\<not> is_returned (ts ! i)"
      "advance_run pl (jobs ! i) (ts ! i) conf = (s', conf')"
    then obtain hss where hss: "length hss = length ts"
      "\<And>i. i < length ts \<Longrightarrow> handlers_at (proposals pl) (ts ! i) (hss ! i)"
      "reach (pl_interceptor pl) (all_calls pl jobs) st0 (concat hss, snd conf)" by blast
    have i: "i < length ts" "i < length hss" using h(1,2) hss(1) by simp_all
    have adv: "advance_run pl (jobs ! i) (ts ! i) (fst conf, snd conf) = (s', fst conf', snd conf')"
      using h(4) by simp
    have "?R (ts[i := s']) (snd conf')"
      using advance_run_handlers [OF hss(2) [OF i(1)] h(3) adv]
    proof (elim disjE exE conjE)
      assume "handlers_at (proposals pl) s' (hss ! i)" "snd conf' = snd conf"
      with hss i(1) show ?thesis by (intro exI [of _ hss]) (auto simp: nth_list_update)
    next
      fix k x
      assume k: "k < length (proposals pl)" "\<not> is_finished (hss ! i ! k)"
        "advance (pl_interceptor pl) (job_calls pl (jobs ! i) ! k) (hss ! i ! k) (snd conf) = (x, snd conf')"
        "handlers_at (proposals pl) s' ((hss ! i)[k := x])"
      have len: "j < length ts \<Longrightarrow> length (hss ! j) = length (proposals pl)" for j
        using hss(2) by (simp add: handlers_at_def)
      let ?cs = "map (job_calls pl) jobs" and ?at = "length (concat (take i hss)) + k"
      have at: "length (concat (take i ?cs)) = length (concat (take i hss))"
        by (rule concat_take_length) (use h(1) hss(1) len in simp_all)
      have kh: "k < length (hss ! i)" "k < length (?cs ! i)" "i < length ?cs" using k(1) len i h(1) by simp_all
      have run_calls_at: "concat ?cs ! ?at = job_calls pl (jobs ! i) ! k" "?at < length (concat ?cs)"
        using concat_at [OF kh(3,2)] at kh(3) by simp_all
      have "step (pl_interceptor pl) (all_calls pl jobs) (concat hss, snd conf) ((concat hss)[?at := x], snd conf')"
        unfolding all_calls_def
        by (rule go_on) (use run_calls_at concat_at(1,2) [OF i(2) kh(1)] k(2,3) in simp_all)
      with hss(3) have "reach (pl_interceptor pl) (all_calls pl jobs) st0
          (concat (hss[i := (hss ! i)[k := x]]), snd conf')"
        unfolding concat_at(3) [OF i(2) kh(1)] by (rule rtranclp.rtrancl_into_rtrancl)
      with hss i k(4) show ?thesis
        by (intro exI [of _ "hss[i := (hss ! i)[k := x]]"]) (auto simp: nth_list_update)
    qed
    with h(1) show "length (ts[i := s']) = length jobs \<and> ?R (ts[i := s']) (snd conf')" by simp
  qed
  then show ?thesis unfolding fst_conv snd_conv by blast
qed

section \<open>Properties\<close>

text \<open>
  The tasks are the pipeline: a run that is not interleaved with others ends with the result of \<open>run\<close>, the
  gateway's counters and the state that \<open>run\<close> leaves.
\<close>

lemma concurrent_runs_refine_run:
  "map_prod run_outcome id (advance_n (advance_run pl) (6 + 6 * length (scripted_tool_calls (pl_llm_client pl)))
      (env, prompt, ctx, token) (Arriving, gw, st)) =
     (case run (pl\<lparr>pl_gateway := gw\<rparr>) env prompt ctx token st of
        (r, pl', st') \<Rightarrow> (Some r, pl_gateway pl', st'))"
  using finish_run_arriving [of pl env prompt ctx token gw st]
  unfolding finish_run_def fst_conv run_left.simps .

text \<open>A run may go on alone to its end.\<close>

lemma reach_run_to_end:
  assumes "reach_runs pl jobs conf0 (ts, conf)" and "i < length jobs"
  shows "reach_runs pl jobs conf0
    (ts[i := fst (finish_run pl (jobs ! i) (ts ! i, conf))], snd (finish_run pl (jobs ! i) (ts ! i, conf)))"
proof -
  have "i < length ts" using runs.steps_length [OF assms(1)] assms(2) by simp
  then show ?thesis
    unfolding finish_run_def fst_conv
    by (intro rtranclp_trans [OF assms(1)]
          runs.steps_alone [OF assms(2), where n = "run_left (length (proposals pl)) (ts ! i)"]) simp_all
qed

definition sample_job :: run_job where
  "sample_job = (sample_run_env, ''hi'', sample_caller, ''t'')"

abbreviation sample_runs where
  "sample_runs \<equiv> sample_pipeline (bearer_verifier {})"

lemma reach_sample_run:
  "\<exists>s gw. reach_runs sample_runs [sample_job] (new_gateway (bearer_verifier {}), sample_state)
     ([s], gw, snd (handle (sample_interceptor (1, Inr sample_ok) sample_out) sample_call_env sample_caller
        sample_command sample_state)) \<and> is_returned s"
proof -
  let ?conf = "(new_gateway (bearer_verifier {}), sample_state)"
  let ?last = "finish_run sample_runs sample_job (Arriving, ?conf)"
  have pl: "sample_runs\<lparr>pl_gateway := new_gateway (bearer_verifier {})\<rparr> = sample_runs"
    by (simp add: sample_pipeline_def)
  obtain r pl' st' where run: "run sample_runs sample_run_env ''hi'' sample_caller ''t'' sample_state = (r, pl', st')"
    by (metis prod_cases3)
  have "map_prod run_outcome id ?last = (Some r, pl_gateway pl', st')"
    using finish_run_arriving [of sample_runs sample_run_env "''hi''" sample_caller "''t''"
        "new_gateway (bearer_verifier {})" sample_state] by (simp add: sample_job_def pl run)
  then have "run_outcome (fst ?last) = Some r" "snd ?last = (pl_gateway pl', st')"
    by (cases ?last; simp)+
  moreover have "reach_runs sample_runs [sample_job] ?conf ([fst ?last], snd ?last)"
    using reach_run_to_end [of sample_runs "[sample_job]" ?conf "[Arriving]" ?conf 0] by simp
  moreover have "st' = snd (handle (sample_interceptor (1, Inr sample_ok) sample_out) sample_call_env
      sample_caller sample_command sample_state)"
    using sample_run_state [of "''t''"] by (simp add: run)
  ultimately show ?thesis unfolding is_returned_def by (metis option.distinct(1))
qed

text \<open>
  C25: Runs are schedules of calls: whatever the schedule of the runs, the interceptor's state is one
  that the handlers of all proposed calls can reach as concurrent tasks, and each run's stage shows
  where its handlers stand: the results it holds are those of its calls in the order in which the client
  proposed them, one call is under way at most, and the calls behind it have not started.
\<close>

theorem runs_are_calls:
  assumes "reach_runs pl jobs (gw0, st0) (ts, gw, st)"
  shows "\<exists>hss. length hss = length ts \<and>
           (\<forall>i < length ts. handlers_at (scripted_tool_calls (pl_llm_client pl)) (ts ! i) (hss ! i)) \<and>
           reach (pl_interceptor pl) (all_calls pl jobs) st0 (concat hss, st)"
  by (rule reach_calls [OF assms])

theorem runs_are_calls_witness:
  "\<exists>s gw hs. is_returned s \<and> reach_runs sample_runs [sample_job] (new_gateway (bearer_verifier {}), sample_state)
       ([s], gw, snd (handle (sample_interceptor (1, Inr sample_ok) sample_out) sample_call_env sample_caller
          sample_command sample_state)) \<and>
     handlers_at [sample_proposal] s hs \<and>
     reach (sample_interceptor (1, Inr sample_ok) sample_out)
       [(sample_call_env, sample_caller, sample_command)] sample_state
       (hs, snd (handle (sample_interceptor (1, Inr sample_ok) sample_out) sample_call_env sample_caller
          sample_command sample_state))"
proof -
  obtain s gw where r: "reach_runs sample_runs [sample_job] (new_gateway (bearer_verifier {}), sample_state)
     ([s], gw, snd (handle (sample_interceptor (1, Inr sample_ok) sample_out) sample_call_env sample_caller
        sample_command sample_state))" "is_returned s" using reach_sample_run by blast
  from runs_are_calls [OF r(1)] obtain hss where hss: "length hss = 1" "handlers_at [sample_proposal] s (hss ! 0)"
    "reach (sample_interceptor (1, Inr sample_ok) sample_out) (all_calls sample_runs [sample_job]) sample_state
       (concat hss, snd (handle (sample_interceptor (1, Inr sample_ok) sample_out) sample_call_env sample_caller
          sample_command sample_state))" by auto
  moreover from hss(1) obtain hs where "hss = [hs]" by (auto simp: length_Suc_conv)
  moreover have "all_calls sample_runs [sample_job] = [(sample_call_env, sample_caller, sample_command)]"
    by (simp add: all_calls_def job_calls_def sample_job_def scripted_calls_def sample_run_env_def)
  ultimately show ?thesis using r by auto
qed

end
