(* ===== verification/RunGates.thy ===== *)
theory RunGates
  imports ConcurrentRuns Stacks
begin

text \<open>
  What concurrent runs of a pipeline keep of the guarantees of one run: the gateway's limit holds for all the
  runs of an agent together (\<open>limit_kept\<close>), a run that executes a call has passed every gate in front of it
  (\<open>run_guarded\<close>), in configurations that lie on the schedule (\<open>run_arrival\<close>, \<open>run_approval\<close>), and over the shipped parts every call of every run is in the log (\<open>typed_stage\<close> carries
  the types of what is logged through the handlers' stages).
\<close>

section \<open>The gateway's limit\<close>

definition past_gateway :: "run_stage \<Rightarrow> bool" where
  "past_gateway s = (case s of Arriving \<Rightarrow> False | Refused e \<Rightarrow> False | _ \<Rightarrow> True)"

definition run_agent :: "run_job \<Rightarrow> string" where
  "run_agent job = (case job of (env, prompt, ctx, token) \<Rightarrow> agent_id ctx)"

definition run_identified :: "verifier \<Rightarrow> run_job \<Rightarrow> bool" where
  "run_identified verify job =
     (case job of (env, prompt, ctx, token) \<Rightarrow> verify (re_now env) token ctx = Inr True)"

text \<open>The runs of an agent that the gateway has identified, and those that it has let through.\<close>

definition counted_runs :: "verifier \<Rightarrow> run_job list \<Rightarrow> run_stage list \<Rightarrow> string \<Rightarrow> nat set" where
  "counted_runs verify jobs ts agent =
     {i. i < length ts \<and> run_agent (jobs ! i) = agent \<and> run_identified verify (jobs ! i) \<and> ts ! i \<noteq> Arriving}"

definition admitted_runs :: "run_job list \<Rightarrow> run_stage list \<Rightarrow> string \<Rightarrow> nat set" where
  "admitted_runs jobs ts agent =
     {i. i < length ts \<and> run_agent (jobs ! i) = agent \<and> past_gateway (ts ! i)}"

definition limit_kept :: "gateway \<Rightarrow> run_job list \<Rightarrow> run_stage list \<Rightarrow> gateway \<Rightarrow> bool" where
  "limit_kept gw0 jobs ts gw \<longleftrightarrow>
     identity_verifier gw = identity_verifier gw0 \<and>
     rate_limit_per_minute gw = rate_limit_per_minute gw0 \<and>
     (\<forall>agent.
        count_of gw agent =
          count_of gw0 agent + int (card (counted_runs (identity_verifier gw0) jobs ts agent)) \<and>
        int (card (admitted_runs jobs ts agent)) =
          max 0 (min (count_of gw agent) (rate_limit_per_minute gw0) - count_of gw0 agent))"

text \<open>Only the first step of a run touches the gateway, and no later step takes a run back in front of it.\<close>

lemma advance_run_past:
  assumes "s \<noteq> Arriving" and "\<not> is_returned s" and "advance_run pl job s (gw, st) = (s', gw', st')"
  shows "gw' = gw" and "past_gateway s" and "past_gateway s'" and "s' \<noteq> Arriving"
proof -
  obtain env prompt ctx token where job: "job = (env, prompt, ctx, token)" by (cases job)
  have called: "past_gateway (called p rs c cs x) \<and> called p rs c cs x \<noteq> Arriving" for p rs c cs x
    by (auto simp: called_def past_gateway_def split: stage.split sum.split)
  have "gw' = gw \<and> past_gateway s \<and> past_gateway s' \<and> s' \<noteq> Arriving"
  proof (cases s)
    case (Calling p rs cs x)
    with assms(3) job called show ?thesis by (cases cs) (auto simp: past_gateway_def split: prod.splits)
  qed (use assms job in \<open>auto simp: past_gateway_def is_returned_def run_outcome_def split: sum.splits\<close>)
  then show "gw' = gw" "past_gateway s" "past_gateway s'" "s' \<noteq> Arriving" by simp_all
qed

lemma counted_runs_arriving:
  assumes "i < length ts" and "ts ! i = Arriving" and "s \<noteq> Arriving"
  shows "card (counted_runs v jobs (ts[i := s]) agent) =
    card (counted_runs v jobs ts agent) + of_bool (run_agent (jobs ! i) = agent \<and> run_identified v (jobs ! i))"
proof -
  have "counted_runs v jobs (ts[i := s]) agent =
      (if run_agent (jobs ! i) = agent \<and> run_identified v (jobs ! i)
       then insert i (counted_runs v jobs ts agent) else counted_runs v jobs ts agent)"
    using assms by (auto simp: counted_runs_def nth_list_update)
  moreover have "i \<notin> counted_runs v jobs ts agent" using assms(2) by (simp add: counted_runs_def)
  moreover have "finite (counted_runs v jobs ts agent)" by (simp add: counted_runs_def)
  ultimately show ?thesis by simp
qed

lemma admitted_runs_arriving:
  assumes "i < length ts" and "ts ! i = Arriving"
  shows "card (admitted_runs jobs (ts[i := s]) agent) =
    card (admitted_runs jobs ts agent) + of_bool (run_agent (jobs ! i) = agent \<and> past_gateway s)"
proof -
  have "admitted_runs jobs (ts[i := s]) agent =
      (if run_agent (jobs ! i) = agent \<and> past_gateway s
       then insert i (admitted_runs jobs ts agent) else admitted_runs jobs ts agent)"
    using assms by (auto simp: admitted_runs_def past_gateway_def nth_list_update)
  moreover have "i \<notin> admitted_runs jobs ts agent" using assms(2) by (simp add: admitted_runs_def past_gateway_def)
  moreover have "finite (admitted_runs jobs ts agent)" by (simp add: admitted_runs_def)
  ultimately show ?thesis by simp
qed

lemma limit_kept_step:
  assumes kept: "limit_kept gw0 jobs ts gw" and i: "i < length ts" "\<not> is_returned (ts ! i)"
    and adv: "advance_run pl (jobs ! i) (ts ! i) (gw, st) = (s', gw', st')"
  shows "limit_kept gw0 jobs (ts[i := s']) gw'"
proof (cases "ts ! i = Arriving")
  case False
  note past = advance_run_past [OF False i(2) adv]
  have "counted_runs v jobs (ts[i := s']) agent = counted_runs v jobs ts agent"
    "admitted_runs jobs (ts[i := s']) agent = admitted_runs jobs ts agent" for v agent
    using past False i(1) by (auto simp: counted_runs_def admitted_runs_def nth_list_update)
  with kept past(1) show ?thesis by (simp add: limit_kept_def)
next
  case True
  obtain env prompt ctx token where job: "jobs ! i = (env, prompt, ctx, token)" by (cases "jobs ! i")
  obtain r where inbound: "handle_inbound gw (re_now env) prompt ctx token = (r, gw')"
    and s': "s' = (case r of Inl e \<Rightarrow> Refused e | Inr p \<Rightarrow> Cleaned p)"
    using adv True by (auto simp: job split: prod.splits sum.splits)
  have "s' \<noteq> Arriving" "past_gateway s' \<longleftrightarrow> (\<exists>p. r = Inr p)"
    by (auto simp: s' past_gateway_def split: sum.split)
  with kept inbound show ?thesis
    by (auto simp: limit_kept_def counted_runs_arriving [OF i(1) True] admitted_runs_arriving [OF i(1) True]
        handle_inbound_eq run_agent_def run_identified_def job split: sum.split_asm if_split_asm)
qed

lemma reach_limit_kept:
  assumes "reach_runs pl jobs (gw0, st0) (ts, gw, st)"
  shows "limit_kept gw0 jobs ts gw"
proof -
  have "limit_kept gw0 jobs (fst (ts, gw, st)) (fst (snd (ts, gw, st)))"
    using assms
  proof (rule runs.steps_induct)
    have "counted_runs v jobs (replicate n Arriving) a = {}" "admitted_runs jobs (replicate n Arriving) a = {}"
      for v n a by (auto simp: counted_runs_def admitted_runs_def past_gateway_def)
    then show "limit_kept gw0 jobs (replicate (length jobs) Arriving) (fst (gw0, st0))"
      by (simp add: limit_kept_def)
  next
    fix ts :: "run_stage list" and conf i s' conf'
    assume h: "limit_kept gw0 jobs ts (fst conf)" "i < length ts" "\<not> is_returned (ts ! i)"
      "advance_run pl (jobs ! i) (ts ! i) conf = (s', conf')"
    then show "limit_kept gw0 jobs (ts[i := s']) (fst conf')"
      using limit_kept_step [of gw0 jobs ts "fst conf" i pl "snd conf" s' "fst conf'" "snd conf'"] by simp
  qed
  then show ?thesis by simp
qed

section \<open>Gates in front of concurrent runs\<close>

text \<open>What the stage of a run tells of the gates it has passed and of the call it is at.\<close>

definition run_guarded :: "('s, 'a, 'x) pipeline \<Rightarrow> verifier \<Rightarrow> run_job \<Rightarrow> run_stage \<Rightarrow> bool" where
  "run_guarded pl verify job s =
     (case job of (env, prompt, ctx, token) \<Rightarrow>
        (past_gateway s \<longrightarrow> verify (re_now env) token ctx = Inr True) \<and>
        (case s of
           Cleaned p \<Rightarrow> p = mask prompt
         | Asking p \<Rightarrow> inspect_input (pl_guardrail pl) (mask prompt) ctx = Inr p
         | Calling p rs cs x \<Rightarrow>
             inspect_input (pl_guardrail pl) (mask prompt) ctx = Inr p \<and> cs = drop (length rs) (proposals pl) \<and>
             (cs \<noteq> [] \<longrightarrow> permitted_at (pl_interceptor pl) (re_call env (length rs), ctx, to_tool_request (hd cs)) x)
         | _ \<Rightarrow> True))"

lemma permitted_at_Waiting: "permitted_at ic c Waiting"
  by (cases c) (simp add: permitted_at_def)

lemma called_guarded:
  assumes "run_guarded pl v (env, prompt, ctx, token) (Calling p rs (c # cs) x)"
    and "permitted_at (pl_interceptor pl) (re_call env (length rs), ctx, to_tool_request c) y"
  shows "run_guarded pl v (env, prompt, ctx, token) (called p rs c cs y)"
proof -
  have id: "v (re_now env) token ctx = Inr True"
    and input: "inspect_input (pl_guardrail pl) (mask prompt) ctx = Inr p"
    and cs: "c # cs = drop (length rs) (proposals pl)"
    using assms(1) by (simp_all add: run_guarded_def past_gateway_def)
  have tl: "cs = drop (Suc (length rs)) (proposals pl)" using cs by (metis drop_Suc list.sel(3) tl_drop)
  show ?thesis
  proof (cases "is_finished y")
    case True
    then obtain r where "y = Finished r" by (auto simp: is_finished_def split: stage.splits)
    with id input show ?thesis
      by (auto simp: called_def run_guarded_def permitted_at_Waiting simp flip: tl split: sum.split)
  next
    case False
    then have "called p rs c cs y = Calling p rs (c # cs) y"
      by (simp add: called_def is_finished_def split: stage.splits)
    with id input assms(2) show ?thesis by (simp add: run_guarded_def flip: cs)
  qed
qed

lemma advance_run_guarded:
  assumes "identity_verifier (fst conf) = v" and "run_guarded pl v job s"
  shows "identity_verifier (fst (snd (advance_run pl job s conf))) = v"
    and "run_guarded pl v job (fst (advance_run pl job s conf))"
proof -
  obtain gw st where conf: "conf = (gw, st)" by fastforce
  obtain env prompt ctx token where job: "job = (env, prompt, ctx, token)" by (cases job)
  show "identity_verifier (fst (snd (advance_run pl job s conf))) = v"
    using assms(1) unfolding conf
    by (cases "(pl, job, s, gw, st)" rule: advance_run.cases)
       (auto simp: handle_inbound_eq Let_def split: sum.split prod.split)
  show "run_guarded pl v job (fst (advance_run pl job s conf))"
  proof (cases s)
    case Arriving
    then show ?thesis
      using assms(1) by (auto simp: job conf handle_inbound_eq run_guarded_def past_gateway_def split: sum.split)
  next
    case (Asking p)
    with assms(2) show ?thesis
      by (simp add: job conf run_guarded_def past_gateway_def propose_tool_calls_def permitted_at_Waiting)
  next
    case (Calling p rs cs x)
    show ?thesis
    proof (cases cs)
      case Nil
      with Calling assms(2) show ?thesis by (simp add: job conf run_guarded_def past_gateway_def)
    next
      case (Cons c cs')
      have "permitted_at (pl_interceptor pl) (re_call env (length rs), ctx, to_tool_request c) x"
        using assms(2) by (simp add: job conf run_guarded_def Calling Cons)
      from called_guarded [OF assms(2) [unfolded job Calling Cons] advance_permitted [OF this]]
      show ?thesis by (simp add: job conf Calling Cons split_beta)
    qed
  qed (use assms(2) in \<open>auto simp: job conf run_guarded_def past_gateway_def split: sum.split\<close>)
qed

lemma reach_guarded:
  assumes "reach_runs pl jobs (gw0, st0) (ts, gw, st)" and "i < length jobs"
  shows "run_guarded pl (identity_verifier gw0) (jobs ! i) (ts ! i)"
proof (rule runs.steps_invariant(2) [OF assms(1), where Q = "\<lambda>conf. identity_verifier (fst conf) = identity_verifier gw0"])
  show "i < length ts" using runs.steps_length [OF assms(1)] assms(2) by simp
  show "run_guarded pl (identity_verifier gw0) (jobs ! i) (replicate (length jobs) Arriving ! i)"
    if "i < length jobs" for i
    using that by (cases "jobs ! i") (simp add: run_guarded_def past_gateway_def)
qed (use assms(2) advance_run_guarded in auto)

text \<open>
  The gate that a run has passed was open when the run came to it: as many runs of its agent as the gateway
  had identified by then left room below the limit.
\<close>

lemma run_arrival:
  assumes "reach_runs pl jobs (gw0, st0) (ts, gw, st)" and "jobs ! i = (env, prompt, ctx, token)"
    and "i < length jobs" and "past_gateway (ts ! i)"
  shows "\<exists>ts1 gw1 st1. reach_runs pl jobs (gw0, st0) (ts1, gw1, st1) \<and> ts1 ! i = Arriving \<and>
           (run_step pl jobs)\<^sup>*\<^sup>* (ts1, gw1, st1) (ts, gw, st) \<and>
           count_of gw0 (agent_id ctx) + int (card (counted_runs (identity_verifier gw0) jobs ts1 (agent_id ctx)))
             < rate_limit_per_minute gw0"
proof -
  have "\<not> past_gateway (replicate (length jobs) Arriving ! i)" using assms(3) by (simp add: past_gateway_def)
  from runs.task_enters [where H = past_gateway, OF assms(1) this assms(4)]
  obtain ts1 conf1 s' conf1' where path: "reach_runs pl jobs (gw0, st0) (ts1, conf1)"
    "(run_step pl jobs)\<^sup>*\<^sup>* (ts1, conf1) (ts, gw, st)"
    and adv: "advance_run pl (jobs ! i) (ts1 ! i) conf1 = (s', conf1')" "past_gateway s'"
    and before: "\<not> past_gateway (ts1 ! i)" "\<not> is_returned (ts1 ! i)" by blast
  obtain gw1 st1 where conf1: "conf1 = (gw1, st1)" by fastforce
  have here: "ts1 ! i = Arriving"
    using before by (cases "ts1 ! i") (simp_all add: past_gateway_def is_returned_def run_outcome_def)
  with adv have "\<exists>p. fst (handle_inbound gw1 (re_now env) prompt ctx token) = Inr p"
    by (auto simp: assms(2) conf1 past_gateway_def split: prod.split_asm sum.split_asm)
  then have "count_of gw1 (agent_id ctx) < rate_limit_per_minute gw1"
    by (auto simp: handle_inbound_eq split: if_split_asm sum.split_asm)
  with reach_limit_kept [OF path(1) [unfolded conf1]] path here show ?thesis
    unfolding conf1 limit_kept_def by (intro exI [of _ ts1] exI [of _ gw1] exI [of _ st1]) auto
qed

text \<open>A call that is to be executed was approved in the state of the approvals when its handler asked.\<close>

lemma run_approval:
  assumes "reach_runs pl jobs (gw0, st0) (ts, gw, st)" and "jobs ! i = (env, prompt, ctx, token)"
    and "i < length jobs" and "ts ! i = Calling p rs (c # cs) (Resolved d)" and "allowed d"
  shows "\<exists>ts2 gw2 st2 d0. reach_runs pl jobs (gw0, st0) (ts2, gw2, st2) \<and>
           ts2 ! i = Calling p rs (c # cs) (Decided d0) \<and>
           granted (pl_interceptor pl) ctx (to_tool_request c) (approval_state st2) \<and>
           (run_step pl jobs)\<^sup>*\<^sup>* (ts2, gw2, st2) (ts, gw, st)"
proof -
  let ?call = "(re_call env (length rs), ctx, to_tool_request c)"
  let ?H = "\<lambda>s. s = Calling p rs (c # cs) (Resolved d)"
  have "\<not> ?H (replicate (length jobs) Arriving ! i)" using assms(3) by simp
  from runs.task_enters [where H = ?H, OF assms(1) this assms(4)]
  obtain ts2 conf2 s' conf2' where path: "reach_runs pl jobs (gw0, st0) (ts2, conf2)"
    "(run_step pl jobs)\<^sup>*\<^sup>* (ts2, conf2) (ts, gw, st)"
    and adv: "advance_run pl (jobs ! i) (ts2 ! i) conf2 = (Calling p rs (c # cs) (Resolved d), conf2')"
    and before: "ts2 ! i \<noteq> Calling p rs (c # cs) (Resolved d)" by blast
  obtain gw2 st2 where conf2: "conf2 = (gw2, st2)" by fastforce
  obtain x where x: "ts2 ! i = Calling p rs (c # cs) x"
    "fst (advance (pl_interceptor pl) ?call x st2) = Resolved d"
  proof (cases "ts2 ! i")
    case (Calling p' rs' cs' x')
    with that adv assms(2) show ?thesis unfolding conf2
      by (cases cs') (auto simp: called_def split: prod.split_asm stage.split_asm sum.split_asm)
  qed (use adv assms(2) before in \<open>auto simp: conf2 propose_tool_calls_def split: sum.split_asm prod.split_asm\<close>)
  obtain d0 ap where d0: "x = Decided d0" "allowed d0"
    "safely_resolve_action_requirements (pl_interceptor pl) ctx (to_tool_request c) d0 (approval_state st2) = (Inr d, ap)"
    using x before by (cases x) (auto split: prod.split_asm sum.split_asm bool.split_asm if_split_asm)
  have "run_guarded pl (identity_verifier gw0) (jobs ! i) (ts2 ! i)"
    by (rule reach_guarded [OF path(1) [unfolded conf2] assms(3)])
  then have "evaluate_decision (pl_interceptor pl) ctx (to_tool_request c) = Inr d0"
    by (simp add: run_guarded_def assms(2) x(1) d0(1) permitted_at_def)
  from resolved_granted [OF this d0(2,3) assms(5)] path x(1) d0(1) show ?thesis unfolding conf2 by blast
qed

section \<open>Concurrent runs of shipped parts are audited\<close>

definition typed_stage :: "stage \<Rightarrow> bool" where
  "typed_stage s =
     (case s of
        Decided d \<Rightarrow> decision_typed d
      | Resolved d \<Rightarrow> decision_typed d
      | Executed d r \<Rightarrow> decision_typed d \<and> result_typed r
      | Ending p d sr \<Rightarrow> decision_typed d \<and> pred_option result_typed sr
      | _ \<Rightarrow> True)"

lemma resolved_typed:
  assumes "safely_resolve_action_requirements ic ctx req d ap = (Inr d', ap')" and "decision_typed d"
  shows "decision_typed d'"
  using assms
  by (auto simp: safely_resolve_action_requirements_def resolve_action_requirements_def
      split: if_splits option.splits prod.splits sum.splits)

lemma advance_typed:
  assumes "typed_engine (policy_engine ic)" and "typed_sandbox (sandbox ic)" and "typed_stage s"
  shows "typed_stage (fst (advance ic c s st))"
proof -
  have plain: "decision_typed unresolved" "decision_typed (breaker_open_decision ctx req)" for ctx req
    by (simp_all add: unresolved_def breaker_open_decision_def)
  show ?thesis
    using assms(3) typed_engine.evaluated_typed [OF assms(1) refl] typed_sandbox.executed_typed [OF assms(2) refl]
    by (cases c; cases s)
       (auto simp: typed_stage_def plain dest: resolved_typed split: prod.split sum.split bool.split)
qed

lemma shipped_records_covered:
  assumes "shipped ic"
  shows "records_covered wf_record ic calls st0"
  unfolding records_covered_def
proof (intro allI impI)
  fix ts st i env ctx req p d sr red prev
  assume h: "reach ic calls st0 (ts, st)" "i < length calls" "ts ! i = Ending p d sr"
  have "typed_stage (ts ! i)"
    by (rule reach_stages [where P = "\<lambda>c. typed_stage", OF h(1) _ _ h(2)])
       (simp_all add: advance_typed [OF shipped_typed [OF assms]], simp add: typed_stage_def)
  then show "wf_record (chained prev (mk_record (ce_log env) red ctx req d (map_option sandbox_dump sr)))"
    by (intro typed_record) (simp_all add: h(3) typed_stage_def)
qed

definition run_results :: "run_stage \<Rightarrow> interceptor_result list" where
  "run_results s =
     (case s of
        Calling p rs cs x \<Rightarrow> rs | Answering p rs \<Rightarrow> rs | Checking p rs \<Rightarrow> rs
      | Returned (Inr out) \<Rightarrow> pr_tool_call_results out | _ \<Rightarrow> [])"

lemma handlers_at_results:
  assumes "handlers_at ps s hs" and "res \<in> set (run_results s)"
  shows "Finished (Inr res) \<in> set hs"
  using assms by (auto simp: handlers_at_def run_results_def handled_def split: run_stage.splits list.splits sum.splits)

text \<open>There are at least as many finished handlers as results.\<close>

lemma handlers_at_count:
  assumes "handlers_at ps s hs"
  shows "length (run_results s) \<le> length (filter is_finished hs)"
proof -
  have "filter is_finished (handled rs) = handled rs" for rs by (simp add: handled_finished)
  with assms show ?thesis
    by (auto simp: handlers_at_def run_results_def split: run_stage.splits list.splits sum.splits)
qed

lemma results_finished:
  assumes "length hss = n" and "\<And>i. i < n \<Longrightarrow> handlers_at ps (ts ! i) (hss ! i)"
  shows "(\<Sum>i < n. length (run_results (ts ! i))) \<le> card (finished_tasks (concat hss))"
proof -
  have "(\<Sum>i < n. length (run_results (ts ! i))) \<le> (\<Sum>i < n. length (filter is_finished (hss ! i)))"
    by (rule sum_mono) (simp add: handlers_at_count [OF assms(2)])
  also have "\<dots> = length (filter is_finished (concat hss))"
    using assms(1) by (simp add: filter_concat length_concat sum_list_sum_nth atLeast0LessThan)
  finally show ?thesis by (simp add: length_filter_conv_card finished_tasks_def)
qed

lemma call_ids_of_jobs:
  "map call_id_of (all_calls pl jobs) = concat (replicate (length jobs) (map p_call_id (proposals pl)))"
proof (induction jobs)
  case (Cons job jobs)
  have "map call_id_of (calls_of env i ctx ps) = map p_call_id ps" for env i ctx ps
    by (induction ps arbitrary: i) (simp_all add: call_id_of_def to_tool_request_def)
  then show ?case
    using Cons by (simp add: all_calls_def job_calls_def scripted_calls_def split: prod.split)
qed (simp add: all_calls_def)

lemma finished_ids:
  assumes "length ts = length calls"
  shows "image_mset (\<lambda>i. call_id_of (calls ! i)) (mset_set (finished_tasks ts)) \<subseteq># mset (map call_id_of calls)"
proof -
  have "map call_id_of calls = map (\<lambda>i. call_id_of (calls ! i)) [0..<length calls]"
    by (rule nth_equalityI) simp_all
  then have "mset (map call_id_of calls) = image_mset (\<lambda>i. call_id_of (calls ! i)) (mset_set {..<length calls})"
    by (simp only: mset_map mset_upt atLeast0LessThan)
  moreover have "mset_set (finished_tasks ts) \<subseteq># mset_set {..<length calls}"
    by (rule subset_imp_msubset_mset_set) (use assms in \<open>auto simp: finished_tasks_def\<close>)
  ultimately show ?thesis by (simp add: image_mset_subseteq_mono)
qed

section \<open>Properties\<close>

text \<open>
  C6: Nothing runs in front of the gates, under every interleaving of runs: a step that changes the
  sandbox is the execution of a call by a run \<open>i\<close> of the schedule, and the call is the one that the client
  proposed at that place. Earlier on this schedule are the configuration in which the run arrived, the
  verifier identifying its caller while the runs of its agent that had been identified by then left
  room below the limit, the masked prompt passing the guardrail; and after it the one in which the
  engine had decided the call and it was approved, where that is required, by the state of the approvals
  at that moment.
\<close>

theorem concurrent_runs_guarded:
  assumes "reach_runs pl jobs (gw0, st0) (ts, gw, st)" and "run_step pl jobs (ts, gw, st) (ts', gw', st')"
    and "sandbox_state st' \<noteq> sandbox_state st"
  shows "\<exists>i env prompt ctx token p rs c cs d ts1 gw1 st1 ts2 gw2 st2 d0.
           i < length jobs \<and> jobs ! i = (env, prompt, ctx, token) \<and>
           reach_runs pl jobs (gw0, st0) (ts1, gw1, st1) \<and> ts1 ! i = Arriving \<and>
           identity_verifier gw0 (re_now env) token ctx = Inr True \<and>
           count_of gw0 (agent_id ctx) + int (card (counted_runs (identity_verifier gw0) jobs ts1 (agent_id ctx)))
             < rate_limit_per_minute gw0 \<and>
           inspect_input (pl_guardrail pl) (mask prompt) ctx = Inr p \<and>
           (run_step pl jobs)\<^sup>*\<^sup>* (ts1, gw1, st1) (ts2, gw2, st2) \<and>
           ts2 ! i = Calling p rs (c # cs) (Decided d0) \<and>
           granted (pl_interceptor pl) ctx (to_tool_request c) (approval_state st2) \<and>
           (run_step pl jobs)\<^sup>*\<^sup>* (ts2, gw2, st2) (ts, gw, st) \<and>
           ts ! i = Calling p rs (c # cs) (Resolved d) \<and> allowed d \<and>
           length rs < length (scripted_tool_calls (pl_llm_client pl)) \<and>
           c = scripted_tool_calls (pl_llm_client pl) ! length rs \<and>
           sandbox_state st' = snd (sandbox (pl_interceptor pl) (to_tool_request c) ctx (sandbox_state st))"
proof -
  from assms(2) obtain i s' where i: "i < length jobs" "i < length ts"
    "advance_run pl (jobs ! i) (ts ! i) (gw, st) = (s', gw', st')" by (elim task_stepE) blast
  obtain env prompt ctx token where job: "jobs ! i = (env, prompt, ctx, token)" by (cases "jobs ! i")
  obtain p rs c cs x where s: "ts ! i = Calling p rs (c # cs) x"
  proof (cases "ts ! i")
    case (Calling p rs cs x)
    with that i(3) job assms(3) show ?thesis by (cases cs) auto
  qed (use i(3) job assms(3) in \<open>auto split: sum.splits prod.splits\<close>)
  have "run_guarded pl (identity_verifier gw0) (jobs ! i) (ts ! i)"
    by (rule reach_guarded [OF assms(1) i(1)])
  then have g: "identity_verifier gw0 (re_now env) token ctx = Inr True"
    "inspect_input (pl_guardrail pl) (mask prompt) ctx = Inr p" "c # cs = drop (length rs) (proposals pl)"
    by (simp_all add: run_guarded_def past_gateway_def job s)
  obtain y where "advance (pl_interceptor pl) (re_call env (length rs), ctx, to_tool_request c) x st = (y, st')"
    using i(3) by (auto simp: job s split: prod.splits)
  from advance_sandbox_change [OF this assms(3)] obtain d where d: "x = Resolved d" "allowed d"
    "sandbox_state st' = snd (sandbox (pl_interceptor pl) (to_tool_request c) ctx (sandbox_state st))" by blast
  have lt: "length rs < length (proposals pl)" using g(3) by (metis drop_all list.discI not_le)
  have c: "c = proposals pl ! length rs" using g(3) lt by (metis hd_drop_conv_nth list.sel(1))
  obtain ts2 gw2 st2 d0 where appr: "reach_runs pl jobs (gw0, st0) (ts2, gw2, st2)"
    "ts2 ! i = Calling p rs (c # cs) (Decided d0)"
    "granted (pl_interceptor pl) ctx (to_tool_request c) (approval_state st2)"
    "(run_step pl jobs)\<^sup>*\<^sup>* (ts2, gw2, st2) (ts, gw, st)"
    using run_approval [OF assms(1) job i(1) s [unfolded d(1)] d(2)] by blast
  have "past_gateway (ts2 ! i)" by (simp add: appr(2) past_gateway_def)
  from run_arrival [OF appr(1) job i(1) this] obtain ts1 gw1 st1 where arrived:
    "reach_runs pl jobs (gw0, st0) (ts1, gw1, st1)" "ts1 ! i = Arriving"
    "(run_step pl jobs)\<^sup>*\<^sup>* (ts1, gw1, st1) (ts2, gw2, st2)"
    "count_of gw0 (agent_id ctx) + int (card (counted_runs (identity_verifier gw0) jobs ts1 (agent_id ctx)))
       < rate_limit_per_minute gw0" by blast
  show ?thesis
    using s [unfolded d(1)] arrived appr i(1) job g(1,2) lt c d(2,3) by blast
qed

theorem concurrent_runs_guarded_witness:
  "\<exists>p ap. inspect_input (pl_guardrail sample_runs) (mask ''hi'') sample_caller = Inr p \<and>
     granted (pl_interceptor sample_runs) sample_caller (to_tool_request (proposals sample_runs ! 0)) ap"
proof -
  let ?ic = "sample_interceptor (1, Inr sample_ok) sample_out"
  let ?st = "snd (handle ?ic sample_call_env sample_caller sample_command sample_state)"
  obtain s gw where r: "reach_runs sample_runs [sample_job] (new_gateway (bearer_verifier {}), sample_state)
      ([s], gw, ?st)" using reach_sample_run by blast
  have "cleared ?ic sample_call_env sample_caller sample_command sample_state"
    by (simp add: cleared_def sample_admits) (simp add: granted_def wait_for_def sample_ok_def)
  then have "sandbox_state sample_state \<noteq> sandbox_state ?st" by (simp add: handle_sandbox_state)
  with changes_at_step [OF r, where f = "\<lambda>conf. sandbox_state (snd (snd conf))"]
  obtain ts gw1 st1 ts' gw2 st2 where
    "reach_runs sample_runs [sample_job] (new_gateway (bearer_verifier {}), sample_state) (ts, gw1, st1)"
    "run_step sample_runs [sample_job] (ts, gw1, st1) (ts', gw2, st2)" "sandbox_state st2 \<noteq> sandbox_state st1"
    by (auto simp: sample_run_state)
  from concurrent_runs_guarded [OF this] show ?thesis by (fastforce simp: sample_job_def)
qed

text \<open>
  C26: The limit bounds concurrent runs: at any time of any schedule, the runs of an agent that the
  gateway has ever let through are as many as its limit leaves from the count at the beginning, or
  as many as were identified if those are fewer, whatever they have done since.
\<close>

theorem concurrent_rate_limit:
  assumes "reach_runs pl jobs (gw0, st0) (ts, gw, st)"
  shows "int (card (admitted_runs jobs ts agent)) =
           max 0 (min (int (card (counted_runs (identity_verifier gw0) jobs ts agent)))
                      (rate_limit_per_minute gw0 - count_of gw0 agent)) \<and>
         count_of gw agent =
           count_of gw0 agent + int (card (counted_runs (identity_verifier gw0) jobs ts agent))"
  using reach_limit_kept [OF assms] by (auto simp: limit_kept_def)

text \<open>Two runs of one agent at a gateway whose limit is one.\<close>

theorem concurrent_rate_limit_witness:
  "\<exists>ts gw. reach_runs sample_runs [sample_job, sample_job]
       ((new_gateway (bearer_verifier {}))\<lparr>rate_limit_per_minute := 1\<rparr>, sample_state) (ts, gw, sample_state) \<and>
     count_of gw (agent_id sample_caller) = 2 \<and>
     card (admitted_runs [sample_job, sample_job] ts (agent_id sample_caller)) = 1"
proof -
  let ?jobs = "[sample_job, sample_job]" and ?a = "agent_id sample_caller"
  define gw0 where "gw0 = (new_gateway (bearer_verifier {}))\<lparr>rate_limit_per_minute := 1\<rparr>"
  have fields: "identity_verifier gw0 = bearer_verifier {}" "rate_limit_per_minute gw0 = 1" "count_of gw0 a = 0" for a
    by (simp_all add: gw0_def new_gateway_def count_of_def)
  have verified: "bearer_verifier {} now ''t'' sample_caller = Inr True" for now
    by (simp add: bearer_verifier_def static_verify_def)
  have arrive: "\<exists>s gw'. advance_run sample_runs sample_job Arriving (gw, sample_state) = (s, gw', sample_state) \<and>
      s \<noteq> Arriving" for gw
    by (auto simp: sample_job_def split: prod.split sum.split)
  obtain s1 gw1 where one: "advance_run sample_runs sample_job Arriving (gw0, sample_state) = (s1, gw1, sample_state)"
    "s1 \<noteq> Arriving" using arrive by blast
  obtain s2 gw2 where two: "advance_run sample_runs sample_job Arriving (gw1, sample_state) = (s2, gw2, sample_state)"
    "s2 \<noteq> Arriving" using arrive by blast
  have waiting: "\<not> is_returned Arriving" by (simp add: is_returned_def run_outcome_def)
  have "run_step sample_runs ?jobs ([Arriving, Arriving], gw0, sample_state) ([s1, Arriving], gw1, sample_state)"
    using task_stepI [of 0 ?jobs "[Arriving, Arriving]" is_returned "advance_run sample_runs"] one waiting by simp
  moreover have "run_step sample_runs ?jobs ([s1, Arriving], gw1, sample_state) ([s1, s2], gw2, sample_state)"
    using task_stepI [of 1 ?jobs "[s1, Arriving]" is_returned "advance_run sample_runs"] two waiting by simp
  ultimately have r: "reach_runs sample_runs ?jobs (gw0, sample_state) ([s1, s2], gw2, sample_state)"
    by (simp add: numeral_2_eq_2)
  have "counted_runs (identity_verifier gw0) ?jobs [s1, s2] ?a = {0, 1}"
    using one(2) two(2) verified
    by (auto simp: counted_runs_def run_agent_def run_identified_def sample_job_def fields less_Suc_eq numeral_2_eq_2)
  then have "card (counted_runs (identity_verifier gw0) ?jobs [s1, s2] ?a) = 2" by simp
  with concurrent_rate_limit [OF r, of ?a] r show ?thesis unfolding gw0_def [symmetric]
    by (intro exI [of _ "[s1, s2]"] exI [of _ gw2]) (simp add: fields)
qed

text \<open>
  C7: Every call of every run is audited, under every interleaving of runs over shipped parts: whenever
  the runs are looked at, the log verifies; its new records belong to calls that the runs' client proposed,
  none more often than it was proposed; and of each result that a run holds or has returned the record is
  among them, and they are at least as many as all these results. Only failing writes are excluded.
\<close>

theorem concurrent_runs_audited:
  assumes "shipped (pl_interceptor pl)" and "record_codec (audit_codec (pl_interceptor pl)) wf_record"
    and "\<forall>(env, prompt, ctx, token) \<in> set jobs. \<forall>i. le_write_error (ce_log (re_call env i)) = None"
    and "log_reach (audit_codec (pl_interceptor pl)) wf_record (audit_log st0) rs" and "reach_runs pl jobs (gw0, st0) (ts, gw, st)"
  shows "\<exists>new. log_reach (audit_codec (pl_interceptor pl)) wf_record (audit_log st) (rs @ new) \<and>
           log_verify (audit_codec (pl_interceptor pl)) (audit_log st) =
             Inr \<lparr>valid = True, record_count = length rs + length new, first_broken_index = None\<rparr> \<and>
           mset (map rec_call_id new) \<subseteq>#
             mset (concat (replicate (length jobs) (map p_call_id (scripted_tool_calls (pl_llm_client pl))))) \<and>
           (\<forall>i < length jobs. ir_audit_record ` set (run_results (ts ! i)) \<subseteq> set new) \<and>
           (\<Sum>i < length jobs. length (run_results (ts ! i))) \<le> length new"
proof -
  let ?ic = "pl_interceptor pl" and ?calls = "all_calls pl jobs"
  obtain hss where hss: "length hss = length ts" "\<And>i. i < length ts \<Longrightarrow> handlers_at (proposals pl) (ts ! i) (hss ! i)"
    "reach ?ic ?calls st0 (concat hss, st)" using reach_calls [OF assms(5)] by blast
  have writes: "le_write_error (ce_log (fst c)) = None" if "c \<in> set ?calls" for c
    using that assms(3)
    by (fastforce simp: all_calls_def job_calls_def scripted_calls_def calls_of_def dest!: in_set_enumerate_eq [THEN iffD1])
  obtain new where new: "trail (audit_codec ?ic) wf_record ?calls rs (concat hss) (audit_log st) new"
    using reach_trail [OF shipped_answers [OF assms(1)] shipped_records_covered [OF assms(1)] writes
        assms(4) hss(3)] by auto
  have "ir_audit_record res \<in> set new" if "i < length jobs" "res \<in> set (run_results (ts ! i))" for i res
  proof -
    have "i < length ts" using that(1) runs.steps_length [OF assms(5)] by simp
    then have "hss ! i \<in> set hss" "Finished (Inr res) \<in> set (hss ! i)"
      using hss(1) handlers_at_results [OF hss(2) that(2)] by auto
    then have "Finished (Inr res) \<in> set (concat hss)" by auto
    with new show ?thesis unfolding trail_def by (metis in_set_conv_nth)
  qed
  moreover have "mset (map rec_call_id new) \<subseteq># mset (map call_id_of ?calls)"
    using new finished_ids [OF reach_length [OF hss(3)]] by (simp add: trail_def)
  moreover have "length new = card (finished_tasks (concat hss))"
    using new unfolding trail_def by (metis length_map size_mset size_image_mset size_mset_set)
  with results_finished [of hss "length jobs", OF _ hss(2)] hss(1) runs.steps_length [OF assms(5)]
  have "(\<Sum>i < length jobs. length (run_results (ts ! i))) \<le> length new" by simp
  ultimately show ?thesis
    using new record_codec.holds_verify [OF assms(2) log_reach_holds [OF assms(2)]]
    unfolding call_ids_of_jobs trail_def by (intro exI [of _ new]) auto
qed

lemma finish_run_returned: "is_returned (fst (finish_run pl job (Arriving, conf)))"
proof -
  obtain env prompt ctx token where job: "job = (env, prompt, ctx, token)" by (cases job)
  obtain r pl' st' where run: "run (pl\<lparr>pl_gateway := fst conf\<rparr>) env prompt ctx token (snd conf) = (r, pl', st')"
    by (metis prod_cases3)
  have "run_outcome (fst (finish_run pl job (Arriving, conf))) = Some r"
    using finish_run_arriving [of pl env prompt ctx token "fst conf" "snd conf"]
    by (cases "finish_run pl job (Arriving, conf)") (simp add: job run)
  then show ?thesis by (simp add: is_returned_def)
qed

theorem concurrent_runs_audited_witness:
  "\<exists>ts gw st n. reach_runs (sample_runs\<lparr>pl_interceptor := shipped_stack\<rparr>) [sample_job, sample_job]
       (new_gateway (bearer_verifier {}), sample_state) (ts, gw, st) \<and>
     (\<forall>s \<in> set ts. is_returned s) \<and> n \<le> 2 \<and>
     log_verify json_codec (audit_log st) = Inr \<lparr>valid = True, record_count = n, first_broken_index = None\<rparr>"
proof -
  let ?pl = "sample_runs\<lparr>pl_interceptor := shipped_stack\<rparr>" and ?jobs = "[sample_job, sample_job]"
  let ?conf0 = "(new_gateway (bearer_verifier {}), sample_state)"
  let ?one = "finish_run ?pl sample_job (Arriving, ?conf0)"
  let ?two = "finish_run ?pl sample_job (Arriving, snd ?one)"
  have "reach_runs ?pl ?jobs ?conf0 ([fst ?one, Arriving], snd ?one)"
    using reach_run_to_end [of ?pl ?jobs ?conf0 "[Arriving, Arriving]" ?conf0 0] by (simp add: numeral_2_eq_2)
  from reach_run_to_end [OF this, of 1] have "reach_runs ?pl ?jobs ?conf0 ([fst ?one, fst ?two], snd ?two)"
    by simp
  then obtain gw st where r: "reach_runs ?pl ?jobs ?conf0 ([fst ?one, fst ?two], gw, st)"
    by (metis prod.collapse)
  have cd: "audit_codec (pl_interceptor ?pl) = json_codec" by (simp add: shipped_stack_def)
  have log: "log_reach (audit_codec (pl_interceptor ?pl)) wf_record (audit_log sample_state) []"
    unfolding cd using sample_reach [of 0]
    by (simp add: sample_log.simps [of 0] sample_records.simps [of 0] sample_state_def)
  have shipped: "shipped (pl_interceptor ?pl)" by (simp add: shipped_stack_shipped)
  have codec: "record_codec (audit_codec (pl_interceptor ?pl)) wf_record" unfolding cd by (rule json_record_codec)
  have writes: "\<forall>(env, prompt, ctx, token) \<in> set ?jobs. \<forall>i. le_write_error (ce_log (re_call env i)) = None"
    by (simp add: sample_job_def sample_run_env_def sample_call_env_def sample_log_env_def)
  from concurrent_runs_audited [OF shipped codec writes log r] obtain new :: "audit_record list" where
    verify: "log_verify json_codec (audit_log st) =
      Inr \<lparr>valid = True, record_count = length new, first_broken_index = None\<rparr>"
    and ids: "mset (map rec_call_id new) \<subseteq># mset (concat (replicate (length ?jobs)
      (map p_call_id (scripted_tool_calls (pl_llm_client ?pl)))))"
    unfolding cd by auto
  have "length new \<le> 2" using size_mset_mono [OF ids] by simp
  moreover have "\<forall>s \<in> set [fst ?one, fst ?two]. is_returned s" by (simp add: finish_run_returned)
  ultimately show ?thesis using verify r by blast
qed

end
