(* ===== verification/LiveRules.thy ===== *)
theory LiveRules
  imports Stacks Concurrency
begin

text \<open>
  Rules that change while calls are under way. \<^verbatim>\<open>policy/db_rules.py\<close> keeps the rules in SQLite so that
  they can be updated while the service runs; the engine of \<^verbatim>\<open>policy/db_engine.py\<close> reads them anew for
  every call, in up to eight queries. Another process can commit a change, or the database can begin to fail,
  between any two of these queries, and between any two awaits of a handled call. \<open>db_evaluate_conns\<close> is the evaluation
  in which every query sees a connection of its own; \<open>live_step\<close> is the handlers' steps of \<open>Concurrency\<close> over this engine,
  with the history of the connections, which grows between steps and during one.
\<close>

section \<open>Changes during one evaluation\<close>

text \<open>\<open>conns i\<close> is the connection on which the \<open>i\<close>-th query of the evaluation is made.\<close>

definition query :: "db_conn \<Rightarrow> (db_tables \<Rightarrow> 'a) \<Rightarrow> 'a result" where
  "query conn f = (case conn of Inl e \<Rightarrow> Inl e | Inr db \<Rightarrow> Inr (f db))"

lemma query_simps [simp]: "query (Inl e) f = Inl e" "query (Inr db) f = Inr (f db)"
  by (simp_all add: query_def)

lemma query_Inr: "query conn f = Inr x \<longleftrightarrow> (\<exists>db. conn = Inr db \<and> f db = x)"
  by (cases conn) auto

definition db_evaluate_conns ::
  "policy_env \<Rightarrow> (nat \<Rightarrow> db_conn) \<Rightarrow> execution_context \<Rightarrow> tool_request \<Rightarrow> policy_decision result"
where
  "db_evaluate_conns env conns ctx req =
     (case check_identity env ctx [''user_id'', ''agent_id'', ''roles''] of
        Some d \<Rightarrow> Inr d
      | None \<Rightarrow>
     (case query (conns 0) db_active_roles of
        Inl e \<Rightarrow> Inl e
      | Inr active_roles \<Rightarrow>
     (if active_roles \<inter> set (roles ctx) = {}
      then Inr (deny (''no active platform role for context roles '' @ str_list (roles ctx)
                      @ '': global RBAC denied''))
      else
     (case query (conns 1) (\<lambda>db. db_tool_exists db (tool_name req)) of
        Inl e \<Rightarrow> Inl e
      | Inr tool_exists \<Rightarrow>
     (if \<not> tool_exists
      then Inr (deny (''tool not permitted: '' @ squote (tool_name req)))
      else
     (case query (conns 2) (\<lambda>db. db_visibility_roles db (tool_name req)) of
        Inl e \<Rightarrow> Inl e
      | Inr visibility_roles \<Rightarrow>
     (if visibility_roles \<noteq> [] \<and> \<not> any_role visibility_roles ctx
      then Inr (deny (''tool '' @ squote (tool_name req) @ '' requires one of roles ''
                      @ str_list visibility_roles))
      else
     (case query (conns 3) (\<lambda>db. db_allowed_functions db (tool_name req)) of
        Inl e \<Rightarrow> Inl e
      | Inr functions \<Rightarrow>
     (if function_name req \<notin> set functions
      then Inr (deny (''function not permitted: ''
                      @ squote (tool_name req @ ''.'' @ function_name req)))
      else
     (case query (conns 4) (\<lambda>db. db_deny_patterns db (tool_name req)) of
        Inl e \<Rightarrow> Inl e
      | Inr deny_patterns \<Rightarrow>
     (case check_deny_patterns env req deny_patterns of
        Inl e \<Rightarrow> Inl e
      | Inr (Some d) \<Rightarrow> Inr d
      | Inr None \<Rightarrow>
     (case query (conns 5) (\<lambda>db. db_role_gates db (tool_name req)) of
        Inl e \<Rightarrow> Inl e
      | Inr role_gates \<Rightarrow>
     (case check_role_gates ctx req role_gates of
        Some d \<Rightarrow> Inr d
      | None \<Rightarrow>
     (case call_counter env (session_id ctx) of
        Inl e \<Rightarrow> Inl e
      | Inr current_calls \<Rightarrow>
     (case query (conns 6) db_rate_limit of
        Inl e \<Rightarrow> Inl e
      | Inr (Inl e) \<Rightarrow> Inl e
      | Inr (Inr rate_limit) \<Rightarrow>
     (if rate_limit \<le> current_calls
      then Inr (deny (''rate limit exceeded: '' @ str_int current_calls @ '' >= ''
                      @ str_int rate_limit))
      else
     (case query (conns 7) (\<lambda>db. db_requires_approval db (tool_name req) (function_name req)) of
        Inl e \<Rightarrow> Inl e
      | Inr approval \<Rightarrow>
     (if approval then Inr pending_approval else Inr checks_passed))))))))))))))))))"

text \<open>Without a change during it the evaluation is that of \<open>DbPolicy\<close>.\<close>

lemma db_evaluate_conns_same: "db_evaluate_conns env (\<lambda>i. conn) ctx req = db_evaluate env conn ctx req"
  by (cases conn)
     (simp_all add: db_evaluate_conns_def db_evaluate_def Let_def del: check_identity.simps
        cong: option.case_cong sum.case_cong if_cong)

text \<open>Every query sees some database.\<close>

definition db_evaluate_reads ::
  "policy_env \<Rightarrow> (nat \<Rightarrow> db_tables) \<Rightarrow> execution_context \<Rightarrow> tool_request \<Rightarrow> policy_decision result"
where
  "db_evaluate_reads env reads = db_evaluate_conns env (\<lambda>i. Inr (reads i))"

lemma db_evaluate_reads_same: "db_evaluate_reads env (\<lambda>i. db) ctx req = db_evaluate env (Inr db) ctx req"
  by (simp add: db_evaluate_reads_def db_evaluate_conns_same)

text \<open>
  The layers of the permission hierarchy, each by the tables that its own query sees. The last query says
  whether the function requires approval.
\<close>

definition reads_permit :: "policy_env \<Rightarrow> (nat \<Rightarrow> db_tables) \<Rightarrow> execution_context \<Rightarrow> tool_request \<Rightarrow> bool" where
  "reads_permit env reads ctx req \<longleftrightarrow>
     check_identity env ctx [''user_id'', ''agent_id'', ''roles''] = None \<and>
     db_active_roles (reads 0) \<inter> set (roles ctx) \<noteq> {} \<and>
     db_tool_exists (reads 1) (tool_name req) \<and>
     (db_visibility_roles (reads 2) (tool_name req) = [] \<or>
      any_role (db_visibility_roles (reads 2) (tool_name req)) ctx) \<and>
     function_name req \<in> set (db_allowed_functions (reads 3) (tool_name req)) \<and>
     check_deny_patterns env req (db_deny_patterns (reads 4) (tool_name req)) = Inr None \<and>
     check_role_gates ctx req (db_role_gates (reads 5) (tool_name req)) = None \<and>
     (\<exists>n limit. call_counter env (session_id ctx) = Inr n \<and> db_rate_limit (reads 6) = Inr limit \<and> n < limit)"

lemma db_evaluate_conns_allowed:
  assumes "db_evaluate_conns env conns ctx req = Inr d" and "allowed d"
  shows "\<exists>reads. (\<forall>i < 8. conns i = Inr (reads i)) \<and> reads_permit env reads ctx req \<and>
           d = grant (db_requires_approval (reads 7) (tool_name req) (function_name req))"
proof -
  define reads where "reads i = projr (conns i)" for i
  have *: "reads_permit env reads ctx req \<and>
    d = grant (db_requires_approval (reads 7) (tool_name req) (function_name req)) \<and>
    (\<forall>i \<in> {0, 1, 2, 3, 4, 5, 6, 7}. conns i = Inr (reads i))"
    using assms
    by (auto simp: db_evaluate_conns_def query_Inr reads_def reads_permit_def grant_def not_le
          simp del: check_identity.simps dest: check_denies
          split: option.split_asm sum.split_asm if_split_asm)
  moreover have "i \<in> {0, 1, 2, 3, 4, 5, 6, 7}" if "i < 8" for i :: nat using that by auto
  ultimately show ?thesis by (intro exI [of _ reads]) blast
qed

lemma db_evaluate_reads_permitted:
  assumes "reads_permit env reads ctx req"
  shows "db_evaluate_reads env reads ctx req =
           Inr (grant (db_requires_approval (reads 7) (tool_name req) (function_name req)))"
  using assms
  by (auto simp: reads_permit_def db_evaluate_reads_def db_evaluate_conns_def grant_def simp del: check_identity.simps)

text \<open>\<open>DELETE FROM tool_functions WHERE tool_name = ... AND function_name = ...\<close>.\<close>

definition delete_function :: "string \<Rightarrow> string \<Rightarrow> db_tables \<Rightarrow> db_tables" where
  "delete_function tool fn db =
     db\<lparr>t_functions := filter (\<lambda>(t, f, a). \<not> (t = tool \<and> f = fn)) (t_functions db)\<rparr>"

lemma deleted_function:
  "fn \<notin> set (db_allowed_functions (delete_function tool fn db) tool)"
  "\<not> db_requires_approval (delete_function tool fn db) tool fn"
proof -
  show "fn \<notin> set (db_allowed_functions (delete_function tool fn db) tool)"
    by (auto simp: db_allowed_functions_def delete_function_def)
  have "find (\<lambda>(t, f, a). t = tool \<and> f = fn) (t_functions (delete_function tool fn db)) = None"
    by (auto simp: find_None_iff delete_function_def)
  then show "\<not> db_requires_approval (delete_function tool fn db) tool fn"
    by (simp add: db_requires_approval_def)
qed

lemma db_permits_checks:
  assumes "db_permits env db ctx req"
  obtains limit n where "check_identity env ctx [''user_id'', ''agent_id'', ''roles''] = None"
    and "db_active_roles db \<inter> set (roles ctx) \<noteq> {}" and "db_tool_exists db (tool_name req)"
    and "\<not> (db_visibility_roles db (tool_name req) \<noteq> [] \<and>
           \<not> any_role (db_visibility_roles db (tool_name req)) ctx)"
    and "function_name req \<in> set (db_allowed_functions db (tool_name req))"
    and "check_deny_patterns env req (db_deny_patterns db (tool_name req)) = Inr None"
    and "check_role_gates ctx req (db_role_gates db (tool_name req)) = None"
    and "call_counter env (session_id ctx) = Inr n" and "db_rate_limit db = Inr limit" and "n < limit"
proof -
  from assms obtain limit where lim: "db_rate_limit db = Inr limit"
    and act: "db_active_roles db \<inter> set (roles ctx) \<noteq> {}"
    and per: "static_permits env (ruleset_of_db db limit) ctx req (rule_of_db db (tool_name req))"
    by (auto simp: db_permits_def)
  have n: "\<exists>n. call_counter env (session_id ctx) = Inr n \<and> n < limit"
    using per by (auto simp: static_permits_def under_limit_def ruleset_of_db_def split: sum.splits)
  from per have "db_tool_exists db (tool_name req)" "function_name req \<in> set (db_allowed_functions db (tool_name req))"
    by (auto simp: static_permits_def rule_permits_def rule_of_db_def ruleset_of_db_def db_tool_exists_iff)
  with lim act n static_permits_checks [OF per] static_permits_db_identity [OF per] that show thesis
    by (auto simp: rule_of_db_def default_identity_fields_def simp del: check_identity.simps)
qed

lemma db_permits_reads: "db_permits env db ctx req \<longleftrightarrow> reads_permit env (\<lambda>i. db) ctx req"
proof
  assume "db_permits env db ctx req"
  then show "reads_permit env (\<lambda>i. db) ctx req"
    by (rule db_permits_checks) (auto simp: reads_permit_def simp del: check_identity.simps)
next
  assume "reads_permit env (\<lambda>i. db) ctx req"
  from db_evaluate_reads_permitted [OF this] show "db_permits env db ctx req"
    using db_evaluate_allowedD by (fastforce simp: db_evaluate_reads_same)
qed

text \<open>Only the last query of an evaluation asks whether approval is required.\<close>

lemma reads_last:
  assumes "db_permits env db ctx req"
  shows "db_evaluate_reads env (\<lambda>i. if i < 7 then db else db') ctx req =
           Inr (grant (db_requires_approval db' (tool_name req) (function_name req)))"
proof -
  have "reads_permit env (\<lambda>i. if i < 7 then db else db') ctx req"
    using assms by (simp add: db_permits_reads reads_permit_def del: check_identity.simps)
  from db_evaluate_reads_permitted [OF this] show ?thesis by simp
qed

section \<open>Changes at any time\<close>

text \<open>
  A configuration is the history of the connections, the one in force first, and the handlers' stages with
  the state they share. While the history grows from \<open>h\<close> to \<open>h'\<close>, queries in a row may be made on \<open>conns\<close>: each on
  the connection in force when it is made.
\<close>

inductive reads_during :: "db_conn list \<Rightarrow> db_conn list \<Rightarrow> db_conn list \<Rightarrow> bool" where
  nothing_more: "reads_during h h []"
| change: "reads_during (conn # h) h' conns \<Longrightarrow> reads_during h h' conns"
| read: "reads_during (conn # h) h' conns \<Longrightarrow> reads_during (conn # h) h' (conn # conns)"

lemma reads_unchanged: "reads_during (conn # h) (conn # h) (replicate n conn)"
  by (induction n) (auto intro: reads_during.intros)

definition with_rules ::
  "policy_env \<Rightarrow> ('s, 'a, 'x) interceptor \<Rightarrow> db_conn list \<Rightarrow> ('s, 'a, 'x) interceptor" where
  "with_rules env ic conns =
     ic\<lparr>policy_engine := (\<lambda>ctx req. (0, wrap_policy_errors (db_evaluate_conns env (nth conns) ctx req)))\<rparr>"

text \<open>The eight queries of an evaluation, and all else that a task does up to its next await, fall between two histories.\<close>

inductive live_step ::
  "policy_env \<Rightarrow> ('s, 'a, 'x) interceptor \<Rightarrow> call list \<Rightarrow> db_conn list \<times> stage list \<times> ('s, 'a, 'x) istate
     \<Rightarrow> db_conn list \<times> stage list \<times> ('s, 'a, 'x) istate \<Rightarrow> bool" for env ic calls where
  rules_change: "live_step env ic calls (h, ts, st) (conn # h, ts, st)"
| task_goes_on: "reads_during h h' conns \<Longrightarrow> length conns = 8 \<Longrightarrow>
    step (with_rules env ic conns) calls (ts, st) (ts', st') \<Longrightarrow>
    live_step env ic calls (h, ts, st) (h', ts', st')"

inductive_cases live_stepE: "live_step env ic calls (h, ts, st) (h', ts', st')"

abbreviation live_reach where
  "live_reach env ic calls \<equiv> (live_step env ic calls)\<^sup>*\<^sup>*"

text \<open>Without a change the engine is that of \<open>Stacks\<close>.\<close>

abbreviation ruled_by where
  "ruled_by env ic conn \<equiv> ic\<lparr>policy_engine := db_engine env conn\<rparr>"

lemma db_evaluate_conns_cong:
  assumes "\<And>i. i < 8 \<Longrightarrow> conns i = conns' i"
  shows "db_evaluate_conns env conns ctx req = db_evaluate_conns env conns' ctx req"
proof -
  have same: "conns 0 = conns' 0" "conns 1 = conns' 1" "conns 2 = conns' 2" "conns 3 = conns' 3"
    "conns 4 = conns' 4" "conns 5 = conns' 5" "conns 6 = conns' 6" "conns 7 = conns' 7"
    by (simp_all add: assms)
  show ?thesis unfolding db_evaluate_conns_def same by (rule refl)
qed

lemma with_rules_unchanged: "with_rules env ic (replicate 8 conn) = ruled_by env ic conn"
proof -
  have "db_evaluate_conns env (nth (replicate 8 conn)) ctx req = db_evaluate env conn ctx req" for ctx req
    using db_evaluate_conns_cong [of "nth (replicate 8 conn)" "\<lambda>i. conn" env ctx req]
    by (simp add: db_evaluate_conns_same)
  then show ?thesis by (simp add: with_rules_def db_engine_def db_evaluate_tool_call_def fun_eq_iff)
qed

lemma live_step_unchanged:
  "step (ruled_by env ic conn) calls (ts, st) (ts', st') \<Longrightarrow>
     live_step env ic calls (conn # h, ts, st) (conn # h, ts', st')"
  by (rule task_goes_on [OF reads_unchanged [of conn h 8]]) (simp_all add: with_rules_unchanged)

lemma live_reach_steps:
  "(step (ruled_by env ic conn) calls)\<^sup>*\<^sup>* (ts, st) (ts', st') \<Longrightarrow>
     live_reach env ic calls (conn # h, ts, st) (conn # h, ts', st')"
  by (induction "(ts', st')" arbitrary: ts' st' rule: rtranclp_induct)
     (auto intro: rtranclp.rtrancl_into_rtrancl live_step_unchanged)

text \<open>A stage that a call was not at when the history began was entered by a step of its handler.\<close>

lemma live_enters:
  assumes "live_reach env ic calls (h0, ts0, st0) (h, ts, st)" and "\<not> H (ts0 ! i)" and "H (ts ! i)"
  shows "\<exists>h1 ts1 st1 h2 conns s' st2. live_reach env ic calls (h0, ts0, st0) (h1, ts1, st1) \<and>
           \<not> H (ts1 ! i) \<and> reads_during h1 h2 conns \<and> length conns = 8 \<and>
           advance (with_rules env ic conns) (calls ! i) (ts1 ! i) st1 = (s', st2) \<and> H s' \<and>
           live_reach env ic calls (h1, ts1, st1) (h2, ts1[i := s'], st2) \<and>
           live_reach env ic calls (h2, ts1[i := s'], st2) (h, ts, st)"
proof -
  from enters_at_step [where H = "\<lambda>conf. H (fst (snd conf) ! i)", OF assms(1)] assms(2,3)
  obtain h1 ts1 st1 h2 ts2 st2 where path: "live_reach env ic calls (h0, ts0, st0) (h1, ts1, st1)" "\<not> H (ts1 ! i)"
    "H (ts2 ! i)" "live_reach env ic calls (h2, ts2, st2) (h, ts, st)"
    and step: "live_step env ic calls (h1, ts1, st1) (h2, ts2, st2)" by auto
  from step show ?thesis
  proof (elim live_stepE)
    assume "ts2 = ts1"
    with path(2,3) show ?thesis by simp
  next
    fix conns
    assume reads: "reads_during h1 h2 conns" "length conns = 8"
      and "step (with_rules env ic conns) calls (ts1, st1) (ts2, st2)"
    from this(3) obtain j s' where j: "j < length ts1" "ts2 = ts1[j := s']"
      "advance (with_rules env ic conns) (calls ! j) (ts1 ! j) st1 = (s', st2)" by (elim stepE) blast
    moreover from this path(2,3) have "j = i" by (cases "j = i") simp_all
    ultimately show ?thesis
      using path reads r_into_rtranclp [of "live_step env ic calls", OF step]
      by (intro exI [of _ h1] exI [of _ ts1] exI [of _ st1] exI [of _ h2] exI [of _ conns] exI [of _ s']
            exI [of _ st2]) simp
  qed
qed

text \<open>The stages at which the sandbox has been or is about to be entered.\<close>

definition cleared_to_run :: "stage \<Rightarrow> bool" where
  "cleared_to_run s =
     (case s of
        Resolved d \<Rightarrow> allowed d | Executed d r \<Rightarrow> True | Ending p d sr \<Rightarrow> sr \<noteq> None
      | Finished (Inr res) \<Rightarrow> ir_sandbox_result res \<noteq> None | _ \<Rightarrow> False)"

text \<open>A call comes there only from an allowing decision, through the check of its requirements.\<close>

lemma advance_enters_cleared:
  assumes "\<not> cleared_to_run s" and "advance ic (env, ctx, req) s st = (s', st')" and "cleared_to_run s'"
  shows "\<exists>d d'. s = Decided d \<and> allowed d \<and> allowed d' \<and>
           fst (safely_resolve_action_requirements ic ctx req d (approval_state st)) = Inr d'"
proof (cases s)
  case (Ending p d sr)
  with assms show ?thesis
    by (auto simp: cleared_to_run_def audit_and_wrap_def split: prod.split_asm sum.split_asm option.split_asm)
qed (use assms in \<open>auto simp: cleared_to_run_def split: prod.split_asm sum.split_asm bool.split_asm if_split_asm\<close>)

text \<open>A decision comes only from the engine, which reads the rules.\<close>

lemma advance_enters_decided:
  assumes "s \<noteq> Decided d" and "advance ic (env, ctx, req) s st = (Decided d, st')"
  shows "s = Admitted" and "st' = st" and "evaluate_decision ic ctx req = Inr d"
  using assms
  by (cases s; auto split: prod.split_asm sum.split_asm bool.split_asm if_split_asm option.split_asm)+

text \<open>The engine is asked in one stage only.\<close>

lemma advance_other_engine:
  "s \<noteq> Admitted \<Longrightarrow> advance (ic\<lparr>policy_engine := pe\<rparr>) c s st = advance ic c s st"
  by (cases c; cases s)
     (simp_all add: breaker_rejects_def safely_resolve_action_requirements_def
        resolve_action_requirements_def execute_sandboxed_def record_circuit_breaker_outcome_def
        audit_and_wrap_def)

section \<open>Properties\<close>

text \<open>
  C12: A row deleted during an evaluation lifts the approval: take any call that the tables permit only
  with human approval, and let another process delete the row of its function between the last two
  queries of the evaluation. The tables before the deletion ask for approval, the tables after it deny
  the call; but the evaluation that the deletion cuts in two allows the call without approval.
\<close>

theorem torn_read_skips_approval:
  assumes "db_permits env db ctx req" and "db_requires_approval db (tool_name req) (function_name req)"
  shows "db_evaluate env (Inr db) ctx req = Inr pending_approval \<and>
         (\<nexists>d. db_evaluate env (Inr (delete_function (tool_name req) (function_name req) db)) ctx req = Inr d \<and>
              allowed d) \<and>
         db_evaluate_reads env
           (\<lambda>i. if i < 7 then db else delete_function (tool_name req) (function_name req) db) ctx req =
           Inr checks_passed"
proof (intro conjI notI)
  show "db_evaluate env (Inr db) ctx req = Inr pending_approval"
    using db_evaluate_permitted [OF assms(1)] assms(2) by (simp add: grant_def)
  show "db_evaluate_reads env
      (\<lambda>i. if i < 7 then db else delete_function (tool_name req) (function_name req) db) ctx req = Inr checks_passed"
    by (simp add: reads_last [OF assms(1)] deleted_function grant_def)
next
  let ?db = "delete_function (tool_name req) (function_name req) db"
  assume "\<exists>d. db_evaluate env (Inr ?db) ctx req = Inr d \<and> allowed d"
  then have "db_permits env ?db ctx req" using db_evaluate_allowedD by blast
  then show False using deleted_function(1) by (blast elim: db_permits_checks)
qed

lemma seeded_deploy_permitted:
  "db_permits sample_env (seed_example empty_db) (sample_context [''DeployEngineer''])
     (sample_request ''deploy_tool'' ''deploy'' [])"
  "db_requires_approval (seed_example empty_db) ''deploy_tool'' ''deploy''"
proof -
  have "db_evaluate sample_env (Inr (seed_example empty_db)) (sample_context [''DeployEngineer''])
      (sample_request ''deploy_tool'' ''deploy'' []) = Inr pending_approval" by code_simp
  then show "db_permits sample_env (seed_example empty_db) (sample_context [''DeployEngineer''])
      (sample_request ''deploy_tool'' ''deploy'' [])"
    using db_evaluate_allowedD by (fastforce simp: pending_approval_def)
  show "db_requires_approval (seed_example empty_db) ''deploy_tool'' ''deploy''" by code_simp
qed

theorem torn_read_skips_approval_witness:
  "db_evaluate_reads sample_env
     (\<lambda>i. if i < 7 then seed_example empty_db
          else delete_function ''deploy_tool'' ''deploy'' (seed_example empty_db))
     (sample_context [''DeployEngineer'']) (sample_request ''deploy_tool'' ''deploy'' []) = Inr checks_passed"
  using torn_read_skips_approval [OF seeded_deploy_permitted(1)] seeded_deploy_permitted(2)
  by (simp add: sample_request_def cong: if_cong)

text \<open>
  C11: The rules in force decide, under every interleaving of calls with rule changes and failures of the
  connection, which may fall between two awaits and between two queries of an evaluation. A call that had not
  been evaluated when the history began enters the sandbox only if, earlier on this schedule, it was
  evaluated: its eight queries were made in order on connections in force at that time, each of them
  saw tables, every layer of the permission hierarchy held by the tables its query saw; and if the tables of the
  last query asked for approval, then later on the schedule, while the call stood at its decision, it was
  approved by the state of the approvals of that moment. Tables that did not change during the evaluation
  permit the call as a whole (\<open>db_permits_reads\<close>).
\<close>

theorem live_rules_decide_execution:
  assumes "live_reach env ic calls ([conn0], ts0, st0) (h, ts, st)" and "calls ! i = (ce, ctx, req)"
    and "ts0 ! i \<in> {Waiting, Admitted}" and "0 < decision_timeout_s ic" and "cleared_to_run (ts ! i)"
  shows "\<exists>h1 ts1 st1 h2 dbs d h3 ts3 st3.
           live_reach env ic calls ([conn0], ts0, st0) (h1, ts1, st1) \<and> ts1 ! i = Admitted \<and>
           reads_during h1 h2 (map Inr dbs) \<and> length dbs = 8 \<and> reads_permit env (nth dbs) ctx req \<and>
           d = grant (db_requires_approval (dbs ! 7) (tool_name req) (function_name req)) \<and>
           live_reach env ic calls (h1, ts1, st1) (h2, ts1[i := Decided d], st1) \<and>
           live_reach env ic calls (h2, ts1[i := Decided d], st1) (h3, ts3, st3) \<and> ts3 ! i = Decided d \<and>
           (db_requires_approval (dbs ! 7) (tool_name req) (function_name req) \<longrightarrow>
              approves ic ctx req pending_approval (approval_state st3)) \<and>
           live_reach env ic calls (h3, ts3, st3) (h, ts, st)"
proof -
  have "\<not> cleared_to_run (ts0 ! i)" using assms(3) by (auto simp: cleared_to_run_def)
  from live_enters [where H = cleared_to_run, OF assms(1) this assms(5)]
  obtain h3 ts3 st3 h4 conns3 s4 st4 where p3: "live_reach env ic calls ([conn0], ts0, st0) (h3, ts3, st3)"
    and s3: "\<not> cleared_to_run (ts3 ! i)" "cleared_to_run s4"
    and adv3: "advance (with_rules env ic conns3) (ce, ctx, req) (ts3 ! i) st3 = (s4, st4)"
    and p4: "live_reach env ic calls (h3, ts3, st3) (h4, ts3[i := s4], st4)"
      "live_reach env ic calls (h4, ts3[i := s4], st4) (h, ts, st)"
    unfolding assms(2) by blast
  from advance_enters_cleared [OF s3(1) adv3 s3(2)] obtain d d' where d: "ts3 ! i = Decided d" "allowed d" "allowed d'"
    "fst (safely_resolve_action_requirements (with_rules env ic conns3) ctx req d (approval_state st3)) = Inr d'"
    by blast
  have "ts0 ! i \<noteq> Decided d" using assms(3) by auto
  from live_enters [where H = "\<lambda>s. s = Decided d", OF p3 this d(1)]
  obtain h1 ts1 st1 h2 conns st2 where p1: "live_reach env ic calls ([conn0], ts0, st0) (h1, ts1, st1)"
    and s1: "ts1 ! i \<noteq> Decided d" and reads: "reads_during h1 h2 conns" "length conns = 8"
    and adv1: "advance (with_rules env ic conns) (ce, ctx, req) (ts1 ! i) st1 = (Decided d, st2)"
    and p2: "live_reach env ic calls (h1, ts1, st1) (h2, ts1[i := Decided d], st2)"
      "live_reach env ic calls (h2, ts1[i := Decided d], st2) (h3, ts3, st3)"
    unfolding assms(2) by blast
  note ent = advance_enters_decided [OF s1 adv1]
  have "db_evaluate_conns env (nth conns) ctx req = Inr d"
    using ent(3) d(2) assms(4)
    by (auto simp: evaluate_decision_def with_rules_def wait_for_def split: sum.split_asm if_split_asm)
  from db_evaluate_conns_allowed [OF this d(2)] obtain dbf where dbf: "\<forall>k < 8. conns ! k = Inr (dbf k)"
    "reads_permit env dbf ctx req" "d = grant (db_requires_approval (dbf 7) (tool_name req) (function_name req))"
    by blast
  obtain dbs where dbs: "length dbs = 8" "\<And>k. k < 8 \<Longrightarrow> dbs ! k = dbf k"
    by (rule that [of "map dbf [0..<8]"]) simp_all
  have conns: "conns = map Inr dbs" using dbf(1) reads(2) dbs by (intro nth_equalityI) simp_all
  have permit: "reads_permit env (nth dbs) ctx req"
    using dbf(2) by (simp add: reads_permit_def dbs(2) del: check_identity.simps)
  have appr: "approves ic ctx req pending_approval (approval_state st3)"
    if "db_requires_approval (dbf 7) (tool_name req) (function_name req)"
    using d(3,4) dbf(3) that resolve_allowed [of "with_rules env ic conns3" ctx req d "approval_state st3"]
    by (auto simp: grant_def pending_approval_def approves_def with_rules_def)
  have path: "live_reach env ic calls (h3, ts3, st3) (h, ts, st)" using p4 by (rule rtranclp_trans)
  show ?thesis
  proof (intro exI conjI)
    show "reads_during h1 h2 (map Inr dbs)" using reads(1) by (simp only: conns)
  qed (use p1 p2 ent permit dbf(3) d(1) appr path dbs in simp_all)
qed

text \<open>
  C13: A call that was evaluated runs whatever the rules have become: if the tables permit a call, and the
  reviewer approves it where that is required, then there is a schedule in which the connection is
  exchanged for any other (whose tables may deny the call, or which may raise) right after the evaluation,
  while the approval is still to be asked for, and the sandbox is entered under it all the same.
\<close>

theorem revocation_misses_pending_call:
  assumes "db_permits env db ctx req" and "0 < decision_timeout_s ic"
    and "db_requires_approval db (tool_name req) (function_name req) \<longrightarrow>
           (\<forall>ap. approves ic ctx req pending_approval ap)"
  shows "\<exists>d d' st1. allowed d' \<and>
     live_reach env ic [(ce, ctx, req)] ([Inr db], [Admitted], st) ([Inr db], [Decided d], st) \<and>
     live_reach env ic [(ce, ctx, req)] ([conn', Inr db], [Decided d], st) ([conn', Inr db], [Resolved d'], st1) \<and>
     live_step env ic [(ce, ctx, req)] ([Inr db], [Decided d], st) ([conn', Inr db], [Decided d], st) \<and>
     live_step env ic [(ce, ctx, req)] ([conn', Inr db], [Resolved d'], st1)
       ([conn', Inr db], [fst (advance ic (ce, ctx, req) (Resolved d') st1)],
        st1\<lparr>sandbox_state := snd (sandbox ic req ctx (sandbox_state st1))\<rparr>)"
proof -
  let ?c = "(ce, ctx, req)" and ?ic = "ruled_by env ic"
  have "granted (?ic (Inr db)) ctx req ap" for ap
    by (subst db_granted [where env = env and conn = "Inr db"]) (use assms in \<open>simp_all add: approves_def\<close>)
  from advances_granted [OF this, of ce st] obtain d' st1 where
    two: "advances 2 (?ic (Inr db)) ?c (Admitted, st) = (Resolved d', st1)" "allowed d'" by blast
  obtain s1 st' where one: "advance (?ic (Inr db)) ?c Admitted st = (s1, st')" by fastforce
  then have next_stage: "advance (?ic (Inr db)) ?c s1 st' = (Resolved d', st1)"
    using two(1) by (simp add: numeral_2_eq_2)
  obtain d where d: "s1 = Decided d" "st' = st"
    using one next_stage by (auto split: sum.splits prod.splits)
  have go: "live_step env ic [?c] (conn # h, [s], st) (conn # h, [s'], st')"
    if "advance (?ic conn) ?c s st = (s', st')" "\<not> is_finished s" for conn h s st s' st'
    using go_on [of 0 "[?c]" "[s]" "?ic conn" st s' st'] that by (auto intro: live_step_unchanged)
  have "live_step env ic [?c] ([Inr db], [Admitted], st) ([Inr db], [Decided d], st)"
    by (rule go) (use one d in \<open>simp_all add: is_finished_def\<close>)
  moreover have "live_step env ic [?c] ([conn', Inr db], [Decided d], st) ([conn', Inr db], [Resolved d'], st1)"
    using go [of conn' "Decided d" st] next_stage d advance_other_engine [of "Decided d" "db_engine env (Inr db)" ic ?c st]
        advance_other_engine [of "Decided d" "db_engine env conn'" ic ?c st]
    by (simp add: is_finished_def)
  moreover have "advance (?ic conn') ?c (Resolved d') st1 =
      (fst (advance ic ?c (Resolved d') st1), st1\<lparr>sandbox_state := snd (sandbox ic req ctx (sandbox_state st1))\<rparr>)"
    using two(2) by (auto simp: execute_sandboxed_def split: prod.split sum.split)
  then have "live_step env ic [?c] ([conn', Inr db], [Resolved d'], st1)
      ([conn', Inr db], [fst (advance ic ?c (Resolved d') st1)],
       st1\<lparr>sandbox_state := snd (sandbox ic req ctx (sandbox_state st1))\<rparr>)"
    by (rule go) (simp add: is_finished_def)
  ultimately show ?thesis using two(2) rules_change [of env ic "[?c]" "[Inr db]" "[Decided d]" st conn'] by blast
qed

definition approving :: "(mem_backend, approval_queue, nat) interceptor" where
  "approving = shipped_stack\<lparr>approval_callback := Some (\<lambda>ctx req d ap. (Inr True, ap))\<rparr>"

theorem revocation_misses_pending_call_witness:
  "\<exists>d st1 st2. live_reach sample_env approving
       [(sample_call_env, sample_context [''DeployEngineer''], sample_request ''deploy_tool'' ''deploy'' [])]
       ([Inr (seed_example empty_db)], [Admitted], sample_state)
       ([Inr empty_db, Inr (seed_example empty_db)], [Resolved d], st1) \<and> allowed d \<and>
     live_step sample_env approving
       [(sample_call_env, sample_context [''DeployEngineer''], sample_request ''deploy_tool'' ''deploy'' [])]
       ([Inr empty_db, Inr (seed_example empty_db)], [Resolved d], st1) st2"
proof -
  have "0 < decision_timeout_s approving" by (simp add: approving_def shipped_stack_def)
  moreover have "approves approving ctx req d ap" for ctx req d ap by (simp add: approves_def approving_def)
  ultimately show ?thesis
    using revocation_misses_pending_call [OF seeded_deploy_permitted(1), of approving sample_call_env
        sample_state "Inr empty_db"]
    by (blast intro: rtranclp.rtrancl_into_rtrancl rtranclp_trans)
qed

text \<open>The deployment over the seeded tables, approved: where it stands resolved, some tables have permitted it.\<close>

theorem live_rules_decide_execution_witness:
  "\<exists>h ts st dbs. live_reach sample_env approving
       [(sample_call_env, sample_context [''DeployEngineer''], sample_request ''deploy_tool'' ''deploy'' [])]
       ([Inr (seed_example empty_db)], [Admitted], sample_state) (h, ts, st) \<and>
     cleared_to_run (ts ! 0) \<and> length dbs = 8 \<and>
     reads_permit sample_env (nth dbs) (sample_context [''DeployEngineer''])
        (sample_request ''deploy_tool'' ''deploy'' [])"
proof -
  let ?ctx = "sample_context [''DeployEngineer'']" and ?req = "sample_request ''deploy_tool'' ''deploy'' []"
  let ?calls = "[(sample_call_env, ?ctx, ?req)]" and ?h = "[Inr (seed_example empty_db)] :: db_conn list"
  let ?ic = "ruled_by sample_env approving (Inr (seed_example empty_db))"
  have timeout: "0 < decision_timeout_s approving" by (simp add: approving_def shipped_stack_def)
  have "granted ?ic ?ctx ?req ap" for ap
    using db_granted [of ?ic sample_env "Inr (seed_example empty_db)" ?ctx ?req ap] timeout seeded_deploy_permitted(1)
    by (simp add: approves_def) (simp add: approving_def)
  from advances_granted [OF this, of sample_call_env sample_state] obtain d st1 where
    two: "advances 2 ?ic (sample_call_env, ?ctx, ?req) (Admitted, sample_state) = (Resolved d, st1)"
    and al: "allowed d" by blast
  from two handler.steps_alone [of 0 ?calls "[Admitted]"]
  have "(step ?ic ?calls)\<^sup>*\<^sup>* ([Admitted], sample_state) ([Resolved d], st1)" by simp
  then have r: "live_reach sample_env approving ?calls (?h, [Admitted], sample_state) (?h, [Resolved d], st1)"
    by (rule live_reach_steps)
  have cleared: "cleared_to_run ([Resolved d] ! 0)" using al by (simp add: cleared_to_run_def)
  have call: "?calls ! 0 = (sample_call_env, ?ctx, ?req)" and start: "[Admitted] ! 0 \<in> {Waiting, Admitted}" by simp_all
  obtain dbs :: "db_tables list" where "length dbs = 8" "reads_permit sample_env (nth dbs) ?ctx ?req"
    using live_rules_decide_execution [OF r call start timeout cleared] by blast
  with r cleared show ?thesis by blast
qed

end
