(* ===== verification/RedisBreaker.thy ===== *)
theory RedisBreaker
  imports Breaker Sha256
begin

text \<open>
  \<open>RedisCircuitBreakerBackend\<close> of \<^verbatim>\<open>reliability/circuit_breaker.py\<close>. The Redis client is a parameter,
  \<open>redis_client\<close>: its six commands on a server state of any type, each at the reading of the server's
  clock at which it is executed, each able to raise. \<open>redis_server\<close> states what the documentation of
  the commands promises for sorted sets and expiring keys. The laws are discharged on two clients: \<open>fake_client\<close> is
  \<open>FakeAsyncRedis\<close> of \<^verbatim>\<open>tests/unit/test_redis_circuit_breaker.py\<close>, whose \<open>expire\<close> does nothing; in \<open>expiring_client\<close>
  a key is gone once its timeout has passed, as on a real server.

  \<open>redis_open_verdict\<close> is what an open check decides, as a function of the members inside the window and
  the life of the sentinel key. It has no half-open state: where the in-memory backend starts
  afresh after the cooldown, this one counts the same failures again.
\<close>

section \<open>The client\<close>

text \<open>A member of a reply: \<open>bytes\<close>, or \<open>str\<close> with a client that decodes.\<close>

datatype redis_value = RBytes "byte list" | RStr string

record 'r redis_client =
  zadd :: "pyfloat \<Rightarrow> string \<Rightarrow> string \<Rightarrow> pyfloat \<Rightarrow> 'r \<Rightarrow> unit result \<times> 'r"
  zremrangebyscore :: "pyfloat \<Rightarrow> string \<Rightarrow> pyfloat \<Rightarrow> pyfloat \<Rightarrow> 'r \<Rightarrow> unit result \<times> 'r"
  expire :: "pyfloat \<Rightarrow> string \<Rightarrow> int \<Rightarrow> 'r \<Rightarrow> unit result \<times> 'r"
  zrange :: "pyfloat \<Rightarrow> string \<Rightarrow> int \<Rightarrow> int \<Rightarrow> 'r \<Rightarrow> redis_value list result \<times> 'r"
  ttl :: "pyfloat \<Rightarrow> string \<Rightarrow> 'r \<Rightarrow> int result \<times> 'r"
  setex :: "pyfloat \<Rightarrow> string \<Rightarrow> int \<Rightarrow> string \<Rightarrow> 'r \<Rightarrow> unit result \<times> 'r"

text \<open>Awaiting one command after the other; an exception ends the sequence.\<close>

definition and_then :: "'a result \<times> 'r \<Rightarrow> ('a \<Rightarrow> 'r \<Rightarrow> 'b result \<times> 'r) \<Rightarrow> 'b result \<times> 'r" where
  "and_then m f = (case m of (Inl e, r) \<Rightarrow> (Inl e, r) | (Inr x, r) \<Rightarrow> f x r)"

text \<open>\<open>bytes.decode()\<close> for the code points below 256; other byte sequences raise here.\<close>

fun utf8_decode :: "byte list \<Rightarrow> string result" where
  "utf8_decode [] = Inr []"
| "utf8_decode (b # bs) =
     (if unat b < 128 then map_sum id ((#) (char_of (unat b))) (utf8_decode bs)
      else (case bs of
              [] \<Rightarrow> Inl (Exn (OtherException ''UnicodeDecodeError'') ''unexpected end of data'')
            | c # cs \<Rightarrow>
                (if (unat b = 194 \<or> unat b = 195) \<and> 128 \<le> unat c \<and> unat c < 192
                 then map_sum id ((#) (char_of ((unat b - 192) * 64 + (unat c - 128)))) (utf8_decode cs)
                 else Inl (Exn (OtherException ''UnicodeDecodeError'') ''invalid byte''))))"

fun redis_text :: "redis_value \<Rightarrow> string result" where
  "redis_text (RBytes bs) = utf8_decode bs"
| "redis_text (RStr s) = Inr s"

fun redis_texts :: "redis_value list \<Rightarrow> string list result" where
  "redis_texts [] = Inr []"
| "redis_texts (v # vs) =
     (case redis_text v of
        Inl e \<Rightarrow> Inl e
      | Inr s \<Rightarrow> map_sum id ((#) s) (redis_texts vs))"


section \<open>RedisCircuitBreakerBackend\<close>

record redis_config =
  rd_window_seconds :: int
  rd_failure_threshold :: pyfloat
  rd_min_samples :: int
  rd_cooldown_seconds :: int
  rd_key_prefix :: string

definition default_redis_config :: redis_config where
  "default_redis_config =
     \<lparr>rd_window_seconds = 60, rd_failure_threshold = fl (1 / 2), rd_min_samples = 5,
      rd_cooldown_seconds = 30, rd_key_prefix = ''aimw:cb''\<rparr>"

definition events_key :: "redis_config \<Rightarrow> string \<Rightarrow> string" where
  "events_key cfg key = rd_key_prefix cfg @ '':events:'' @ key"

definition tripped_key :: "redis_config \<Rightarrow> string \<Rightarrow> string" where
  "tripped_key cfg key = rd_key_prefix cfg @ '':tripped:'' @ key"

text \<open>
  The clock readings of one operation: \<open>time.time_ns()\<close>, the two of \<open>time.time()\<close>, and the server's
  clock at its commands.
\<close>

record redis_times =
  rt_ns :: int
  rt_add :: pyfloat
  rt_cut :: pyfloat
  rt_server :: "nat \<Rightarrow> pyfloat"

definition member_text :: "int \<Rightarrow> bool \<Rightarrow> string" where
  "member_text ns success = str_int ns @ '':'' @ (if success then ''1'' else ''0'')"

definition cutoff :: "redis_config \<Rightarrow> redis_times \<Rightarrow> pyfloat" where
  "cutoff cfg tm = fsub (rt_cut tm) (fl (of_int (rd_window_seconds cfg)))"

definition redis_record ::
  "'r redis_client \<Rightarrow> redis_config \<Rightarrow> redis_times \<Rightarrow> string \<Rightarrow> bool \<Rightarrow> 'r \<Rightarrow> unit result \<times> 'r" where
  "redis_record rc cfg tm key success r =
     (let ek = events_key cfg key in
      and_then (zadd rc (rt_server tm 0) ek (member_text (rt_ns tm) success) (rt_add tm) r)
        (\<lambda>_ r. and_then (zremrangebyscore rc (rt_server tm 1) ek 0 (cutoff cfg tm) r)
           (\<lambda>_ r. expire rc (rt_server tm 2) ek (rd_window_seconds cfg * 2) r)))"

definition redis_record_success ::
  "'r redis_client \<Rightarrow> redis_config \<Rightarrow> redis_times \<Rightarrow> string \<Rightarrow> 'r \<Rightarrow> unit result \<times> 'r" where
  "redis_record_success rc cfg tm key r = redis_record rc cfg tm key True r"

definition redis_record_failure ::
  "'r redis_client \<Rightarrow> redis_config \<Rightarrow> redis_times \<Rightarrow> string \<Rightarrow> 'r \<Rightarrow> unit result \<times> 'r" where
  "redis_record_failure rc cfg tm key r = redis_record rc cfg tm key False r"

text \<open>Its two commands are number \<open>i\<close> and \<open>i + 1\<close> of the operation.\<close>

definition recent_events ::
  "'r redis_client \<Rightarrow> redis_config \<Rightarrow> redis_times \<Rightarrow> nat \<Rightarrow> string \<Rightarrow> 'r \<Rightarrow> string list result \<times> 'r" where
  "recent_events rc cfg tm i key r =
     (let ek = events_key cfg key in
      and_then (zremrangebyscore rc (rt_server tm i) ek 0 (cutoff cfg tm) r)
        (\<lambda>_ r. and_then (zrange rc (rt_server tm (i + 1)) ek 0 (- 1) r)
           (\<lambda>members r. (redis_texts members, r))))"

text \<open>\<open>e.endswith(":0")\<close>\<close>

definition is_failure :: "string \<Rightarrow> bool" where
  "is_failure e \<longleftrightarrow> 2 \<le> length e \<and> drop (length e - 2) e = '':0''"

definition failure_count :: "string list \<Rightarrow> nat" where
  "failure_count evs = length (filter is_failure evs)"

definition redis_score ::
  "'r redis_client \<Rightarrow> redis_config \<Rightarrow> redis_times \<Rightarrow> string \<Rightarrow> 'r \<Rightarrow> pyfloat result \<times> 'r" where
  "redis_score rc cfg tm key r =
     and_then (recent_events rc cfg tm 0 key r)
       (\<lambda>evs r. (Inr (if evs = [] then 0 else int_div (failure_count evs) (length evs)), r))"

definition redis_is_open ::
  "'r redis_client \<Rightarrow> redis_config \<Rightarrow> redis_times \<Rightarrow> string \<Rightarrow> 'r \<Rightarrow> bool result \<times> 'r" where
  "redis_is_open rc cfg tm key r =
     (let tk = tripped_key cfg key in
      and_then (ttl rc (rt_server tm 0) tk r)
        (\<lambda>n r. if 0 < n then (Inr True, r)
               else and_then (recent_events rc cfg tm 1 key r)
                 (\<lambda>evs r.
                    if int (length evs) < rd_min_samples cfg then (Inr False, r)
                    else if evs = [] then (Inl (Exn ZeroDivisionError ''division by zero''), r)
                    else if rd_failure_threshold cfg \<le> int_div (failure_count evs) (length evs)
                    then and_then (setex rc (rt_server tm 3) tk (rd_cooldown_seconds cfg) ''1'' r)
                           (\<lambda>_ r. (Inr True, r))
                    else (Inr False, r))))"

text \<open>The backend as the facade calls it; \<open>readings\<close> gives the readings of the operation at \<open>now\<close>.\<close>

definition redis_backend_ops ::
  "'r redis_client \<Rightarrow> redis_config \<Rightarrow> (pyfloat \<Rightarrow> redis_times) \<Rightarrow> 'r backend_ops" where
  "redis_backend_ops rc cfg readings =
     \<lparr>op_record_success = (\<lambda>key now. redis_record_success rc cfg (readings now) key),
      op_record_failure = (\<lambda>key now. redis_record_failure rc cfg (readings now) key),
      op_is_open = (\<lambda>key now. redis_is_open rc cfg (readings now) key),
      op_score = (\<lambda>key now. redis_score rc cfg (readings now) key)\<rparr>"

text \<open>The two keys of a circuit are different.\<close>

lemma keys_differ: "events_key cfg key \<noteq> tripped_key cfg key'"
  by (simp add: events_key_def tripped_key_def)

section \<open>What the commands promise\<close>

text \<open>
  \<open>zset t r k\<close> is the sorted set that the server lists at its time \<open>t\<close> for a key, as a map from members to
  scores, if it is in state \<open>r\<close> and no other command comes before; it is empty once the key's timeout has
  passed. A command at time \<open>t\<close> leaves a key \<open>untouched\<close> if the same is listed for it at any later time.
\<close>

definition untouched :: "(pyfloat \<Rightarrow> 'r \<Rightarrow> string \<Rightarrow> string \<rightharpoonup> pyfloat) \<Rightarrow> pyfloat \<Rightarrow> 'r \<Rightarrow> 'r \<Rightarrow> string \<Rightarrow> bool" where
  "untouched zset t r r' k \<longleftrightarrow> (\<forall>t' \<ge> t. zset t' r' k = zset t' r k)"

lemma untouched_at: "untouched zset t r r' k \<Longrightarrow> t \<le> t' \<Longrightarrow> zset t' r' k = zset t' r k"
  by (simp add: untouched_def)

definition cut_scores :: "pyfloat \<Rightarrow> pyfloat \<Rightarrow> (string \<rightharpoonup> pyfloat) \<Rightarrow> string \<rightharpoonup> pyfloat" where
  "cut_scores lo hi z = (\<lambda>m. case z m of None \<Rightarrow> None | Some s \<Rightarrow> if lo \<le> s \<and> s \<le> hi then None else Some s)"

text \<open>
  \<open>live t r k\<close> says that a string key still has time to live, \<open>valid r\<close> that \<open>r\<close> is a state of the
  server. A command may fail; the laws say what it does if it does not. \<open>ZADD\<close> leaves the timeout of its key
  alone, so the new member is listed until that has passed; \<open>EXPIRE\<close> with a positive number of seconds keeps the key
  for so long (and no longer, on which nothing here relies); \<open>SETEX\<close> may overwrite whatever its key held.
\<close>

locale redis_server =
  fixes rc :: "'r redis_client" and zset :: "pyfloat \<Rightarrow> 'r \<Rightarrow> string \<Rightarrow> string \<rightharpoonup> pyfloat"
    and live :: "pyfloat \<Rightarrow> 'r \<Rightarrow> string \<Rightarrow> bool"
    and valid :: "'r \<Rightarrow> bool"
  assumes zadd_law: "valid r \<Longrightarrow> zadd rc t k m s r = (Inr (), r') \<Longrightarrow> valid r' \<and>
      zset t r' k = (zset t r k)(m \<mapsto> s) \<and> (\<forall>t' \<ge> t. zset t' r' k \<in> {zset t r' k, Map.empty}) \<and>
      (\<forall>k'. k' \<noteq> k \<longrightarrow> untouched zset t r r' k')"
    and zrem_law: "valid r \<Longrightarrow> zremrangebyscore rc t k lo hi r = (Inr (), r') \<Longrightarrow> valid r' \<and>
      (\<forall>t' \<ge> t. zset t' r' k = cut_scores lo hi (zset t' r k)) \<and>
      (\<forall>k'. k' \<noteq> k \<longrightarrow> untouched zset t r r' k')"
    and expire_law: "valid r \<Longrightarrow> expire rc t k n r = (Inr (), r') \<Longrightarrow> valid r' \<and>
      (0 < n \<longrightarrow> (\<forall>t'. t \<le> t' \<and> t' < t + of_int n \<longrightarrow> zset t' r' k = zset t r k)) \<and>
      (\<forall>k'. k' \<noteq> k \<longrightarrow> untouched zset t r r' k')"
    and zrange_law: "valid r \<Longrightarrow> zrange rc t k 0 (- 1) r = (Inr vs, r') \<Longrightarrow> valid r' \<and>
      (\<exists>ms. redis_texts vs = Inr ms \<and> distinct ms \<and> set ms = dom (zset t r k)) \<and>
      (\<forall>k'. untouched zset t r r' k')"
    and ttl_law: "valid r \<Longrightarrow> ttl rc t k r = (Inr n, r') \<Longrightarrow> valid r' \<and>
      (0 < n \<longleftrightarrow> live t r k) \<and> (\<forall>k'. untouched zset t r r' k')"
    and setex_law: "valid r \<Longrightarrow> setex rc t k n v r = (Inr (), r') \<Longrightarrow> valid r' \<and>
      (\<forall>k'. k' \<noteq> k \<longrightarrow> untouched zset t r r' k')"
begin

text \<open>The members that an operation counts whose \<open>ZRANGE\<close> is its command number \<open>i + 1\<close>.\<close>

definition counted :: "redis_config \<Rightarrow> redis_times \<Rightarrow> nat \<Rightarrow> string \<Rightarrow> 'r \<Rightarrow> string set" where
  "counted cfg tm i key r = dom (cut_scores 0 (cutoff cfg tm) (zset (rt_server tm (i + 1)) r (events_key cfg key)))"

lemma recent_events_counted:
  assumes "valid r" and "recent_events rc cfg tm i key r = (Inr evs, r')" and "mono (rt_server tm)"
  shows "valid r'" and "distinct evs" and "set evs = counted cfg tm i key r"
    and "rt_server tm (i + 1) \<le> t' \<Longrightarrow>
      zset t' r' (events_key cfg key) = cut_scores 0 (cutoff cfg tm) (zset t' r (events_key cfg key))"
proof -
  obtain r1 vs where cut: "zremrangebyscore rc (rt_server tm i) (events_key cfg key) 0 (cutoff cfg tm) r = (Inr (), r1)"
    and rng: "zrange rc (rt_server tm (i + 1)) (events_key cfg key) 0 (- 1) r1 = (Inr vs, r')"
    and tx: "redis_texts vs = Inr evs"
    using assms(2) by (auto simp: recent_events_def and_then_def Let_def split: prod.splits sum.splits)
  have later: "rt_server tm i \<le> rt_server tm (i + 1)" using assms(3) by (simp add: mono_def)
  have z: "zset t' r1 (events_key cfg key) = cut_scores 0 (cutoff cfg tm) (zset t' r (events_key cfg key))"
    if "rt_server tm (i + 1) \<le> t'" for t'
    using zrem_law [OF assms(1) cut] later that by (meson order_trans)
  have v: "valid r1" using zrem_law [OF assms(1) cut] by simp
  note reply = zrange_law [OF v rng]
  from reply tx show "valid r'" "distinct evs" by auto
  from reply tx z [OF order_refl] show "set evs = counted cfg tm i key r" by (auto simp: counted_def)
  assume "rt_server tm (i + 1) \<le> t'"
  then show "zset t' r' (events_key cfg key) = cut_scores 0 (cutoff cfg tm) (zset t' r (events_key cfg key))"
    using untouched_at [of zset "rt_server tm (i + 1)" r1 r' "events_key cfg key" t'] reply z by simp
qed

lemma counts:
  assumes "distinct evs" and "set evs = M"
  shows "length evs = card M" and "failure_count evs = card {m \<in> M. is_failure m}"
proof -
  show "length evs = card M" using assms distinct_card by metis
  have "card (set (filter is_failure evs)) = failure_count evs"
    unfolding failure_count_def using assms(1) by (intro distinct_card) simp
  then show "failure_count evs = card {m \<in> M. is_failure m}" using assms(2) by simp
qed

lemma is_open_verdict:
  assumes "valid r" and "redis_is_open rc cfg tm key r = (Inr b, r')" and "mono (rt_server tm)"
  shows "b \<longleftrightarrow> live (rt_server tm 0) r (tripped_key cfg key) \<or>
           rd_min_samples cfg \<le> int (card (counted cfg tm 1 key r)) \<and>
           rd_failure_threshold cfg \<le> int_div (card {m \<in> counted cfg tm 1 key r. is_failure m})
             (card (counted cfg tm 1 key r))"
    and "valid r'"
    and "rt_server tm 3 \<le> t' \<Longrightarrow> zset t' r' (events_key cfg key) =
           (if live (rt_server tm 0) r (tripped_key cfg key) then zset t' r (events_key cfg key)
            else cut_scores 0 (cutoff cfg tm) (zset t' r (events_key cfg key)))"
proof -
  let ?ek = "events_key cfg key" and ?tk = "tripped_key cfg key"
  have clock: "rt_server tm i \<le> rt_server tm j" if "i \<le> j" for i j using assms(3) that by (simp add: mono_def)
  obtain n r0 where t: "ttl rc (rt_server tm 0) ?tk r = (Inr n, r0)"
    using assms(2) by (auto simp: redis_is_open_def and_then_def Let_def split: prod.splits sum.splits)
  have v0: "valid r0" and n: "0 < n \<longleftrightarrow> live (rt_server tm 0) r ?tk"
    and "untouched zset (rt_server tm 0) r r0 ?ek"
    using ttl_law [OF assms(1) t] by simp_all
  from untouched_at [OF this(3)] have z0: "rt_server tm 0 \<le> t' \<Longrightarrow> zset t' r0 ?ek = zset t' r ?ek" for t' .
  have "(b \<longleftrightarrow> live (rt_server tm 0) r ?tk \<or>
      rd_min_samples cfg \<le> int (card (counted cfg tm 1 key r)) \<and>
      rd_failure_threshold cfg \<le> int_div (card {m \<in> counted cfg tm 1 key r. is_failure m})
        (card (counted cfg tm 1 key r))) \<and> valid r' \<and>
    (\<forall>t' \<ge> rt_server tm 3. zset t' r' ?ek =
      (if live (rt_server tm 0) r ?tk then zset t' r ?ek else cut_scores 0 (cutoff cfg tm) (zset t' r ?ek)))"
  proof (cases "0 < n")
    case True
    then have "b" "r' = r0" using assms(2) t by (simp_all add: redis_is_open_def and_then_def Let_def)
    then show ?thesis using n True v0 z0 order_trans [OF clock [of 0 3]] by simp
  next
    case False
    obtain evs r1 where ev: "recent_events rc cfg tm 1 key r0 = (Inr evs, r1)"
      using assms(2) t False
      by (auto simp: redis_is_open_def and_then_def Let_def split: prod.splits sum.splits)
    have cnt: "counted cfg tm 1 key r0 = counted cfg tm 1 key r" by (simp add: counted_def z0 clock)
    note facts = recent_events_counted [OF v0 ev assms(3)]
    note len = counts [OF facts(2) facts(3) [unfolded cnt]]
    have tail: "valid r' \<and> zset t' r' ?ek = zset t' r1 ?ek"
      if "setex rc (rt_server tm 3) ?tk n v r1 = (Inr (), r')" "rt_server tm 3 \<le> t'" for t' n v
      using setex_law [OF facts(1) that(1)] untouched_at [OF _ that(2), of zset r1 r' ?ek] keys_differ [of cfg key key]
      by simp
    have "valid r' \<and> (\<forall>t' \<ge> rt_server tm 3. zset t' r' ?ek = zset t' r1 ?ek)"
      using assms(2) t False ev facts(1) tail
      by (auto simp: redis_is_open_def and_then_def Let_def split: prod.splits sum.splits if_splits)
    moreover have "zset t' r1 ?ek = cut_scores 0 (cutoff cfg tm) (zset t' r ?ek)" if "rt_server tm 3 \<le> t'" for t'
      using facts(4) [OF order_trans [OF clock [of "1 + 1" 3] that]] z0 [OF order_trans [OF clock [of 0 3] that]] by simp
    moreover have "b \<longleftrightarrow> rd_min_samples cfg \<le> int (length evs) \<and>
        rd_failure_threshold cfg \<le> int_div (failure_count evs) (length evs)"
      using assms(2) t False ev
      by (auto simp: redis_is_open_def and_then_def Let_def split: prod.splits sum.splits if_splits)
    ultimately show ?thesis using False n len by simp
  qed
  then show "b \<longleftrightarrow> live (rt_server tm 0) r ?tk \<or>
      rd_min_samples cfg \<le> int (card (counted cfg tm 1 key r)) \<and>
      rd_failure_threshold cfg \<le> int_div (card {m \<in> counted cfg tm 1 key r. is_failure m})
        (card (counted cfg tm 1 key r))" "valid r'"
    "rt_server tm 3 \<le> t' \<Longrightarrow> zset t' r' ?ek =
      (if live (rt_server tm 0) r ?tk then zset t' r ?ek else cut_scores 0 (cutoff cfg tm) (zset t' r ?ek))"
    by auto
qed

text \<open>A recorded outcome sets the timeout anew: what is listed then stays for twice the window.\<close>

lemma record_keeps:
  assumes "valid r" and "redis_record rc cfg tm key success r = (Inr (), r')" and "0 < rd_window_seconds cfg"
  shows "valid r'"
    and "rt_server tm 2 \<le> t' \<Longrightarrow> t' < rt_server tm 2 + of_int (rd_window_seconds cfg * 2) \<Longrightarrow>
      zset t' r' (events_key cfg key) = zset (rt_server tm 2) r' (events_key cfg key)"
proof -
  let ?ek = "events_key cfg key"
  obtain r1 r2 where add: "zadd rc (rt_server tm 0) ?ek (member_text (rt_ns tm) success) (rt_add tm) r = (Inr (), r1)"
    and cut: "zremrangebyscore rc (rt_server tm 1) ?ek 0 (cutoff cfg tm) r1 = (Inr (), r2)"
    and ex: "expire rc (rt_server tm 2) ?ek (rd_window_seconds cfg * 2) r2 = (Inr (), r')"
    using assms(2) by (auto simp: redis_record_def and_then_def Let_def split: prod.splits sum.splits)
  have "valid r2" using zadd_law [OF assms(1) add] zrem_law [OF _ cut] by blast
  note ex = expire_law [OF this ex]
  from ex show "valid r'" by simp
  assume "rt_server tm 2 \<le> t'" "t' < rt_server tm 2 + of_int (rd_window_seconds cfg * 2)"
  moreover have "rt_server tm 2 < rt_server tm 2 + of_int (rd_window_seconds cfg * 2)" using assms(3) by simp
  ultimately show "zset t' r' ?ek = zset (rt_server tm 2) r' ?ek" using ex assms(3) by simp
qed

end


section \<open>The client of the tests\<close>

text \<open>\<open>FakeAsyncRedis\<close>: sorted sets as dictionaries, strings with the time they expire.\<close>

record fake_redis =
  zsets :: "pyfloat dict dict"
  strings :: "(string \<times> pyfloat) dict"

definition fake_init :: fake_redis where
  "fake_init = \<lparr>zsets = [], strings = []\<rparr>"

definition zset_of :: "fake_redis \<Rightarrow> string \<Rightarrow> pyfloat dict" where
  "zset_of r key = (case map_of (zsets r) key of None \<Rightarrow> [] | Some z \<Rightarrow> z)"

text \<open>\<open>members_only[start:]\<close> and \<open>members_only[start : stop + 1]\<close> for non-negative indices.\<close>

definition fake_client :: "fake_redis redis_client" where
  "fake_client =
     \<lparr>zadd = (\<lambda>t key m s r. (Inr (), r\<lparr>zsets := AList.update key (AList.update m s (zset_of r key)) (zsets r)\<rparr>)),
      zremrangebyscore = (\<lambda>t key lo hi r. (Inr (),
        r\<lparr>zsets := AList.update key (filter (\<lambda>(m, s). \<not> (lo \<le> s \<and> s \<le> hi)) (zset_of r key)) (zsets r)\<rparr>)),
      expire = (\<lambda>t key n r. (Inr (), r)),
      zrange = (\<lambda>t key start stop r.
        (let members_only = map (\<lambda>(m, s). RBytes (utf8 m)) (sort_key snd (zset_of r key))
         in Inr (if stop = - 1 then drop (nat start) members_only
                 else drop (nat start) (take (nat (stop + 1)) members_only)), r)),
      ttl = (\<lambda>t key r.
        (case map_of (strings r) key of
           None \<Rightarrow> (Inr (- 2), r)
         | Some (_, expiry) \<Rightarrow>
             (let remaining = py_trunc (fsub expiry t) in
              if remaining \<le> 0 then (Inr (- 2), r\<lparr>strings := AList.delete key (strings r)\<rparr>)
              else (Inr remaining, r)))),
      setex = (\<lambda>t key n v r.
        (Inr (), r\<lparr>strings := AList.update key (v, fadd t (fl (of_int n))) (strings r)\<rparr>))\<rparr>"

text \<open>What is encoded is decoded again.\<close>

lemma utf8_decode_char: "utf8_decode (utf8_char c @ bs) = map_sum id ((#) c) (utf8_decode bs)"
proof -
  let ?n = "of_char c :: nat"
  have n: "?n < 256" by simp
  have len: "LENGTH(8) = 8" by simp
  show ?thesis
  proof (cases "?n < 128")
    case True
    then have "unat (word_of_nat ?n :: byte) = ?n" by (simp add: unat_of_nat)
    then show ?thesis using True by (simp add: utf8_char_def)
  next
    case False
    let ?h = "192 + ?n div 64" and ?l = "128 + ?n mod 64"
    have "?n div 64 = 2 \<or> ?n div 64 = 3" using n False by linarith
    then have h: "unat (word_of_nat ?h :: byte) = ?h" "?h = 194 \<or> ?h = 195"
      by (auto simp: unat_of_nat)
    have "?l < 256" using mod_less_divisor [of 64 ?n] by linarith
    then have l: "unat (word_of_nat ?l :: byte) = ?l"
      by (simp only: unat_of_nat len) simp
    have "?l < 192" using mod_less_divisor [of 64 ?n] by linarith
    moreover have "(?h - 192) * 64 + (?l - 128) = ?n" by simp
    ultimately show ?thesis using False h l by (simp add: utf8_char_def Let_def)
  qed
qed

lemma utf8_decode_utf8: "utf8_decode (utf8 s) = Inr s"
  by (induction s) (simp_all add: utf8_def utf8_decode_char)

lemma redis_texts_encoded: "redis_texts (map (\<lambda>(m, s). RBytes (utf8 m)) z) = Inr (map fst z)"
  by (induction z) (auto simp: utf8_decode_utf8)

definition fake_zset :: "pyfloat \<Rightarrow> fake_redis \<Rightarrow> string \<Rightarrow> string \<rightharpoonup> pyfloat" where
  "fake_zset t r k = map_of (zset_of r k)"

definition fake_live :: "pyfloat \<Rightarrow> fake_redis \<Rightarrow> string \<Rightarrow> bool" where
  "fake_live t r k =
     (case map_of (strings r) k of None \<Rightarrow> False | Some (_, expiry) \<Rightarrow> 0 < py_trunc (fsub expiry t))"

definition fake_valid :: "fake_redis \<Rightarrow> bool" where
  "fake_valid r \<longleftrightarrow> (\<forall>k. distinct (map fst (zset_of r k)))"

lemma zset_of_upd [simp]:
  "zset_of (r\<lparr>zsets := AList.update k z (zsets r)\<rparr>) j = (if j = k then z else zset_of r j)"
  "zset_of (r\<lparr>strings := s\<rparr>) j = zset_of r j"
  by (simp_all add: zset_of_def update_conv')

lemma map_of_filter_score:
  assumes "distinct (map fst z)"
  shows "map_of (filter (\<lambda>(m, s). lo \<le> s \<longrightarrow> \<not> s \<le> hi) z) = cut_scores lo hi (map_of z)"
proof
  show "map_of (filter (\<lambda>(m, s). lo \<le> s \<longrightarrow> \<not> s \<le> hi) z) m = cut_scores lo hi (map_of z) m" for m
    using assms by (induction z) (auto simp: cut_scores_def map_of_eq_None_iff split: option.split)
qed

lemma cut_scores_empty [simp]: "cut_scores lo hi Map.empty = Map.empty"
  by (simp add: cut_scores_def)

lemma fake_zrange:
  assumes "fake_valid r"
  shows "zrange fake_client t k 0 (- 1) r = (Inr (map (\<lambda>(m, s). RBytes (utf8 m)) (sort_key snd (zset_of r k))), r)"
    and "distinct (map fst (sort_key snd (zset_of r k)))"
    and "set (map fst (sort_key snd (zset_of r k))) = dom (map_of (zset_of r k))"
  using assms by (simp_all add: fake_client_def fake_valid_def distinct_map dom_map_of_conv_image_fst)

text \<open>It keeps the promises, keys that have a timeout included: here they never time out.\<close>

interpretation fake: redis_server fake_client fake_zset fake_live fake_valid
proof (unfold_locales, goal_cases)
  case (1 r t k m s r')
  then show ?case
    by (auto simp: fake_client_def fake_zset_def fake_valid_def untouched_def update_conv' distinct_update)
next
  case (2 r t k lo hi r')
  then show ?case
    by (auto simp: fake_client_def fake_zset_def fake_valid_def untouched_def map_of_filter_score
          distinct_map_filter simp del: not_le)
next
  case (3 r t k n r')
  then show ?case by (simp add: fake_client_def fake_zset_def untouched_def)
next
  case (4 r t k vs r')
  with fake_zrange(1) [OF 4(1), of t k] fake_zrange(2,3) [OF 4(1), of k] show ?case
    by (auto simp: redis_texts_encoded fake_zset_def untouched_def)
next
  case (5 r t k n r')
  then show ?case
    by (auto simp: fake_client_def fake_zset_def fake_valid_def fake_live_def untouched_def Let_def
          split: option.splits if_splits)
next
  case (6 r t k n v r')
  then show ?case by (auto simp: fake_client_def fake_zset_def fake_valid_def untouched_def)
qed

section \<open>A server that expires its keys\<close>

text \<open>
  The same store with the timeouts of sorted sets. A command first drops its key if the timeout has passed;
  \<open>EXPIRE\<close> sets the timeout of a key that exists, a key without members exists no longer, and \<open>SETEX\<close>
  replaces whatever its key held.
\<close>

record expiring_redis =
  store :: fake_redis
  timeouts :: "string \<rightharpoonup> rat"

definition passed :: "pyfloat \<Rightarrow> string \<Rightarrow> expiring_redis \<Rightarrow> bool" where
  "passed t key r = (case timeouts r key of None \<Rightarrow> False | Some until \<Rightarrow> until \<le> t)"

definition drop_key :: "string \<Rightarrow> expiring_redis \<Rightarrow> expiring_redis" where
  "drop_key key r =
     r\<lparr>store := (store r)\<lparr>zsets := AList.delete key (zsets (store r))\<rparr>, timeouts := (timeouts r)(key := None)\<rparr>"

definition purge :: "pyfloat \<Rightarrow> string \<Rightarrow> expiring_redis \<Rightarrow> expiring_redis" where
  "purge t key r = (if passed t key r then drop_key key r else r)"

definition on_store :: "(fake_redis \<Rightarrow> 'b result \<times> fake_redis) \<Rightarrow> expiring_redis \<Rightarrow> 'b result \<times> expiring_redis" where
  "on_store f r = (case f (store r) of (x, s) \<Rightarrow> (x, r\<lparr>store := s\<rparr>))"

definition expiring_client :: "expiring_redis redis_client" where
  "expiring_client =
     \<lparr>zadd = (\<lambda>t key m s r. on_store (zadd fake_client t key m s) (purge t key r)),
      zremrangebyscore = (\<lambda>t key lo hi r.
        (case on_store (zremrangebyscore fake_client t key lo hi) (purge t key r) of
           (x, r') \<Rightarrow> (x, if zset_of (store r') key = [] then drop_key key r' else r'))),
      expire = (\<lambda>t key n r.
        (let r' = purge t key r
         in (Inr (), if zset_of (store r') key = [] then r'
                     else r'\<lparr>timeouts := (timeouts r')(key \<mapsto> t + of_int n)\<rparr>))),
      zrange = (\<lambda>t key start stop r. on_store (zrange fake_client t key start stop) (purge t key r)),
      ttl = (\<lambda>t key r. on_store (ttl fake_client t key) r),
      setex = (\<lambda>t key n v r. on_store (setex fake_client t key n v) (drop_key key r))\<rparr>"

definition expiring_zset :: "pyfloat \<Rightarrow> expiring_redis \<Rightarrow> string \<Rightarrow> string \<rightharpoonup> pyfloat" where
  "expiring_zset t r k = (if passed t k r then Map.empty else map_of (zset_of (store r) k))"

lemma drop_key_fields [simp]:
  "zset_of (store (drop_key k r)) j = (if j = k then [] else zset_of (store r) j)"
  "timeouts (drop_key k r) = (timeouts r)(k := None)" "strings (store (drop_key k r)) = strings (store r)"
  by (simp_all add: drop_key_def zset_of_def delete_conv')

lemma purge_fields:
  "zset_of (store (purge t k r)) j = (if j = k \<and> passed t k r then [] else zset_of (store r) j)"
  "timeouts (purge t k r) j = (if j = k \<and> passed t k r then None else timeouts r j)"
  "strings (store (purge t k r)) = strings (store r)"
  by (simp_all add: purge_def)

lemma passed_later: "passed t k r \<Longrightarrow> t \<le> t' \<Longrightarrow> passed t' k r"
  by (auto simp: passed_def split: option.splits)

lemma passed_purge: "passed t' j (purge t k r) \<longleftrightarrow> passed t' j r \<and> \<not> (j = k \<and> passed t k r)"
  by (simp add: passed_def purge_fields split: option.split)

lemma purge_valid: "fake_valid (store r) \<Longrightarrow> fake_valid (store (purge t k r))"
  by (simp add: fake_valid_def purge_fields)

lemma purge_untouched: "t \<le> t' \<Longrightarrow> expiring_zset t' (purge t k r) j = expiring_zset t' r j"
  by (auto simp: expiring_zset_def passed_purge purge_fields dest: passed_later)

interpretation expiring: redis_server expiring_client expiring_zset "\<lambda>t r. fake_live t (store r)" "\<lambda>r. fake_valid (store r)"
proof (unfold_locales, goal_cases)
  case (1 r t k m s r')
  let ?p = "purge t k r"
  have r': "r' = ?p\<lparr>store := (store ?p)\<lparr>zsets := AList.update k (AList.update m s (zset_of (store ?p) k)) (zsets (store ?p))\<rparr>\<rparr>"
    using 1(2) by (simp add: expiring_client_def on_store_def fake_client_def)
  have z: "expiring_zset t' r' j = (if j = k then if passed t' k ?p then Map.empty
      else (expiring_zset t r k)(m \<mapsto> s) else expiring_zset t' r j)" if "t \<le> t'" for t' j
    using purge_untouched [OF that, of k r j]
    by (auto simp: r' expiring_zset_def passed_def purge_fields update_conv' split: if_splits option.splits)
  have "\<not> passed t k ?p" by (simp add: passed_purge)
  with z [of t k] purge_valid [OF 1(1), of t k] show ?case
    by (auto simp: z untouched_def) (simp add: r' fake_valid_def distinct_update)
next
  case (2 r t k lo hi r')
  let ?p = "purge t k r"
  let ?z = "filter (\<lambda>(m, s). \<not> (lo \<le> s \<and> s \<le> hi)) (zset_of (store ?p) k)"
  have r': "r' = (let r1 = ?p\<lparr>store := (store ?p)\<lparr>zsets := AList.update k ?z (zsets (store ?p))\<rparr>\<rparr>
      in if ?z = [] then drop_key k r1 else r1)"
    using 2(2) by (simp add: expiring_client_def on_store_def fake_client_def Let_def)
  have v: "fake_valid (store ?p)" by (rule purge_valid [OF 2(1)])
  have cut: "map_of ?z = cut_scores lo hi (map_of (zset_of (store ?p) k))"
    using v map_of_filter_score [of "zset_of (store ?p) k" lo hi] by (simp add: fake_valid_def)
  have "expiring_zset t' r' j = (if j = k then cut_scores lo hi (expiring_zset t' ?p k) else expiring_zset t' ?p j)"
    for t' j
    using cut by (auto simp: r' Let_def expiring_zset_def passed_def simp del: not_le de_Morgan_conj)
  moreover have "fake_valid (store r')"
    using v by (auto simp: r' Let_def fake_valid_def distinct_map_filter)
  ultimately show ?case by (simp add: untouched_def purge_untouched)
next
  case (3 r t k n r')
  let ?p = "purge t k r"
  have r': "r' = (if zset_of (store ?p) k = [] then ?p else ?p\<lparr>timeouts := (timeouts ?p)(k \<mapsto> t + of_int n)\<rparr>)"
    using 3(2) by (simp add: expiring_client_def Let_def)
  have "expiring_zset t' r' j = (if j = k then if t' < t + of_int n \<or> zset_of (store ?p) k = []
      then map_of (zset_of (store ?p) k) else Map.empty else expiring_zset t' ?p j)" for t' j
    by (auto simp: r' expiring_zset_def passed_def)
  moreover have "expiring_zset t r k = map_of (zset_of (store ?p) k)"
    using purge_untouched [of t t k r k] by (simp add: expiring_zset_def passed_purge)
  moreover have "fake_valid (store r')" using purge_valid [OF 3(1), of t k] by (simp add: r')
  ultimately show ?case by (simp add: untouched_def purge_untouched)
next
  case (4 r t k vs r')
  let ?p = "purge t k r"
  have v: "fake_valid (store ?p)" by (rule purge_valid [OF 4(1)])
  note range = fake_zrange(1) [OF v, of t k] fake_zrange(2,3) [OF v, of k]
  have "vs = map (\<lambda>(m, s). RBytes (utf8 m)) (sort_key snd (zset_of (store ?p) k))" "r' = ?p"
    using 4(2) range(1) by (auto simp: expiring_client_def on_store_def)
  moreover have "expiring_zset t r k = map_of (zset_of (store ?p) k)"
    using purge_untouched [of t t k r k] by (simp add: expiring_zset_def passed_purge)
  ultimately show ?case
    using v range(2,3) by (simp add: redis_texts_encoded untouched_def purge_untouched)
next
  case (5 r t k n r')
  obtain s where s: "ttl fake_client t k (store r) = (Inr n, s)" "r' = r\<lparr>store := s\<rparr>"
    using 5(2) by (auto simp: expiring_client_def on_store_def split: prod.split_asm)
  note law = fake.ttl_law [OF 5(1) s(1)]
  have "zset_of s j = zset_of (store r) j" for j
    using s(1) by (auto simp: fake_client_def Let_def split: option.split_asm if_split_asm)
  then show ?case using law s(2) by (simp add: untouched_def expiring_zset_def passed_def)
next
  case (6 r t k n v r')
  have "r' = (drop_key k r)\<lparr>store := (store (drop_key k r))\<lparr>strings :=
      AList.update k (v, fadd t (fl (of_int n))) (strings (store (drop_key k r)))\<rparr>\<rparr>"
    using 6(2) by (simp add: expiring_client_def on_store_def fake_client_def)
  then show ?case using 6(1) by (auto simp: untouched_def expiring_zset_def passed_def fake_valid_def)
qed

section \<open>Properties\<close>

text \<open>The members inside the window, for the statements outside the interface: what the open check counts.\<close>

definition in_window ::
  "(pyfloat \<Rightarrow> 'r \<Rightarrow> string \<Rightarrow> string \<rightharpoonup> pyfloat) \<Rightarrow> redis_config \<Rightarrow> redis_times \<Rightarrow> string \<Rightarrow> 'r \<Rightarrow> string set" where
  "in_window zset cfg tm key r =
     {m. \<exists>s. zset (rt_server tm 2) r (events_key cfg key) m = Some s \<and> \<not> (0 \<le> s \<and> s \<le> cutoff cfg tm)}"

lemma dom_cut_scores: "dom (cut_scores lo hi z) = {m. \<exists>s. z m = Some s \<and> \<not> (lo \<le> s \<and> s \<le> hi)}"
  by (auto simp: cut_scores_def split: option.split_asm)

lemma counted_in_window:
  "redis_server rc zset live valid \<Longrightarrow> redis_server.counted zset cfg tm 1 key r = in_window zset cfg tm key r"
  by (simp add: redis_server.counted_def in_window_def dom_cut_scores numeral_2_eq_2)

text \<open>
  C35: What an open check over Redis decides, on any server that keeps the promises of its commands: if
  it returns, it says open exactly when the sentinel key still lives, or the members listed inside the
  window are at least \<open>min_samples\<close> and the share of failures among them reaches the threshold; after an
  answer that is not from the sentinel only members inside the window are listed.
\<close>

theorem redis_open_verdict:
  assumes "redis_server rc zset live valid" and "valid r" and "mono (rt_server tm)"
    and "redis_is_open rc cfg tm key r = (Inr b, r')"
  shows "(b \<longleftrightarrow> live (rt_server tm 0) r (tripped_key cfg key) \<or>
            rd_min_samples cfg \<le> int (card (in_window zset cfg tm key r)) \<and>
            rd_failure_threshold cfg \<le> int_div (card {m \<in> in_window zset cfg tm key r. is_failure m})
              (card (in_window zset cfg tm key r))) \<and>
         (\<not> live (rt_server tm 0) r (tripped_key cfg key) \<longrightarrow>
            (\<forall>t' \<ge> rt_server tm 3. zset t' r' (events_key cfg key) =
               cut_scores 0 (cutoff cfg tm) (zset t' r (events_key cfg key))))"
  using redis_server.is_open_verdict [OF assms(1,2,4,3)] unfolding counted_in_window [OF assms(1)] by auto

definition sample_times :: "int \<Rightarrow> pyfloat \<Rightarrow> redis_times" where
  "sample_times ns t = \<lparr>rt_ns = ns, rt_add = t, rt_cut = t, rt_server = (\<lambda>i. t)\<rparr>"

definition sample_redis_config :: redis_config where
  "sample_redis_config =
     \<lparr>rd_window_seconds = 60, rd_failure_threshold = 1, rd_min_samples = 2,
      rd_cooldown_seconds = 5, rd_key_prefix = ''aimw:cb''\<rparr>"

text \<open>Two failures, at times 100 and 101, and the states before the second and after both.\<close>

definition expiring_init :: expiring_redis where
  "expiring_init = \<lparr>store = fake_init, timeouts = (\<lambda>k. None)\<rparr>"

definition one_failure :: expiring_redis where
  "one_failure =
     snd (redis_record_failure expiring_client sample_redis_config (sample_times 100 100) ''a:t'' expiring_init)"

definition two_failures :: expiring_redis where
  "two_failures =
     snd (redis_record_failure expiring_client sample_redis_config (sample_times 101 101) ''a:t'' one_failure)"

definition tripped_redis :: expiring_redis where
  "tripped_redis =
     snd (redis_is_open expiring_client sample_redis_config (sample_times 0 102) ''a:t'' two_failures)"

lemma sample_eval:
  "events_key sample_redis_config ''a:t'' = ''aimw:cb:events:a:t''"
  "tripped_key sample_redis_config ''a:t'' = ''aimw:cb:tripped:a:t''"
  "cutoff sample_redis_config (sample_times n 100) = 40" "cutoff sample_redis_config (sample_times n 101) = 41"
  "cutoff sample_redis_config (sample_times n 102) = 42" "cutoff sample_redis_config (sample_times n 120) = 60"
  "member_text 100 False = ''100:0''" "member_text 101 False = ''101:0''"
  "failure_count [''100:0'', ''101:0''] = 2" "int_div 2 (Suc (Suc 0)) = 1"
  "rd_min_samples sample_redis_config = 2" "rd_failure_threshold sample_redis_config = 1"
  "rd_cooldown_seconds sample_redis_config = 5" "rd_window_seconds sample_redis_config = 60"
  "rt_server (sample_times n t) i = t" "rt_ns (sample_times n t) = n" "rt_add (sample_times n t) = t"
  "fadd 102 (fl 5) = 107" "py_trunc (fsub 107 120) = - 13"
proof -
  have cut: "cutoff sample_redis_config (sample_times n t) = fsub t 60" for t
  proof -
    have "fl 60 = 60" by code_simp
    then show ?thesis by (simp add: cutoff_def sample_times_def sample_redis_config_def)
  qed
  have "fsub 100 60 = 40" "fsub 101 60 = 41" "fsub 102 60 = 42" "fsub 120 60 = 60" by code_simp+
  then show "cutoff sample_redis_config (sample_times n 100) = 40" "cutoff sample_redis_config (sample_times n 101) = 41"
    "cutoff sample_redis_config (sample_times n 102) = 42" "cutoff sample_redis_config (sample_times n 120) = 60"
    by (simp_all add: cut)
qed (code_simp | simp add: sample_times_def)+

text \<open>What the commands of the expiring server do to a key that has not timed out.\<close>

lemma expiring_commands:
  assumes "\<not> passed t k r"
  shows "zadd expiring_client t k m s r = (Inr (),
      r\<lparr>store := (store r)\<lparr>zsets := AList.update k (AList.update m s (zset_of (store r) k)) (zsets (store r))\<rparr>\<rparr>)"
    and "filter (\<lambda>(m, s). \<not> (lo \<le> s \<and> s \<le> hi)) (zset_of (store r) k) = zset_of (store r) k \<Longrightarrow>
      zset_of (store r) k \<noteq> [] \<Longrightarrow> zremrangebyscore expiring_client t k lo hi r = (Inr (),
        r\<lparr>store := (store r)\<lparr>zsets := AList.update k (zset_of (store r) k) (zsets (store r))\<rparr>\<rparr>)"
    and "zset_of (store r) k \<noteq> [] \<Longrightarrow>
      expire expiring_client t k n r = (Inr (), r\<lparr>timeouts := (timeouts r)(k \<mapsto> t + of_int n)\<rparr>)"
    and "zrange expiring_client t k 0 (- 1) r = (Inr (map (\<lambda>(m, s). RBytes (utf8 m)) (sort_key snd (zset_of (store r) k))), r)"
  using assms by (simp_all add: expiring_client_def purge_def on_store_def fake_client_def)

lemma one_failure_eq:
  "one_failure =
     \<lparr>store = \<lparr>zsets = [(''aimw:cb:events:a:t'', [(''100:0'', 100)])], strings = []\<rparr>,
      timeouts = [''aimw:cb:events:a:t'' \<mapsto> 220]\<rparr>"
  by (simp add: one_failure_def redis_record_failure_def redis_record_def and_then_def sample_eval Let_def
        expiring_init_def fake_init_def expiring_commands passed_def zset_of_def)

lemma second_failure:
  "redis_record expiring_client sample_redis_config (sample_times 101 101) ''a:t'' False one_failure =
     (Inr (), \<lparr>store = \<lparr>zsets = [(''aimw:cb:events:a:t'', [(''100:0'', 100), (''101:0'', 101)])], strings = []\<rparr>,
               timeouts = [''aimw:cb:events:a:t'' \<mapsto> 221]\<rparr>)"
  by (simp add: redis_record_def and_then_def sample_eval Let_def one_failure_eq expiring_commands passed_def zset_of_def)

lemmas two_failures_eq = two_failures_def [unfolded redis_record_failure_def second_failure snd_conv]

lemma expiring_strings:
  "map_of (strings (store r)) k = None \<Longrightarrow> ttl expiring_client t k r = (Inr (- 2), r)"
  "map_of (strings (store r)) k = Some (v, e) \<Longrightarrow> py_trunc (fsub e t) \<le> 0 \<Longrightarrow>
     ttl expiring_client t k r =
       (Inr (- 2), r\<lparr>store := (store r)\<lparr>strings := AList.delete k (strings (store r))\<rparr>\<rparr>)"
  "setex expiring_client t k n v r =
     (Inr (), (drop_key k r)\<lparr>store := (store (drop_key k r))\<lparr>strings :=
        AList.update k (v, fadd t (fl (of_int n))) (strings (store r))\<rparr>\<rparr>)"
  by (simp_all add: expiring_client_def on_store_def fake_client_def)

lemma two_failures_trip:
  "redis_is_open expiring_client sample_redis_config (sample_times 0 102) ''a:t'' two_failures =
     (Inr True,
      \<lparr>store = \<lparr>zsets = [(''aimw:cb:events:a:t'', [(''100:0'', 100), (''101:0'', 101)])],
                strings = [(''aimw:cb:tripped:a:t'', (''1'', 107))]\<rparr>,
       timeouts = [''aimw:cb:events:a:t'' \<mapsto> 221]\<rparr>)"
  by (simp add: redis_is_open_def recent_events_def and_then_def sample_eval two_failures_eq expiring_strings
        expiring_commands passed_def zset_of_def utf8_decode_utf8 drop_key_def fun_upd_idem Let_def)

lemma sample_trips:
  "redis_is_open expiring_client sample_redis_config (sample_times 0 102) ''a:t'' two_failures =
     (Inr True, tripped_redis)"
  by (simp add: tripped_redis_def two_failures_trip)

lemmas tripped_redis_eq = tripped_redis_def [unfolded two_failures_trip snd_conv]

lemma two_failures_valid: "fake_valid (store two_failures)" "fake_valid (store one_failure)"
  by (simp_all add: two_failures_eq one_failure_eq fake_valid_def zset_of_def)

lemma two_failures_listed:
  "expiring_zset t two_failures (events_key sample_redis_config ''a:t'') =
     (if 221 \<le> t then Map.empty else [''100:0'' \<mapsto> 100, ''101:0'' \<mapsto> 101])"
  by (auto simp: expiring_zset_def two_failures_eq sample_eval passed_def zset_of_def fun_eq_iff)

lemma two_failures_dead:
  "\<not> fake_live (rt_server (sample_times 0 102) 0) (store two_failures) (tripped_key sample_redis_config ''a:t'')"
  by (simp add: fake_live_def two_failures_eq)

lemma sample_clock: "mono (rt_server (sample_times n t))"
  by (simp add: mono_def sample_eval)

theorem redis_open_verdict_witness:
  "rd_min_samples sample_redis_config \<le>
     int (card (in_window expiring_zset sample_redis_config (sample_times 0 102) ''a:t'' two_failures)) \<and>
   dom (expiring_zset 102 tripped_redis (events_key sample_redis_config ''a:t'')) = {''100:0'', ''101:0''} \<and>
   expiring_zset 221 tripped_redis (events_key sample_redis_config ''a:t'') = Map.empty"
proof -
  note verdict = redis_open_verdict [OF expiring.redis_server_axioms two_failures_valid(1) sample_clock sample_trips]
  have "\<forall>t' \<ge> 102. expiring_zset t' tripped_redis (events_key sample_redis_config ''a:t'') =
      cut_scores 0 42 (if 221 \<le> t' then Map.empty else [''100:0'' \<mapsto> 100, ''101:0'' \<mapsto> 101])"
    using verdict two_failures_dead by (simp add: two_failures_listed sample_eval(5,15))
  then have "expiring_zset 102 tripped_redis (events_key sample_redis_config ''a:t'') =
      cut_scores 0 42 [''100:0'' \<mapsto> 100, ''101:0'' \<mapsto> 101]"
    "expiring_zset 221 tripped_redis (events_key sample_redis_config ''a:t'') = Map.empty" by simp_all
  moreover have "dom (cut_scores 0 42 [''100:0'' \<mapsto> (100 :: pyfloat), ''101:0'' \<mapsto> 101]) = {''100:0'', ''101:0''}"
    by (auto simp: dom_cut_scores split: if_split_asm)
  ultimately show ?thesis using verdict two_failures_dead by simp
qed

text \<open>
  C32: No half-open state over Redis, on any server that keeps the promises of its commands, expiry included:
  take an outcome recorded last, an open check after it that trips on the failures inside the window, and a
  later check before the events' own timeout has passed, which is twice the window. It says open again
  whenever those failures are still inside the window, although the sentinel's cooldown may be over and no
  call has been tried in between; the in-memory backend, after the same cooldown, closes the circuit and
  forgets them.
\<close>

theorem redis_never_half_opens:
  assumes "redis_server rc zset live valid" and "valid r0" and "0 < rd_window_seconds cfg"
    and "redis_record rc cfg tm0 key success r0 = (Inr (), r)"
    and "redis_is_open rc cfg tm key r = (Inr True, r1)"
    and "\<not> live (rt_server tm 0) r (tripped_key cfg key)"
    and "redis_is_open rc cfg tm' key r1 = (Inr b, r2)"
    and "mono (rt_server tm)" and "mono (rt_server tm')"
    and "rt_server tm0 2 \<le> rt_server tm 0" and "rt_server tm 3 \<le> rt_server tm' 0"
    and "rt_server tm' 2 < rt_server tm0 2 + of_int (rd_window_seconds cfg * 2)"
    and "\<forall>m \<in> in_window zset cfg tm key r. \<forall>s.
           zset (rt_server tm 2) r (events_key cfg key) m = Some s \<longrightarrow> cutoff cfg tm' < s"
    and "tripped_at st key = Some t0" and "cooldown_seconds mcfg \<le> fsub now t0"
  shows "b \<and> fst (mem_is_open mcfg key now st) = Inr False"
proof -
  let ?ek = "events_key cfg key"
  have clock: "rt_server tm 0 \<le> rt_server tm 2" "rt_server tm 2 \<le> rt_server tm 3" "rt_server tm' 0 \<le> rt_server tm' 2"
    using assms(8,9) by (simp_all add: mono_def)
  have order: "rt_server tm0 2 \<le> rt_server tm 2" "rt_server tm0 2 \<le> rt_server tm' 2" "rt_server tm 2 \<le> rt_server tm' 2"
    "rt_server tm 3 \<le> rt_server tm' 2" using clock assms(10,11) by linarith+
  note recorded = redis_server.record_keeps [OF assms(1,2,4,3)]
  note first = redis_server.is_open_verdict [OF assms(1) recorded(1) assms(5,8), unfolded counted_in_window [OF assms(1)]]
  note second = redis_server.is_open_verdict(1) [OF assms(1) first(2) assms(7,9), unfolded counted_in_window [OF assms(1)]]
  have "zset (rt_server tm 2) r ?ek = zset (rt_server tm' 2) r ?ek"
    using recorded(2) [of "rt_server tm 2"] recorded(2) [of "rt_server tm' 2"] order clock assms(12) by simp
  moreover have "zset (rt_server tm' 2) r1 ?ek = cut_scores 0 (cutoff cfg tm) (zset (rt_server tm' 2) r ?ek)"
    using first(3) [OF order(4)] assms(6) by simp
  ultimately have "zset (rt_server tm' 2) r1 ?ek = cut_scores 0 (cutoff cfg tm) (zset (rt_server tm 2) r ?ek)" by simp
  then have "in_window zset cfg tm' key r1 = in_window zset cfg tm key r"
    using assms(13) by (fastforce simp: in_window_def cut_scores_def split: option.splits if_splits)
  then have b using first(1) second assms(6) by simp
  moreover have "fst (mem_is_open mcfg key now st) = Inr False"
    using assms(14,15) by (simp add: mem_is_open_def)
  ultimately show ?thesis by blast
qed

text \<open>On the expiring server: tripped at 102 for five seconds, open again at 120, with nothing recorded since 101.\<close>

theorem redis_never_half_opens_witness:
  "fst (redis_is_open expiring_client sample_redis_config (sample_times 0 120) ''a:t'' tripped_redis) = Inr True \<and>
   \<not> fake_live 120 (store tripped_redis) (tripped_key sample_redis_config ''a:t'')"
proof -
  have recorded: "redis_record expiring_client sample_redis_config (sample_times 101 101) ''a:t'' False one_failure =
      (Inr (), two_failures)" by (simp add: second_failure two_failures_eq)
  have inside: "\<forall>m \<in> in_window expiring_zset sample_redis_config (sample_times 0 102) ''a:t'' two_failures.
      \<forall>s. expiring_zset (rt_server (sample_times 0 102) 2) two_failures (events_key sample_redis_config ''a:t'') m = Some s \<longrightarrow>
        cutoff sample_redis_config (sample_times 0 120) < s"
    by (auto simp: two_failures_listed sample_eval(6,15) split: if_splits)
  obtain b r2 where later: "redis_is_open expiring_client sample_redis_config (sample_times 0 120) ''a:t''
      tripped_redis = (Inr b, r2)"
    by (simp add: redis_is_open_def recent_events_def and_then_def sample_eval tripped_redis_eq expiring_strings
          expiring_commands passed_def zset_of_def utf8_decode_utf8 Let_def)
  let ?st = "mem_init\<lparr>tripped_at := [''a:t'' \<mapsto> 0]\<rparr>"
  have "tripped_at ?st ''a:t'' = Some 0" by simp
  moreover have "cooldown_seconds sample_config \<le> fsub 5 0" by code_simp
  ultimately have b
    using redis_never_half_opens [OF expiring.redis_server_axioms two_failures_valid(2) _ recorded sample_trips
        two_failures_dead later sample_clock sample_clock _ _ _ inside, of ?st 0 sample_config 5]
    by (simp add: sample_eval)
  moreover have "\<not> fake_live 120 (store tripped_redis) (tripped_key sample_redis_config ''a:t'')"
    by (simp add: tripped_redis_eq fake_live_def sample_eval)
  ultimately show ?thesis using later by simp
qed

end
