(* ===== verification/Package.thy ===== *)
theory Package
  imports Prelude
begin

text \<open>
  Loading the package. A Python module is given by its top-level statements in their order: what it imports from
  other modules of the package, the names it takes from outside, and the names it binds (classes, functions,
  constants) with the module-level names that binding them evaluates (base classes, decorators, default values;
  annotations are not evaluated, since every module that imports anything from the package or outside it has
  \<open>annotations\<close> from \<^verbatim>\<open>__future__\<close> in front, the packages' own \<^verbatim>\<open>__init__.py\<close> apart, which have none).

  \<open>load\<close> is the import of a module: it is entered in \<open>sys.modules\<close> before its body runs, so that a cyclic
  import finds a module that is only partly there, and a name that is not bound yet is an \<open>ImportError\<close>. Importing
  a module imports the packages above it first. The locale \<open>layered\<close> asks for a rank that the imports respect and
  proves that every module then loads; \<open>aimw_name\<close> and \<open>aimw_body\<close> are the modules of \<^verbatim>\<open>src/aimw\<close>, and the
  locale is interpreted on them. Packages outside the repository are taken to be installed with the names that
  are imported from them.
\<close>

section \<open>Import\<close>

datatype 'm py_stmt =
    From 'm "(string \<times> string) list"
  | Extern "string list"
  | Bind string "string list"
  | Use "string list"

datatype 'm import_error = CannotImport 'm string | NameUndefined 'm string | OutOfFuel

type_synonym 'm sys_modules = "'m \<rightharpoonup> string list"

definition same :: "string list \<Rightarrow> (string \<times> string) list" where
  "same names = map (\<lambda>n. (n, n)) names"

fun stmt_names :: "'m py_stmt \<Rightarrow> string list" where
  "stmt_names (From q names) = map snd names" | "stmt_names (Extern names) = names"
| "stmt_names (Bind n names) = [n]" | "stmt_names (Use names) = []"

definition bound_names :: "'m py_stmt list \<Rightarrow> string list" where
  "bound_names body = concat (map stmt_names body)"

definition module_ns :: "'m sys_modules \<Rightarrow> 'm \<Rightarrow> string list" where
  "module_ns sys m = (case sys m of None \<Rightarrow> [] | Some ns \<Rightarrow> ns)"

definition bind_names :: "'m \<Rightarrow> string list \<Rightarrow> 'm sys_modules \<Rightarrow> 'm sys_modules" where
  "bind_names m names sys = sys(m \<mapsto> module_ns sys m @ names)"

fun load_all ::
  "('m \<Rightarrow> 'm sys_modules \<Rightarrow> 'm import_error + 'm sys_modules) \<Rightarrow> 'm list \<Rightarrow> 'm sys_modules
     \<Rightarrow> 'm import_error + 'm sys_modules" where
  "load_all ld [] sys = Inr sys"
| "load_all ld (q # qs) sys = (case ld q sys of Inl e \<Rightarrow> Inl e | Inr sys' \<Rightarrow> load_all ld qs sys')"

definition unbound :: "string list \<Rightarrow> string list \<Rightarrow> string list" where
  "unbound ns names = filter (\<lambda>n. n \<notin> set ns) names"

fun exec_stmt ::
  "('m \<Rightarrow> 'm sys_modules \<Rightarrow> 'm import_error + 'm sys_modules) \<Rightarrow> ('m \<Rightarrow> 'm list) \<Rightarrow> 'm \<Rightarrow> 'm py_stmt
     \<Rightarrow> 'm sys_modules \<Rightarrow> 'm import_error + 'm sys_modules" where
  "exec_stmt ld packages m (From q names) sys =
     (case load_all ld (packages q) sys of
        Inl e \<Rightarrow> Inl e
      | Inr sys' \<Rightarrow>
          (case unbound (module_ns sys' q) (map fst names) of
             [] \<Rightarrow> Inr (bind_names m (map snd names) sys')
           | n # ns \<Rightarrow> Inl (CannotImport q n)))"
| "exec_stmt ld packages m (Extern names) sys = Inr (bind_names m names sys)"
| "exec_stmt ld packages m (Bind n names) sys =
     (case unbound (module_ns sys m) names of
        [] \<Rightarrow> Inr (bind_names m [n] sys) | x # xs \<Rightarrow> Inl (NameUndefined m x))"
| "exec_stmt ld packages m (Use names) sys =
     (case unbound (module_ns sys m) names of [] \<Rightarrow> Inr sys | x # xs \<Rightarrow> Inl (NameUndefined m x))"

fun exec_body ::
  "('m \<Rightarrow> 'm sys_modules \<Rightarrow> 'm import_error + 'm sys_modules) \<Rightarrow> ('m \<Rightarrow> 'm list) \<Rightarrow> 'm \<Rightarrow> 'm py_stmt list
     \<Rightarrow> 'm sys_modules \<Rightarrow> 'm import_error + 'm sys_modules" where
  "exec_body ld packages m [] sys = Inr sys"
| "exec_body ld packages m (s # ss) sys =
     (case exec_stmt ld packages m s sys of Inl e \<Rightarrow> Inl e | Inr sys' \<Rightarrow> exec_body ld packages m ss sys')"

text \<open>The fuel bounds the nesting of imports.\<close>

primrec load ::
  "nat \<Rightarrow> ('m \<Rightarrow> 'm py_stmt list) \<Rightarrow> ('m \<Rightarrow> 'm list) \<Rightarrow> 'm \<Rightarrow> 'm sys_modules
     \<Rightarrow> 'm import_error + 'm sys_modules" where
  "load 0 body packages m sys = Inl OutOfFuel"
| "load (Suc n) body packages m sys =
     (if sys m \<noteq> None then Inr sys
      else exec_body (load n body packages) packages m (body m) (sys(m \<mapsto> [])))"

definition import_module ::
  "nat \<Rightarrow> ('m \<Rightarrow> 'm py_stmt list) \<Rightarrow> ('m \<Rightarrow> 'm list) \<Rightarrow> 'm \<Rightarrow> 'm sys_modules
     \<Rightarrow> 'm import_error + 'm sys_modules" where
  "import_module fuel body packages m sys = load_all (load fuel body packages) (packages m) sys"


text \<open>A package whose module asks it for a name that it binds later cannot be imported.\<close>

lemma cyclic_import_fails:
  "import_module 3
     (\<lambda>m. if m = 0 then [From 1 (same [''f'']), Bind ''g'' []] else [From 0 (same [''g'']), Bind ''f'' []])
     (\<lambda>m. if m = 0 then [0] else [0, 1]) (0 :: nat) Map.empty = Inl (CannotImport 0 ''g'')"
  by (simp add: import_module_def same_def module_ns_def unbound_def numeral_3_eq_3)


section \<open>Layered imports succeed\<close>

text \<open>Every name that a body evaluates is bound in front of the statement.\<close>

fun uses_bound :: "string list \<Rightarrow> 'm py_stmt list \<Rightarrow> bool" where
  "uses_bound ns [] = True"
| "uses_bound ns (s # ss) =
     ((case s of Bind n names \<Rightarrow> set names \<subseteq> set ns | Use names \<Rightarrow> set names \<subseteq> set ns | _ \<Rightarrow> True) \<and>
      uses_bound (ns @ stmt_names s) ss)"

lemma unbound_none [simp]: "set names \<subseteq> set ns \<Longrightarrow> unbound ns names = []"
  by (auto simp: unbound_def filter_empty_conv)

lemma bound_names_Cons [simp]: "bound_names [] = []" "bound_names (s # ss) = stmt_names s @ bound_names ss"
  by (simp_all add: bound_names_def)

lemma bind_names_simps [simp]:
  "bind_names m names sys m = Some (module_ns sys m @ names)"
  "x \<noteq> m \<Longrightarrow> bind_names m names sys x = sys x"
  "dom (bind_names m names sys) = insert m (dom sys)"
  by (auto simp: bind_names_def)

locale layered =
  fixes body :: "'m \<Rightarrow> 'm py_stmt list" and packages :: "'m \<Rightarrow> 'm list" and rank :: "'m \<Rightarrow> nat"
  assumes packages_self: "packages m \<noteq> []" "last (packages m) = m"
    and packages_closed: "k < length (packages m) \<Longrightarrow> packages (packages m ! k) = take (Suc k) (packages m)"
    and imports_down: "From q names \<in> set (body m) \<Longrightarrow> q \<notin> set (packages m) \<and>
      (\<forall>p \<in> set (packages q). p \<in> set (packages m) \<or> rank p < rank m)"
    and imports_bound: "From q names \<in> set (body m) \<Longrightarrow> set (map fst names) \<subseteq> set (bound_names (body q))"
    and names_bound: "uses_bound [] (body m)"
begin

text \<open>A state in which every module that is there has bound all its names, the open ones apart.\<close>

definition whole :: "'m set \<Rightarrow> 'm sys_modules \<Rightarrow> bool" where
  "whole opens sys \<longleftrightarrow> (\<forall>x ns. sys x = Some ns \<longrightarrow> x \<in> opens \<or> set (bound_names (body x)) \<subseteq> set ns)"

definition grown :: "'m set \<Rightarrow> 'm sys_modules \<Rightarrow> 'm sys_modules \<Rightarrow> bool" where
  "grown opens sys sys' \<longleftrightarrow> whole opens sys' \<and> dom sys \<subseteq> dom sys' \<and> (\<forall>x \<in> opens. sys' x = sys x)"

lemma grown_refl: "whole opens sys \<Longrightarrow> grown opens sys sys"
  by (simp add: grown_def)

lemma grown_trans: "grown opens s1 s2 \<Longrightarrow> grown opens s2 s3 \<Longrightarrow> grown opens s1 s3"
  unfolding grown_def using subset_trans [of "dom s1" "dom s2" "dom s3"] by simp

lemma whole_close:
  assumes "whole (insert m opens) sys" and "sys m = Some ns" and "set (bound_names (body m)) \<subseteq> set ns"
  shows "whole opens sys"
  unfolding whole_def
proof (intro allI impI)
  fix x ns' assume "sys x = Some ns'"
  with assms show "x \<in> opens \<or> set (bound_names (body x)) \<subseteq> set ns'"
    by (cases "x = m") (auto simp: whole_def)
qed

lemma self_in_packages: "m \<in> set (packages m)"
  using last_in_set [OF packages_self(1), of m] by (simp add: packages_self(2))

lemma bind_keeps:
  assumes "whole (insert m opens) sys" and "m \<notin> opens"
  shows "whole (insert m opens) (bind_names m names sys)" and "\<forall>x \<in> opens. bind_names m names sys x = sys x"
  using assms by (auto simp: whole_def bind_names_def)

text \<open>What the loader with fuel \<open>n\<close> does to modules below the open ones.\<close>

definition loads :: "nat \<Rightarrow> bool" where
  "loads n \<longleftrightarrow>
     (\<forall>m sys opens. rank m < n \<longrightarrow> whole opens sys \<longrightarrow> (\<forall>x \<in> opens. rank m < rank x) \<longrightarrow>
        set (butlast (packages m)) \<subseteq> dom sys \<longrightarrow>
        (\<exists>sys'. load n body packages m sys = Inr sys' \<and> grown opens sys sys' \<and> m \<in> dom sys'))"

lemma load_all_packages:
  assumes "loads n" and "0 < n" and "packages q = ps @ qs" and "set ps \<subseteq> dom sys" and "whole opens sys"
    and "\<And>p. p \<in> set qs \<Longrightarrow> p \<in> dom sys \<or> rank p < n \<and> (\<forall>x \<in> opens. rank p < rank x)"
  shows "\<exists>sys'. load_all (load n body packages) qs sys = Inr sys' \<and> grown opens sys sys' \<and>
    set (packages q) \<subseteq> dom sys'"
  using assms(3-6)
proof (induction qs arbitrary: ps sys)
  case Nil
  then show ?case by (simp add: grown_refl)
next
  case (Cons p qs)
  have "packages (packages q ! length ps) = take (Suc (length ps)) (packages q)"
    by (rule packages_closed) (simp add: Cons.prems(1))
  then have p: "butlast (packages p) = ps" by (simp add: Cons.prems(1) butlast_append)
  obtain s1 where s1: "load n body packages p sys = Inr s1" "grown opens sys s1" "p \<in> dom s1"
  proof (cases "p \<in> dom sys")
    case True
    obtain k where "n = Suc k" using assms(2) by (cases n) auto
    with True that [of sys] Cons.prems(3) show ?thesis by (auto simp: grown_refl)
  next
    case False
    with Cons.prems(4) [of p] have "rank p < n" "\<forall>x \<in> opens. rank p < rank x" by auto
    with assms(1) [unfolded loads_def, rule_format, of p opens sys] Cons.prems(2,3) p that show ?thesis by auto
  qed
  have dom: "dom sys \<subseteq> dom s1" "whole opens s1" using s1(2) by (simp_all add: grown_def)
  have "\<exists>sys'. load_all (load n body packages) qs s1 = Inr sys' \<and> grown opens s1 sys' \<and>
      set (packages q) \<subseteq> dom sys'"
  proof (rule Cons.IH [where ps = "ps @ [p]"])
    show "set (ps @ [p]) \<subseteq> dom s1" using Cons.prems(2) dom(1) s1(3) by (simp add: subset_trans)
    show "p' \<in> dom s1 \<or> rank p' < n \<and> (\<forall>x \<in> opens. rank p' < rank x)" if "p' \<in> set qs" for p'
      using Cons.prems(4) [of p'] that dom(1) by auto
  qed (simp_all add: Cons.prems(1) dom(2))
  then obtain sys' where "load_all (load n body packages) qs s1 = Inr sys'" "grown opens s1 sys'"
    "set (packages q) \<subseteq> dom sys'" by blast
  with s1(1) grown_trans [OF s1(2)] show ?case by simp
qed

lemma exec_body_whole:
  assumes "loads n" and "rank m < Suc n" and "m \<notin> opens" and "\<And>x. x \<in> opens \<Longrightarrow> rank m < rank x"
    and "set todo \<subseteq> set (body m)" and "uses_bound ns todo" and "sys m = Some ns"
    and "whole (insert m opens) sys" and "set (packages m) \<subseteq> dom sys"
  shows "\<exists>sys' ns'. exec_body (load n body packages) packages m todo sys = Inr sys' \<and>
    whole (insert m opens) sys' \<and> dom sys \<subseteq> dom sys' \<and> (\<forall>x \<in> opens. sys' x = sys x) \<and>
    sys' m = Some ns' \<and> set ns \<union> set (bound_names todo) \<subseteq> set ns'"
  using assms(5-9)
proof (induction todo arbitrary: sys ns)
  case (Cons s todo)
  have here: "module_ns sys m = ns" using Cons.prems(3) by (simp add: module_ns_def)
  have "\<exists>s1. exec_stmt (load n body packages) packages m s sys = Inr s1 \<and>
    whole (insert m opens) s1 \<and> dom sys \<subseteq> dom s1 \<and> (\<forall>x \<in> opens. s1 x = sys x) \<and>
    s1 m = Some (ns @ stmt_names s)"
  proof (cases s)
    case (From q names)
    have down: "q \<notin> set (packages m)" "\<forall>p \<in> set (packages q). p \<in> set (packages m) \<or> rank p < rank m"
      "set (map fst names) \<subseteq> set (bound_names (body q))"
      using imports_down [of q names m] imports_bound [of q names m] Cons.prems(1) From by simp_all
    have q: "rank q < rank m" "q \<noteq> m" using down(1,2) self_in_packages by blast+
    have "\<exists>sys'. load_all (load n body packages) (packages q) sys = Inr sys' \<and>
        grown (insert m opens) sys sys' \<and> set (packages q) \<subseteq> dom sys'"
    proof (rule load_all_packages [OF assms(1), where ps = "[]"])
      show "p \<in> dom sys \<or> rank p < n \<and> (\<forall>x \<in> insert m opens. rank p < rank x)" if "p \<in> set (packages q)" for p
        using bspec [OF down(2) that] Cons.prems(5) assms(2,4) by fastforce
    qed (use q(1) assms(2) Cons.prems(4) in simp_all)
    then obtain s1 where s1: "load_all (load n body packages) (packages q) sys = Inr s1"
      "grown (insert m opens) sys s1" "q \<in> dom s1" using self_in_packages by blast
    have "q \<notin> insert m opens" using q assms(4) by fastforce
    moreover obtain y where y: "s1 q = Some y" using s1(3) by blast
    ultimately have "set (bound_names (body q)) \<subseteq> set y" using s1(2) unfolding grown_def whole_def by blast
    with down(3) y have "unbound (module_ns s1 q) (map fst names) = []" by (simp add: module_ns_def)
    then have "exec_stmt (load n body packages) packages m s sys = Inr (bind_names m (map snd names) s1)"
      by (simp add: From s1(1))
    moreover have "module_ns s1 m = ns" using s1(2) Cons.prems(3) by (simp add: grown_def module_ns_def)
    ultimately show ?thesis
      using From s1(2) bind_keeps [of m opens s1 "map snd names"] assms(3) by (auto simp: grown_def)
  qed (use Cons.prems here bind_keeps [of m opens sys] assms(3) in \<open>simp_all add: subset_insertI\<close>)
  then obtain s1 where s1: "exec_stmt (load n body packages) packages m s sys = Inr s1"
    "whole (insert m opens) s1" "dom sys \<subseteq> dom s1" "\<forall>x \<in> opens. s1 x = sys x"
    "s1 m = Some (ns @ stmt_names s)" by blast
  have "\<exists>sys' ns'. exec_body (load n body packages) packages m todo s1 = Inr sys' \<and>
    whole (insert m opens) sys' \<and> dom s1 \<subseteq> dom sys' \<and> (\<forall>x \<in> opens. sys' x = s1 x) \<and>
    sys' m = Some ns' \<and> set (ns @ stmt_names s) \<union> set (bound_names todo) \<subseteq> set ns'"
  proof (rule Cons.IH)
    show "uses_bound (ns @ stmt_names s) todo" using Cons.prems(2) by simp
    show "set (packages m) \<subseteq> dom s1" using Cons.prems(5) s1(3) by (rule subset_trans)
  qed (use Cons.prems(1) s1 in simp_all)
  then obtain sys' ns' where "exec_body (load n body packages) packages m todo s1 = Inr sys'"
    "whole (insert m opens) sys'" "dom s1 \<subseteq> dom sys'" "\<forall>x \<in> opens. sys' x = s1 x" "sys' m = Some ns'"
    "set (ns @ stmt_names s) \<union> set (bound_names todo) \<subseteq> set ns'" by blast
  with s1 subset_trans [of "dom sys" "dom s1" "dom sys'"] show ?case
    by (intro exI [of _ sys'] exI [of _ ns']) simp
qed simp

lemma loads_all: "loads n"
proof (induction n)
  case 0
  then show ?case by (simp add: loads_def)
next
  case (Suc n)
  show ?case
    unfolding loads_def
  proof (intro allI impI)
    fix m sys opens
    assume h: "rank m < Suc n" "whole opens sys" "\<forall>x \<in> opens. rank m < rank x"
      "set (butlast (packages m)) \<subseteq> dom sys"
    show "\<exists>sys'. load (Suc n) body packages m sys = Inr sys' \<and> grown opens sys sys' \<and> m \<in> dom sys'"
    proof (cases "m \<in> dom sys")
      case True
      with h(2) show ?thesis by (auto simp: grown_refl)
    next
      case False
      have notopen: "m \<notin> opens" using h(3) by auto
      have "set (packages m) = set (butlast (packages m)) \<union> {m}"
        using packages_self [of m] append_butlast_last_id [of "packages m"]
        by (metis list.simps(15) set_append empty_set)
      then have "set (packages m) \<subseteq> dom (sys(m \<mapsto> []))" using h(4) by auto
      then have "\<exists>sys' ns'. exec_body (load n body packages) packages m (body m) (sys(m \<mapsto> [])) = Inr sys' \<and>
        whole (insert m opens) sys' \<and> dom (sys(m \<mapsto> [])) \<subseteq> dom sys' \<and>
        (\<forall>x \<in> opens. sys' x = (sys(m \<mapsto> [])) x) \<and> sys' m = Some ns' \<and>
        set [] \<union> set (bound_names (body m)) \<subseteq> set ns'"
        by (intro exec_body_whole [OF Suc.IH h(1) notopen])
           (use h names_bound in \<open>auto simp: whole_def\<close>)
      then obtain sys' ns' where sys': "exec_body (load n body packages) packages m (body m) (sys(m \<mapsto> [])) = Inr sys'"
        "whole (insert m opens) sys'" "insert m (dom sys) \<subseteq> dom sys'" "\<forall>x \<in> opens. sys' x = (sys(m \<mapsto> [])) x"
        "sys' m = Some ns'" "set (bound_names (body m)) \<subseteq> set ns'" by auto
      have "grown opens sys sys'"
        using whole_close [OF sys'(2,5,6)] sys'(3,4) notopen by (auto simp: grown_def)
      with sys'(1,3) False show ?thesis by auto
    qed
  qed
qed

text \<open>Any module of a layered program can be imported first, and what has been loaded is whole.\<close>

lemma import_whole:
  assumes "\<And>m. rank m < fuel" and "0 < fuel"
  shows "\<exists>sys. import_module fuel body packages m Map.empty = Inr sys \<and> set (packages m) \<subseteq> dom sys \<and>
    (\<forall>x ns. sys x = Some ns \<longrightarrow> set (bound_names (body x)) \<subseteq> set ns)"
proof -
  have "\<exists>sys. load_all (load fuel body packages) (packages m) Map.empty = Inr sys \<and>
      grown {} Map.empty sys \<and> set (packages m) \<subseteq> dom sys"
    by (rule load_all_packages [OF loads_all assms(2), where ps = "[]"]) (simp_all add: whole_def assms(1))
  then show ?thesis by (auto simp: import_module_def grown_def whole_def)
qed

end


section \<open>The modules\<close>

datatype aimw_name =
    Aimw | Aimw_config | Aimw_interceptor | Aimw_models | Aimw_pipeline | Aimw_audit | Aimw_audit_dlp
  | Aimw_audit_errors | Aimw_audit_models | Aimw_audit_siem | Aimw_audit_worm_log | Aimw_gateway
  | Aimw_gateway_shim | Aimw_guardrails | Aimw_guardrails_errors | Aimw_guardrails_patterns
  | Aimw_guardrails_regex_pii | Aimw_guardrails_semantic | Aimw_hitl | Aimw_hitl_approval | Aimw_identity
  | Aimw_identity_base | Aimw_identity_session_token | Aimw_identity_static_bearer | Aimw_interfaces
  | Aimw_interfaces_guardrail | Aimw_interfaces_policy_engine | Aimw_interfaces_registry | Aimw_policy
  | Aimw_policy_db_engine | Aimw_policy_db_rules | Aimw_policy_errors | Aimw_policy_rules
  | Aimw_policy_static_engine | Aimw_registry | Aimw_registry_db_registry | Aimw_registry_static_registry
  | Aimw_reliability | Aimw_reliability_circuit_breaker | Aimw_sandbox | Aimw_sandbox_base
  | Aimw_sandbox_docker_sandbox | Aimw_sandbox_subprocess_sandbox

definition module_root :: "aimw_name py_stmt list" where
  "module_root =
    [From Aimw_audit_dlp (same [''DLPClassification'', ''DLPClassifier'', ''SensitivityTier'']),
     From Aimw_audit_siem (same [''BaseAuditSink'', ''LocalSiemForwarder'']),
     From Aimw_audit_worm_log (same [''ChainVerificationResult'', ''HashChainedJSONLLogger'']),
     From Aimw_gateway_shim (same [''FakeLLMClient'', ''LiteLLMGatewayShim'', ''ProposedToolCall'']),
     From Aimw_guardrails_regex_pii (same [''RegexPIIGuardrail'']),
     From Aimw_guardrails_semantic (same [''SemanticGuardrail'']),
     From Aimw_hitl_approval (same [''ApprovalCallback'', ''InMemoryApprovalQueue'']),
     From Aimw_identity_base (same [''BaseIdentityVerifier'']),
     From Aimw_identity_session_token (same [''SessionTokenIssuer'']),
     From Aimw_identity_static_bearer (same [''StaticBearerTokenVerifier'']),
     From Aimw_interceptor (same [''InterceptorResult'', ''ToolCallInterceptor'']),
     From Aimw_interfaces (same [''BaseGuardrail'', ''BasePolicyEngine'', ''BaseRegistry'']),
     From Aimw_models (same [''ExecutionContext'', ''PolicyDecision'', ''ToolRequest'']),
     From Aimw_pipeline (same [''GovernancePipeline'', ''PipelineResult'']),
     From Aimw_policy_db_engine (same [''DbBackedPolicyEngine'']),
     From Aimw_policy_db_rules (same [''DbRuleStore'']),
     From Aimw_policy_db_rules [(''connect'', ''connect_policy_db'')],
     From Aimw_policy_db_rules [(''seed_example'', ''seed_example_policy_db'')],
     From Aimw_policy_rules (same [''PolicyRuleSet'', ''load_ruleset'']),
     From Aimw_policy_static_engine (same [''StaticPolicyEngine'']),
     From Aimw_registry_db_registry (same [''DbBackedToolRegistry'']),
     From Aimw_registry_static_registry (same [''StaticToolRegistry'']),
     From Aimw_reliability_circuit_breaker (same [''BaseCircuitBreakerBackend'', ''CircuitBreaker'', ''InMemoryCircuitBreakerBackend'']),
     From Aimw_sandbox_base (same [''BaseSandbox'', ''SandboxResult'']),
     From Aimw_sandbox_docker_sandbox (same [''DockerSandbox'', ''RestrictedDockerSandbox'']),
     From Aimw_sandbox_subprocess_sandbox (same [''SubprocessSandbox'']),
     Bind ''__version__'' [],
     Bind ''__all__'' []]"

definition module_config :: "aimw_name py_stmt list" where
  "module_config =
    [Extern [''annotations''],
     Extern [''Path''],
     Extern [''BaseSettings'', ''SettingsConfigDict''],
     Bind ''Settings'' [''BaseSettings'', ''SettingsConfigDict'', ''Path'']]"

definition module_interceptor :: "aimw_name py_stmt list" where
  "module_interceptor =
    [Extern [''annotations''],
     Extern [''asyncio''],
     Extern [''logging''],
     Extern [''time''],
     Extern [''BaseModel''],
     From Aimw_audit_models (same [''AuditRecord'']),
     From Aimw_audit_worm_log (same [''HashChainedJSONLLogger'']),
     From Aimw_hitl_approval (same [''ApprovalCallback'']),
     From Aimw_interfaces_policy_engine (same [''BasePolicyEngine'']),
     From Aimw_models (same [''ExecutionContext'', ''PolicyDecision'', ''ToolRequest'']),
     From Aimw_reliability_circuit_breaker (same [''CircuitBreaker'']),
     From Aimw_sandbox_base (same [''BaseSandbox'', ''SandboxResult'']),
     Bind ''logger'' [''logging''],
     Bind ''_SUPPORTED_REQUIREMENTS'' [],
     Bind ''InterceptorResult'' [''BaseModel''],
     Bind ''ToolCallInterceptor'' []]"

definition module_models :: "aimw_name py_stmt list" where
  "module_models =
    [Extern [''annotations''],
     Extern [''Any''],
     Extern [''BaseModel'', ''ConfigDict'', ''Field''],
     Bind ''ExecutionContext'' [''BaseModel'', ''ConfigDict'', ''Field''],
     Bind ''ToolRequest'' [''BaseModel'', ''ConfigDict''],
     Bind ''PolicyDecision'' [''BaseModel'', ''Field'']]"

definition module_pipeline :: "aimw_name py_stmt list" where
  "module_pipeline =
    [Extern [''annotations''],
     Extern [''BaseModel''],
     From Aimw_gateway_shim (same [''FakeLLMClient'', ''LiteLLMGatewayShim'']),
     From Aimw_interceptor (same [''InterceptorResult'', ''ToolCallInterceptor'']),
     From Aimw_interfaces_guardrail (same [''BaseGuardrail'']),
     From Aimw_models (same [''ExecutionContext'']),
     Bind ''PipelineResult'' [''BaseModel''],
     Bind ''GovernancePipeline'' []]"

definition module_audit :: "aimw_name py_stmt list" where
  "module_audit =
    [From Aimw_audit_dlp (same [''DLPClassification'', ''DLPClassifier'', ''SensitivityTier'']),
     From Aimw_audit_errors (same [''AuditTamperError'']),
     From Aimw_audit_models (same [''AuditRecord'', ''RedactedContext'', ''RedactedRequest'']),
     From Aimw_audit_siem (same [''BaseAuditSink'', ''LocalSiemForwarder'']),
     From Aimw_audit_worm_log (same [''ChainVerificationResult'', ''HashChainedJSONLLogger'', ''verify_chain'']),
     Bind ''__all__'' []]"

definition module_audit_dlp :: "aimw_name py_stmt list" where
  "module_audit_dlp =
    [Extern [''annotations''],
     Extern [''IntEnum''],
     Extern [''BaseModel''],
     From Aimw_guardrails_patterns (same [''PII_PATTERNS'']),
     Bind ''_TIER_BY_CATEGORY'' [],
     Bind ''SensitivityTier'' [''IntEnum''],
     Use [''_TIER_BY_CATEGORY'', ''SensitivityTier''],
     Bind ''DLPClassification'' [''BaseModel''],
     Bind ''DLPClassifier'' []]"

definition module_audit_errors :: "aimw_name py_stmt list" where
  "module_audit_errors =
    [Bind ''AuditTamperError'' []]"

definition module_audit_models :: "aimw_name py_stmt list" where
  "module_audit_models =
    [Extern [''annotations''],
     Extern [''UTC'', ''datetime''],
     Extern [''Any''],
     Extern [''BaseModel'', ''Field''],
     Bind ''RedactedContext'' [''BaseModel''],
     Bind ''RedactedRequest'' [''BaseModel''],
     Bind ''AuditRecord'' [''BaseModel'', ''Field'']]"

definition module_audit_siem :: "aimw_name py_stmt list" where
  "module_audit_siem =
    [Extern [''annotations''],
     Extern [''logging''],
     Extern [''ABC'', ''abstractmethod''],
     From Aimw_audit_models (same [''AuditRecord'']),
     Bind ''logger'' [''logging''],
     Bind ''BaseAuditSink'' [''ABC'', ''abstractmethod''],
     Bind ''LocalSiemForwarder'' [''BaseAuditSink''],
     Bind ''forward_best_effort'' []]"

definition module_audit_worm_log :: "aimw_name py_stmt list" where
  "module_audit_worm_log =
    [Extern [''annotations''],
     Extern [''hashlib''],
     Extern [''json''],
     Extern [''uuid''],
     Extern [''dataclass''],
     Extern [''Path''],
     Extern [''Any''],
     From Aimw_audit_models (same [''AuditRecord'', ''RedactedContext'', ''RedactedRequest'']),
     From Aimw_audit_siem (same [''BaseAuditSink'', ''forward_best_effort'']),
     From Aimw_models (same [''ExecutionContext'', ''PolicyDecision'', ''ToolRequest'']),
     Bind ''GENESIS_HASH'' [],
     Bind ''_canonical_bytes'' [],
     Bind ''_hash_value'' [],
     Bind ''_compute_record_hash'' [],
     Bind ''ChainVerificationResult'' [''dataclass''],
     Bind ''verify_chain'' [],
     Bind ''HashChainedJSONLLogger'' []]"

definition module_gateway :: "aimw_name py_stmt list" where
  "module_gateway =
    [From Aimw_gateway_shim (same [''FakeLLMClient'', ''GatewayAuthError'', ''LiteLLMGatewayShim'', ''ProposedToolCall'']),
     Bind ''__all__'' []]"

definition module_gateway_shim :: "aimw_name py_stmt list" where
  "module_gateway_shim =
    [Extern [''annotations''],
     Extern [''defaultdict''],
     Extern [''dataclass'', ''field''],
     From Aimw_guardrails_patterns (same [''mask'']),
     From Aimw_identity_base (same [''BaseIdentityVerifier'']),
     From Aimw_identity_static_bearer (same [''StaticBearerTokenVerifier'']),
     From Aimw_models (same [''ExecutionContext'', ''ToolRequest'']),
     Bind ''GatewayAuthError'' [],
     Bind ''LiteLLMGatewayShim'' [''dataclass'', ''field'', ''StaticBearerTokenVerifier''],
     Bind ''ProposedToolCall'' [''dataclass''],
     Bind ''FakeLLMClient'' []]"

definition module_guardrails :: "aimw_name py_stmt list" where
  "module_guardrails =
    [From Aimw_guardrails_errors (same [''GuardrailViolation'']),
     From Aimw_guardrails_regex_pii (same [''RegexPIIGuardrail'']),
     From Aimw_guardrails_semantic (same [''SemanticGuardrail'']),
     Bind ''__all__'' []]"

definition module_guardrails_errors :: "aimw_name py_stmt list" where
  "module_guardrails_errors =
    [Bind ''GuardrailViolation'' []]"

definition module_guardrails_patterns :: "aimw_name py_stmt list" where
  "module_guardrails_patterns =
    [Extern [''annotations''],
     Extern [''re''],
     Bind ''PII_PATTERNS'' [''re''],
     Bind ''PROMPT_INJECTION_PATTERNS'' [''re''],
     Bind ''mask'' [''PII_PATTERNS''],
     Bind ''find_injection_markers'' []]"

definition module_guardrails_regex_pii :: "aimw_name py_stmt list" where
  "module_guardrails_regex_pii =
    [Extern [''annotations''],
     From Aimw_guardrails_errors (same [''GuardrailViolation'']),
     From Aimw_guardrails_patterns (same [''find_injection_markers'', ''mask'']),
     From Aimw_interfaces_guardrail (same [''BaseGuardrail'']),
     From Aimw_models (same [''ExecutionContext'']),
     Bind ''RegexPIIGuardrail'' [''BaseGuardrail'']]"

definition module_guardrails_semantic :: "aimw_name py_stmt list" where
  "module_guardrails_semantic =
    [Extern [''annotations''],
     Extern [''re''],
     From Aimw_guardrails_errors (same [''GuardrailViolation'']),
     From Aimw_interfaces_guardrail (same [''BaseGuardrail'']),
     From Aimw_models (same [''ExecutionContext'']),
     Bind ''_TOKEN_RE'' [''re''],
     Bind ''_INJECTION_INTENTS'' [],
     Bind ''_tokenize'' [],
     Bind ''_jaccard'' [],
     Bind ''semantic_injection_score'' [],
     Bind ''SemanticGuardrail'' [''BaseGuardrail'']]"

definition module_hitl :: "aimw_name py_stmt list" where
  "module_hitl =
    [From Aimw_hitl_approval (same [''ApprovalCallback'', ''InMemoryApprovalQueue'']),
     Bind ''__all__'' []]"

definition module_hitl_approval :: "aimw_name py_stmt list" where
  "module_hitl_approval =
    [Extern [''annotations''],
     Extern [''Awaitable'', ''Callable''],
     From Aimw_models (same [''ExecutionContext'', ''PolicyDecision'', ''ToolRequest'']),
     Bind ''ApprovalCallback'' [''Callable'', ''ExecutionContext'', ''ToolRequest'', ''PolicyDecision'', ''Awaitable''],
     Bind ''InMemoryApprovalQueue'' []]"

definition module_identity :: "aimw_name py_stmt list" where
  "module_identity =
    [From Aimw_identity_base (same [''BaseIdentityVerifier'']),
     From Aimw_identity_session_token (same [''SessionTokenError'', ''SessionTokenIssuer'']),
     From Aimw_identity_static_bearer (same [''StaticBearerTokenVerifier'']),
     Bind ''__all__'' []]"

definition module_identity_base :: "aimw_name py_stmt list" where
  "module_identity_base =
    [Extern [''annotations''],
     Extern [''ABC'', ''abstractmethod''],
     From Aimw_models (same [''ExecutionContext'']),
     Bind ''BaseIdentityVerifier'' [''ABC'', ''abstractmethod'']]"

definition module_identity_session_token :: "aimw_name py_stmt list" where
  "module_identity_session_token =
    [Extern [''annotations''],
     Extern [''hmac''],
     Extern [''time''],
     Extern [''sha256''],
     From Aimw_identity_base (same [''BaseIdentityVerifier'']),
     From Aimw_models (same [''ExecutionContext'']),
     Bind ''SessionTokenError'' [],
     Bind ''_sign'' [],
     Bind ''SessionTokenIssuer'' [''BaseIdentityVerifier'']]"

definition module_identity_static_bearer :: "aimw_name py_stmt list" where
  "module_identity_static_bearer =
    [Extern [''annotations''],
     From Aimw_identity_base (same [''BaseIdentityVerifier'']),
     From Aimw_models (same [''ExecutionContext'']),
     Bind ''StaticBearerTokenVerifier'' [''BaseIdentityVerifier'']]"

definition module_interfaces :: "aimw_name py_stmt list" where
  "module_interfaces =
    [From Aimw_interfaces_guardrail (same [''BaseGuardrail'']),
     From Aimw_interfaces_policy_engine (same [''BasePolicyEngine'']),
     From Aimw_interfaces_registry (same [''BaseRegistry'']),
     Bind ''__all__'' []]"

definition module_interfaces_guardrail :: "aimw_name py_stmt list" where
  "module_interfaces_guardrail =
    [Extern [''annotations''],
     Extern [''ABC'', ''abstractmethod''],
     From Aimw_models (same [''ExecutionContext'']),
     Bind ''BaseGuardrail'' [''ABC'', ''abstractmethod'']]"

definition module_interfaces_policy_engine :: "aimw_name py_stmt list" where
  "module_interfaces_policy_engine =
    [Extern [''annotations''],
     Extern [''ABC'', ''abstractmethod''],
     From Aimw_models (same [''ExecutionContext'', ''PolicyDecision'', ''ToolRequest'']),
     Bind ''BasePolicyEngine'' [''ABC'', ''abstractmethod'']]"

definition module_interfaces_registry :: "aimw_name py_stmt list" where
  "module_interfaces_registry =
    [Extern [''annotations''],
     Extern [''ABC'', ''abstractmethod''],
     Extern [''Any''],
     From Aimw_models (same [''ExecutionContext'']),
     Bind ''BaseRegistry'' [''ABC'', ''abstractmethod'']]"

definition module_policy :: "aimw_name py_stmt list" where
  "module_policy =
    [From Aimw_policy_db_engine (same [''DbBackedPolicyEngine'']),
     From Aimw_policy_db_rules (same [''DbRuleStore'', ''connect'', ''seed_example'']),
     From Aimw_policy_errors (same [''PolicyEvaluationError'']),
     From Aimw_policy_rules (same [''PolicyRuleSet'', ''ToolRule'', ''load_ruleset'']),
     From Aimw_policy_static_engine (same [''StaticPolicyEngine'']),
     Bind ''__all__'' []]"

definition module_policy_db_engine :: "aimw_name py_stmt list" where
  "module_policy_db_engine =
    [Extern [''annotations''],
     Extern [''logging''],
     Extern [''re''],
     Extern [''Callable''],
     From Aimw_interfaces_policy_engine (same [''BasePolicyEngine'']),
     From Aimw_models (same [''ExecutionContext'', ''PolicyDecision'', ''ToolRequest'']),
     From Aimw_policy_db_rules (same [''DbRuleStore'']),
     From Aimw_policy_errors (same [''PolicyEvaluationError'']),
     Bind ''logger'' [''logging''],
     Bind ''_deny'' [],
     Bind ''DbBackedPolicyEngine'' [''BasePolicyEngine'']]"

definition module_policy_db_rules :: "aimw_name py_stmt list" where
  "module_policy_db_rules =
    [Extern [''annotations''],
     Extern [''sqlite3''],
     Extern [''Path''],
     Bind ''_SCHEMA'' [],
     Bind ''DEFAULT_RATE_LIMIT'' [],
     Bind ''DEFAULT_IDENTITY_FIELDS'' [],
     Bind ''connect'' [],
     Bind ''seed_example'' [],
     Bind ''DbRuleStore'' []]"

definition module_policy_errors :: "aimw_name py_stmt list" where
  "module_policy_errors =
    [Bind ''PolicyEvaluationError'' []]"

definition module_policy_rules :: "aimw_name py_stmt list" where
  "module_policy_rules =
    [Extern [''annotations''],
     Extern [''Path''],
     Extern [''yaml''],
     Extern [''BaseModel'', ''Field''],
     Bind ''ToolRule'' [''BaseModel'', ''Field''],
     Bind ''PolicyRuleSet'' [''BaseModel'', ''Field''],
     Bind ''load_ruleset'' []]"

definition module_policy_static_engine :: "aimw_name py_stmt list" where
  "module_policy_static_engine =
    [Extern [''annotations''],
     Extern [''logging''],
     Extern [''re''],
     Extern [''Callable''],
     From Aimw_interfaces_policy_engine (same [''BasePolicyEngine'']),
     From Aimw_models (same [''ExecutionContext'', ''PolicyDecision'', ''ToolRequest'']),
     From Aimw_policy_errors (same [''PolicyEvaluationError'']),
     From Aimw_policy_rules (same [''PolicyRuleSet'']),
     Bind ''logger'' [''logging''],
     Bind ''_deny'' [],
     Bind ''StaticPolicyEngine'' [''BasePolicyEngine'']]"

definition module_registry :: "aimw_name py_stmt list" where
  "module_registry =
    [From Aimw_registry_db_registry (same [''DbBackedToolRegistry'']),
     From Aimw_registry_static_registry (same [''StaticToolRegistry'']),
     Bind ''__all__'' []]"

definition module_registry_db_registry :: "aimw_name py_stmt list" where
  "module_registry_db_registry =
    [Extern [''annotations''],
     Extern [''Any''],
     From Aimw_interfaces_registry (same [''BaseRegistry'']),
     From Aimw_models (same [''ExecutionContext'']),
     From Aimw_policy_db_rules (same [''DbRuleStore'']),
     Bind ''DbBackedToolRegistry'' [''BaseRegistry'']]"

definition module_registry_static_registry :: "aimw_name py_stmt list" where
  "module_registry_static_registry =
    [Extern [''annotations''],
     Extern [''Any''],
     From Aimw_interfaces_registry (same [''BaseRegistry'']),
     From Aimw_models (same [''ExecutionContext'']),
     From Aimw_policy_rules (same [''PolicyRuleSet'']),
     Bind ''StaticToolRegistry'' [''BaseRegistry'']]"

definition module_reliability :: "aimw_name py_stmt list" where
  "module_reliability =
    [From Aimw_reliability_circuit_breaker (same [''BaseCircuitBreakerBackend'', ''CircuitBreaker'', ''InMemoryCircuitBreakerBackend'', ''RedisCircuitBreakerBackend'']),
     Bind ''__all__'' []]"

definition module_reliability_circuit_breaker :: "aimw_name py_stmt list" where
  "module_reliability_circuit_breaker =
    [Extern [''annotations''],
     Extern [''time''],
     Extern [''ABC'', ''abstractmethod''],
     Extern [''deque''],
     Bind ''BaseCircuitBreakerBackend'' [''ABC'', ''abstractmethod''],
     Bind ''InMemoryCircuitBreakerBackend'' [''BaseCircuitBreakerBackend''],
     Bind ''RedisCircuitBreakerBackend'' [''BaseCircuitBreakerBackend''],
     Bind ''CircuitBreaker'' []]"

definition module_sandbox :: "aimw_name py_stmt list" where
  "module_sandbox =
    [From Aimw_sandbox_base (same [''BaseSandbox'', ''SandboxResult'']),
     From Aimw_sandbox_docker_sandbox (same [''DockerSandbox'', ''RestrictedDockerSandbox'']),
     From Aimw_sandbox_subprocess_sandbox (same [''SubprocessSandbox'']),
     Bind ''__all__'' []]"

definition module_sandbox_base :: "aimw_name py_stmt list" where
  "module_sandbox_base =
    [Extern [''annotations''],
     Extern [''ABC'', ''abstractmethod''],
     Extern [''BaseModel''],
     From Aimw_models (same [''ExecutionContext'', ''ToolRequest'']),
     Bind ''SandboxResult'' [''BaseModel''],
     Bind ''BaseSandbox'' [''ABC'', ''abstractmethod'']]"

definition module_sandbox_docker_sandbox :: "aimw_name py_stmt list" where
  "module_sandbox_docker_sandbox =
    [Extern [''annotations''],
     Extern [''asyncio''],
     Extern [''shlex''],
     Extern [''time''],
     From Aimw_models (same [''ExecutionContext'', ''ToolRequest'']),
     From Aimw_sandbox_base (same [''BaseSandbox'', ''SandboxResult'']),
     Bind ''DockerSandbox'' [''BaseSandbox''],
     Bind ''RestrictedDockerSandbox'' [''DockerSandbox'']]"

definition module_sandbox_subprocess_sandbox :: "aimw_name py_stmt list" where
  "module_sandbox_subprocess_sandbox =
    [Extern [''annotations''],
     Extern [''asyncio''],
     Extern [''time''],
     Extern [''Awaitable'', ''Callable''],
     From Aimw_models (same [''ExecutionContext'', ''ToolRequest'']),
     From Aimw_sandbox_base (same [''BaseSandbox'', ''SandboxResult'']),
     Bind ''ToolImplementation'' [''Callable'', ''ToolRequest'', ''ExecutionContext'', ''Awaitable''],
     Bind ''_default_implementation'' [],
     Bind ''SubprocessSandbox'' [''BaseSandbox'']]"

definition exports_root :: "string list" where
  "exports_root =
    [''ApprovalCallback'', ''BaseAuditSink'', ''BaseCircuitBreakerBackend'', ''BaseGuardrail'',
     ''BaseIdentityVerifier'', ''BasePolicyEngine'', ''BaseRegistry'', ''BaseSandbox'',
     ''ChainVerificationResult'', ''CircuitBreaker'', ''DLPClassification'', ''DLPClassifier'',
     ''DbBackedPolicyEngine'', ''DbBackedToolRegistry'', ''DbRuleStore'', ''DockerSandbox'',
     ''ExecutionContext'', ''FakeLLMClient'', ''GovernancePipeline'', ''HashChainedJSONLLogger'',
     ''InMemoryApprovalQueue'', ''InMemoryCircuitBreakerBackend'', ''InterceptorResult'',
     ''LiteLLMGatewayShim'', ''LocalSiemForwarder'', ''PipelineResult'', ''PolicyDecision'',
     ''PolicyRuleSet'', ''ProposedToolCall'', ''RegexPIIGuardrail'', ''RestrictedDockerSandbox'',
     ''SandboxResult'', ''SemanticGuardrail'', ''SensitivityTier'', ''SessionTokenIssuer'',
     ''StaticBearerTokenVerifier'', ''StaticPolicyEngine'', ''StaticToolRegistry'',
     ''SubprocessSandbox'', ''ToolCallInterceptor'', ''ToolRequest'', ''__version__'',
     ''connect_policy_db'', ''load_ruleset'', ''seed_example_policy_db'']"

definition exports_audit :: "string list" where
  "exports_audit =
    [''AuditRecord'', ''AuditTamperError'', ''BaseAuditSink'', ''ChainVerificationResult'',
     ''DLPClassification'', ''DLPClassifier'', ''HashChainedJSONLLogger'', ''LocalSiemForwarder'',
     ''RedactedContext'', ''RedactedRequest'', ''SensitivityTier'', ''verify_chain'']"

definition exports_gateway :: "string list" where
  "exports_gateway =
    [''FakeLLMClient'', ''GatewayAuthError'', ''LiteLLMGatewayShim'', ''ProposedToolCall'']"

definition exports_guardrails :: "string list" where
  "exports_guardrails =
    [''GuardrailViolation'', ''RegexPIIGuardrail'', ''SemanticGuardrail'']"

definition exports_hitl :: "string list" where
  "exports_hitl =
    [''ApprovalCallback'', ''InMemoryApprovalQueue'']"

definition exports_identity :: "string list" where
  "exports_identity =
    [''BaseIdentityVerifier'', ''SessionTokenError'', ''SessionTokenIssuer'',
     ''StaticBearerTokenVerifier'']"

definition exports_interfaces :: "string list" where
  "exports_interfaces =
    [''BaseGuardrail'', ''BasePolicyEngine'', ''BaseRegistry'']"

definition exports_policy :: "string list" where
  "exports_policy =
    [''DbBackedPolicyEngine'', ''DbRuleStore'', ''PolicyEvaluationError'', ''PolicyRuleSet'',
     ''StaticPolicyEngine'', ''ToolRule'', ''connect'', ''load_ruleset'', ''seed_example'']"

definition exports_registry :: "string list" where
  "exports_registry =
    [''DbBackedToolRegistry'', ''StaticToolRegistry'']"

definition exports_reliability :: "string list" where
  "exports_reliability =
    [''BaseCircuitBreakerBackend'', ''CircuitBreaker'', ''InMemoryCircuitBreakerBackend'',
     ''RedisCircuitBreakerBackend'']"

definition exports_sandbox :: "string list" where
  "exports_sandbox =
    [''BaseSandbox'', ''DockerSandbox'', ''RestrictedDockerSandbox'', ''SandboxResult'',
     ''SubprocessSandbox'']"

primrec aimw_body :: "aimw_name \<Rightarrow> aimw_name py_stmt list" where
  "aimw_body Aimw = module_root" | "aimw_body Aimw_config = module_config"
| "aimw_body Aimw_interceptor = module_interceptor" | "aimw_body Aimw_models = module_models"
| "aimw_body Aimw_pipeline = module_pipeline" | "aimw_body Aimw_audit = module_audit"
| "aimw_body Aimw_audit_dlp = module_audit_dlp" | "aimw_body Aimw_audit_errors = module_audit_errors"
| "aimw_body Aimw_audit_models = module_audit_models" | "aimw_body Aimw_audit_siem = module_audit_siem"
| "aimw_body Aimw_audit_worm_log = module_audit_worm_log" | "aimw_body Aimw_gateway = module_gateway"
| "aimw_body Aimw_gateway_shim = module_gateway_shim" | "aimw_body Aimw_guardrails = module_guardrails"
| "aimw_body Aimw_guardrails_errors = module_guardrails_errors"
| "aimw_body Aimw_guardrails_patterns = module_guardrails_patterns"
| "aimw_body Aimw_guardrails_regex_pii = module_guardrails_regex_pii"
| "aimw_body Aimw_guardrails_semantic = module_guardrails_semantic" | "aimw_body Aimw_hitl = module_hitl"
| "aimw_body Aimw_hitl_approval = module_hitl_approval" | "aimw_body Aimw_identity = module_identity"
| "aimw_body Aimw_identity_base = module_identity_base"
| "aimw_body Aimw_identity_session_token = module_identity_session_token"
| "aimw_body Aimw_identity_static_bearer = module_identity_static_bearer"
| "aimw_body Aimw_interfaces = module_interfaces"
| "aimw_body Aimw_interfaces_guardrail = module_interfaces_guardrail"
| "aimw_body Aimw_interfaces_policy_engine = module_interfaces_policy_engine"
| "aimw_body Aimw_interfaces_registry = module_interfaces_registry"
| "aimw_body Aimw_policy = module_policy" | "aimw_body Aimw_policy_db_engine = module_policy_db_engine"
| "aimw_body Aimw_policy_db_rules = module_policy_db_rules"
| "aimw_body Aimw_policy_errors = module_policy_errors"
| "aimw_body Aimw_policy_rules = module_policy_rules"
| "aimw_body Aimw_policy_static_engine = module_policy_static_engine"
| "aimw_body Aimw_registry = module_registry"
| "aimw_body Aimw_registry_db_registry = module_registry_db_registry"
| "aimw_body Aimw_registry_static_registry = module_registry_static_registry"
| "aimw_body Aimw_reliability = module_reliability"
| "aimw_body Aimw_reliability_circuit_breaker = module_reliability_circuit_breaker"
| "aimw_body Aimw_sandbox = module_sandbox" | "aimw_body Aimw_sandbox_base = module_sandbox_base"
| "aimw_body Aimw_sandbox_docker_sandbox = module_sandbox_docker_sandbox"
| "aimw_body Aimw_sandbox_subprocess_sandbox = module_sandbox_subprocess_sandbox"

text \<open>The packages above a module, from the root, and the module itself.\<close>

primrec aimw_packages :: "aimw_name \<Rightarrow> aimw_name list" where
  "aimw_packages Aimw = [Aimw]" | "aimw_packages Aimw_config = [Aimw, Aimw_config]"
| "aimw_packages Aimw_interceptor = [Aimw, Aimw_interceptor]"
| "aimw_packages Aimw_models = [Aimw, Aimw_models]" | "aimw_packages Aimw_pipeline = [Aimw, Aimw_pipeline]"
| "aimw_packages Aimw_audit = [Aimw, Aimw_audit]"
| "aimw_packages Aimw_audit_dlp = [Aimw, Aimw_audit, Aimw_audit_dlp]"
| "aimw_packages Aimw_audit_errors = [Aimw, Aimw_audit, Aimw_audit_errors]"
| "aimw_packages Aimw_audit_models = [Aimw, Aimw_audit, Aimw_audit_models]"
| "aimw_packages Aimw_audit_siem = [Aimw, Aimw_audit, Aimw_audit_siem]"
| "aimw_packages Aimw_audit_worm_log = [Aimw, Aimw_audit, Aimw_audit_worm_log]"
| "aimw_packages Aimw_gateway = [Aimw, Aimw_gateway]"
| "aimw_packages Aimw_gateway_shim = [Aimw, Aimw_gateway, Aimw_gateway_shim]"
| "aimw_packages Aimw_guardrails = [Aimw, Aimw_guardrails]"
| "aimw_packages Aimw_guardrails_errors = [Aimw, Aimw_guardrails, Aimw_guardrails_errors]"
| "aimw_packages Aimw_guardrails_patterns = [Aimw, Aimw_guardrails, Aimw_guardrails_patterns]"
| "aimw_packages Aimw_guardrails_regex_pii = [Aimw, Aimw_guardrails, Aimw_guardrails_regex_pii]"
| "aimw_packages Aimw_guardrails_semantic = [Aimw, Aimw_guardrails, Aimw_guardrails_semantic]"
| "aimw_packages Aimw_hitl = [Aimw, Aimw_hitl]"
| "aimw_packages Aimw_hitl_approval = [Aimw, Aimw_hitl, Aimw_hitl_approval]"
| "aimw_packages Aimw_identity = [Aimw, Aimw_identity]"
| "aimw_packages Aimw_identity_base = [Aimw, Aimw_identity, Aimw_identity_base]"
| "aimw_packages Aimw_identity_session_token = [Aimw, Aimw_identity, Aimw_identity_session_token]"
| "aimw_packages Aimw_identity_static_bearer = [Aimw, Aimw_identity, Aimw_identity_static_bearer]"
| "aimw_packages Aimw_interfaces = [Aimw, Aimw_interfaces]"
| "aimw_packages Aimw_interfaces_guardrail = [Aimw, Aimw_interfaces, Aimw_interfaces_guardrail]"
| "aimw_packages Aimw_interfaces_policy_engine = [Aimw, Aimw_interfaces, Aimw_interfaces_policy_engine]"
| "aimw_packages Aimw_interfaces_registry = [Aimw, Aimw_interfaces, Aimw_interfaces_registry]"
| "aimw_packages Aimw_policy = [Aimw, Aimw_policy]"
| "aimw_packages Aimw_policy_db_engine = [Aimw, Aimw_policy, Aimw_policy_db_engine]"
| "aimw_packages Aimw_policy_db_rules = [Aimw, Aimw_policy, Aimw_policy_db_rules]"
| "aimw_packages Aimw_policy_errors = [Aimw, Aimw_policy, Aimw_policy_errors]"
| "aimw_packages Aimw_policy_rules = [Aimw, Aimw_policy, Aimw_policy_rules]"
| "aimw_packages Aimw_policy_static_engine = [Aimw, Aimw_policy, Aimw_policy_static_engine]"
| "aimw_packages Aimw_registry = [Aimw, Aimw_registry]"
| "aimw_packages Aimw_registry_db_registry = [Aimw, Aimw_registry, Aimw_registry_db_registry]"
| "aimw_packages Aimw_registry_static_registry = [Aimw, Aimw_registry, Aimw_registry_static_registry]"
| "aimw_packages Aimw_reliability = [Aimw, Aimw_reliability]"
| "aimw_packages Aimw_reliability_circuit_breaker = [Aimw, Aimw_reliability, Aimw_reliability_circuit_breaker]"
| "aimw_packages Aimw_sandbox = [Aimw, Aimw_sandbox]"
| "aimw_packages Aimw_sandbox_base = [Aimw, Aimw_sandbox, Aimw_sandbox_base]"
| "aimw_packages Aimw_sandbox_docker_sandbox = [Aimw, Aimw_sandbox, Aimw_sandbox_docker_sandbox]"
| "aimw_packages Aimw_sandbox_subprocess_sandbox = [Aimw, Aimw_sandbox, Aimw_sandbox_subprocess_sandbox]"

text \<open>An order in which every module comes after all that its body imports.\<close>

primrec aimw_rank :: "aimw_name \<Rightarrow> nat" where
  "aimw_rank Aimw = 41" | "aimw_rank Aimw_config = 42" | "aimw_rank Aimw_interceptor = 30"
| "aimw_rank Aimw_models = 2" | "aimw_rank Aimw_pipeline = 31" | "aimw_rank Aimw_audit = 15"
| "aimw_rank Aimw_audit_dlp = 10" | "aimw_rank Aimw_audit_errors = 11" | "aimw_rank Aimw_audit_models = 12"
| "aimw_rank Aimw_audit_siem = 13" | "aimw_rank Aimw_audit_worm_log = 14" | "aimw_rank Aimw_gateway = 21"
| "aimw_rank Aimw_gateway_shim = 20" | "aimw_rank Aimw_guardrails = 9"
| "aimw_rank Aimw_guardrails_errors = 0" | "aimw_rank Aimw_guardrails_patterns = 1"
| "aimw_rank Aimw_guardrails_regex_pii = 7" | "aimw_rank Aimw_guardrails_semantic = 8"
| "aimw_rank Aimw_hitl = 23" | "aimw_rank Aimw_hitl_approval = 22" | "aimw_rank Aimw_identity = 19"
| "aimw_rank Aimw_identity_base = 16" | "aimw_rank Aimw_identity_session_token = 17"
| "aimw_rank Aimw_identity_static_bearer = 18" | "aimw_rank Aimw_interfaces = 6"
| "aimw_rank Aimw_interfaces_guardrail = 3" | "aimw_rank Aimw_interfaces_policy_engine = 4"
| "aimw_rank Aimw_interfaces_registry = 5" | "aimw_rank Aimw_policy = 37"
| "aimw_rank Aimw_policy_db_engine = 34" | "aimw_rank Aimw_policy_db_rules = 32"
| "aimw_rank Aimw_policy_errors = 33" | "aimw_rank Aimw_policy_rules = 35"
| "aimw_rank Aimw_policy_static_engine = 36" | "aimw_rank Aimw_registry = 40"
| "aimw_rank Aimw_registry_db_registry = 38" | "aimw_rank Aimw_registry_static_registry = 39"
| "aimw_rank Aimw_reliability = 25" | "aimw_rank Aimw_reliability_circuit_breaker = 24"
| "aimw_rank Aimw_sandbox = 29" | "aimw_rank Aimw_sandbox_base = 26"
| "aimw_rank Aimw_sandbox_docker_sandbox = 27" | "aimw_rank Aimw_sandbox_subprocess_sandbox = 28"

text \<open>\<open>__all__\<close> of the packages.\<close>

definition aimw_exports :: "aimw_name \<Rightarrow> string list" where
  "aimw_exports m =
     (case m of
        Aimw \<Rightarrow> exports_root
      | Aimw_audit \<Rightarrow> exports_audit
      | Aimw_gateway \<Rightarrow> exports_gateway
      | Aimw_guardrails \<Rightarrow> exports_guardrails
      | Aimw_hitl \<Rightarrow> exports_hitl
      | Aimw_identity \<Rightarrow> exports_identity
      | Aimw_interfaces \<Rightarrow> exports_interfaces
      | Aimw_policy \<Rightarrow> exports_policy
      | Aimw_registry \<Rightarrow> exports_registry
      | Aimw_reliability \<Rightarrow> exports_reliability
      | Aimw_sandbox \<Rightarrow> exports_sandbox
      | _ \<Rightarrow> [])"


section \<open>The package is layered\<close>

lemmas module_defs = same_def module_root_def module_config_def module_interceptor_def module_models_def module_pipeline_def
  module_audit_def module_audit_dlp_def module_audit_errors_def module_audit_models_def module_audit_siem_def
  module_audit_worm_log_def module_gateway_def module_gateway_shim_def module_guardrails_def
  module_guardrails_errors_def module_guardrails_patterns_def module_guardrails_regex_pii_def
  module_guardrails_semantic_def module_hitl_def module_hitl_approval_def module_identity_def
  module_identity_base_def module_identity_session_token_def module_identity_static_bearer_def
  module_interfaces_def module_interfaces_guardrail_def module_interfaces_policy_engine_def
  module_interfaces_registry_def module_policy_def module_policy_db_engine_def module_policy_db_rules_def
  module_policy_errors_def module_policy_rules_def module_policy_static_engine_def module_registry_def
  module_registry_db_registry_def module_registry_static_registry_def module_reliability_def
  module_reliability_circuit_breaker_def module_sandbox_def module_sandbox_base_def
  module_sandbox_docker_sandbox_def module_sandbox_subprocess_sandbox_def

lemmas exports_defs = exports_root_def exports_audit_def exports_gateway_def exports_guardrails_def exports_hitl_def
  exports_identity_def exports_interfaces_def exports_policy_def exports_registry_def
  exports_reliability_def exports_sandbox_def

lemma aimw_packages_self: "aimw_packages m \<noteq> []" "last (aimw_packages m) = m"
  by (cases m; simp)+

lemma aimw_packages_closed:
  "k < length (aimw_packages m) \<Longrightarrow> aimw_packages (aimw_packages m ! k) = take (Suc k) (aimw_packages m)"
  by (cases m) (auto simp: less_Suc_eq)

text \<open>The three conditions of a layered program on one statement of a module.\<close>

definition stmt_layered :: "aimw_name \<Rightarrow> aimw_name py_stmt \<Rightarrow> bool" where
  "stmt_layered m s =
     (case s of
        From q names \<Rightarrow>
          q \<notin> set (aimw_packages m) \<and>
          (\<forall>p \<in> set (aimw_packages q). p \<in> set (aimw_packages m) \<or> aimw_rank p < aimw_rank m) \<and>
          set (map fst names) \<subseteq> set (bound_names (aimw_body q))
      | _ \<Rightarrow> True)"

lemma aimw_layered: "\<forall>s \<in> set (aimw_body m). stmt_layered m s"
  by (cases m) (simp_all add: module_defs stmt_layered_def)

lemma aimw_uses: "uses_bound [] (aimw_body m)"
  by (cases m) (simp_all add: module_defs)

interpretation aimw: layered aimw_body aimw_packages aimw_rank
proof
  fix m q :: aimw_name and names
  assume "From q names \<in> set (aimw_body m)"
  with aimw_layered [of m] have "stmt_layered m (From q names)" by blast
  then show "q \<notin> set (aimw_packages m) \<and>
      (\<forall>p \<in> set (aimw_packages q). p \<in> set (aimw_packages m) \<or> aimw_rank p < aimw_rank m)"
    and "set (map fst names) \<subseteq> set (bound_names (aimw_body q))"
    by (simp_all add: stmt_layered_def)
qed (simp_all add: aimw_packages_self aimw_packages_closed aimw_uses)

lemma aimw_rank_bound: "aimw_rank m < 43"
  by (cases m) simp_all

lemma exports_bound: "distinct (aimw_exports m) \<and> set (aimw_exports m) \<subseteq> set (bound_names (aimw_body m))"
  by (cases m) (simp_all add: aimw_exports_def module_defs exports_defs)


section \<open>Properties\<close>

text \<open>
  C40: The package loads, whichever of its modules is imported first: no import meets a module that is only
  partly there without the name it asks for, and no statement evaluates a name that is not bound yet. Afterwards
  every module that has been loaded has bound all its names, the root package is among them, and every name that
  the imported module lists in \<open>__all__\<close> is there, once; the nesting of imports is below the number of modules.
\<close>

theorem package_loads:
  "\<exists>sys. import_module 43 aimw_body aimw_packages m Map.empty = Inr sys \<and>
     {Aimw, m} \<subseteq> dom sys \<and>
     dom sys \<subseteq> {x. set (bound_names (aimw_body x)) \<subseteq> set (module_ns sys x)} \<and>
     distinct (aimw_exports m) \<and> set (aimw_exports m) \<subseteq> set (module_ns sys m)"
proof -
  obtain sys where sys: "import_module 43 aimw_body aimw_packages m Map.empty = Inr sys"
    "set (aimw_packages m) \<subseteq> dom sys" "\<forall>x ns. sys x = Some ns \<longrightarrow> set (bound_names (aimw_body x)) \<subseteq> set ns"
    using aimw.import_whole [of 43 m] aimw_rank_bound by auto
  have "Aimw \<in> set (aimw_packages m)" by (cases m) simp_all
  with sys(2) aimw.self_in_packages [of m] have "{Aimw, m} \<subseteq> dom sys" by blast
  moreover from this obtain ns where "sys m = Some ns" by blast
  with sys(3) exports_bound [of m] have "set (aimw_exports m) \<subseteq> set (module_ns sys m)"
    by (auto simp: module_ns_def)
  moreover have "dom sys \<subseteq> {x. set (bound_names (aimw_body x)) \<subseteq> set (module_ns sys x)}"
  proof
    fix x assume "x \<in> dom sys"
    then obtain ns where "sys x = Some ns" by blast
    with sys(3) show "x \<in> {x. set (bound_names (aimw_body x)) \<subseteq> set (module_ns sys x)}"
      by (simp add: module_ns_def)
  qed
  ultimately show ?thesis using sys(1) exports_bound [of m] by blast
qed

end
