(* ===== verification/Spec2Isabelle.thy ===== *)
theory Spec2Isabelle
  imports Registry DemoL2 ShellWords RunGates LiveRules RedisBreaker Package
begin

text \<open>
  A model of the \<^verbatim>\<open>aimw\<close> package (\<^verbatim>\<open>src/src/aimw\<close>), a runtime governance layer between an agent and its
  tools, with the theorems that say what the layer guarantees.

  \<^bold>\<open>The program.\<close> A request enters \<open>GovernancePipeline.run\<close> (\<^verbatim>\<open>pipeline.py\<close>). The gateway (\<^verbatim>\<open>gateway/shim.py\<close>)
  checks the bearer token with an identity verifier (\<^verbatim>\<open>identity/\<close>), counts the request against the
  agent's limit and masks personal data; the guardrail (\<^verbatim>\<open>guardrails/\<close>) refuses prompt injections. The
  scripted client proposes tool calls, and each of them goes through \<open>ToolCallInterceptor.handle\<close>
  (\<^verbatim>\<open>interceptor.py\<close>): circuit breaker (\<^verbatim>\<open>reliability/\<close>), policy engine under a timeout (\<^verbatim>\<open>policy/\<close>), action
  requirements with human approval (\<^verbatim>\<open>hitl/\<close>), sandbox (\<^verbatim>\<open>sandbox/\<close>), feedback to the breaker, and in a
  \<open>finally\<close> clause the audit record (\<^verbatim>\<open>audit/\<close>). The response passes the guardrail on its way out.

  \<^bold>\<open>Conventions.\<close> A class is a record of its fields; a method is a function that takes the state it
  reads and returns the state it leaves. An exception is the left side of a \<open>result\<close>; those outside
  \<open>Exception\<close> (a cancellation) have the class \<open>CancelledError\<close>. Clock readings, identifiers, write errors and
  the suspension time of awaited calls are arguments. Dictionaries are lists in insertion order,
  floats are the rationals that binary64 holds with the rounding of each operation (\<open>fl\<close>), strings
  are lists of code points below 256.

  \<^bold>\<open>Theories.\<close>
  \<^item> \<open>Prelude\<close>, \<open>PyFloat\<close>, \<open>PyValue\<close>, \<open>FloatText\<close>: exceptions, text, dictionaries; binary64 arithmetic; Python
    values with \<open>str\<close> and truth; the decimal text of a float, which reads back as the same float.
  \<^item> \<open>Models\<close>: the data contracts of \<^verbatim>\<open>models.py\<close>.
  \<^item> \<open>PolicyChecks\<close>, \<open>StaticPolicy\<close>, \<open>DbPolicy\<close>, \<open>Registry\<close>: the checks that both engines share, the engine over
    YAML rules, the tables, queries and engine of the database tier, and the tool lists of both
    tiers. The engines are shown equal to an order-free permission hierarchy, the database engine
    to refine the static one on the rules its tables spell out, and the lists to offer all that
    the engines allow.
  \<^item> \<open>Breaker\<close>, \<open>RedisBreaker\<close>: the backend interface, the in-memory backend and the facade; the backend over
    Redis. The pruned deque refines the history restricted to the window. The Redis client is a
    parameter; \<open>redis_server\<close> states what its commands promise, expiry of keys included. A store that
    expires its keys keeps these promises, and so does the client of the tests, whose keys never expire.
  \<^item> \<open>Sha256\<close>, \<open>Json\<close>, \<open>AuditLog\<close>, \<open>AuditTrail\<close>: the hash and its keyed form, JSON text, canonical or with blanks after its separators, the log with its
    chain, sinks, failing writes and restarts. Logs that loggers write verify; a replaced record is
    detected or exhibits a collision; two logs with one head hash have one content.
  \<^item> \<open>Sandbox\<close>, \<open>ShellWords\<close>, \<open>Hitl\<close>: both sandboxes with the command lines of the container and the line that is
    logged of them; the approval queue.
  \<^item> \<open>Interceptor\<close>, \<open>InterceptorRuns\<close>, \<open>InterceptorProps\<close>: the handler over any engine, sandbox, approval and
    backend; sequences of calls; who enters the sandbox, that failures deny, that every call is
    audited, that a failing tool is cut off.
  \<^item> \<open>Tasks\<close>, \<open>Concurrency\<close>: tasks of one event loop that are interleaved at their awaits, their schedules and
    invariants; handlers as such tasks. A task alone is \<open>handle\<close>; permission and audit hold under every
    schedule; the breaker does not bound failures that run concurrently.
  \<^item> \<open>ConcurrentRuns\<close>, \<open>RunGates\<close>: whole runs of the pipeline as tasks that share the gateway and the interceptor's
    state. A schedule of runs is a schedule of the calls they propose; the limit of the gateway and the audit trail
    hold under every schedule of runs, and what reaches the sandbox is traced back along the schedule to its
    approval and to the arrival of its run.
  \<^item> \<open>LiveRules\<close>: rules that change, and connections that fail, between any two awaits of handled calls and
    between any two of the eight queries of an evaluation. What the queries saw decides; a call that waits for
    approval is not evaluated again, and a change between two queries can lift the approval.
  \<^item> \<open>Regex\<close>, \<open>RegexSub\<close>, \<open>Guardrails\<close>, \<open>SemanticDlp\<close>: a backtracking matcher for the constructs that the
    patterns use, with Python's order of alternatives, search and substitution; masking, both
    guardrails, the classifier. Masked text has nothing left to mask.
  \<^item> \<open>Identity\<close>, \<open>Gateway\<close>, \<open>Pipeline\<close>: the verifiers, the gateway and the whole flow.
  \<^item> \<open>Stacks\<close>: the interceptor over the shipped engines and sandboxes. What these hand to the log is made of JSON
    values, so every sequence of calls over them is audited with any text form that reads such records back.
  \<^item> \<open>Scripts\<close>, \<open>Demo\<close>, \<open>DemoL2\<close>: the two scripts of \<^verbatim>\<open>examples/\<close> as sequences of steps over everything above, and
    what they print: for the first with the edit of the log on disk, for the second with tokens,
    the breaker and the sink. Here the text form of a record is the instance \<open>json_codec\<close>.
  \<^item> \<open>Package\<close>: the top-level statements of all modules and Python's import; the package loads whichever module
    is imported first, and has all the names it exports.
  \<^item> this theory: the handler and the pipeline over the concrete engines, guardrails and tokens.

  \<^bold>\<open>Interfaces.\<close> What one part relies on in another is a locale, and the client's lemmas are proved inside
  it: \<open>tasks\<close> (what an advance of a task does to its measure; for handlers and for runs), \<open>layered\<close> (imports that go
  down in a rank), \<open>rounding\<close> (float arithmetic), \<open>hash_chain\<close> and \<open>record_codec\<close> (what the log needs of the hash and of
  the text form of a record), \<open>breaker_backend\<close>, \<open>redis_server\<close>, \<open>sandbox_contract\<close> (both sandboxes),
  \<open>governed_access\<close> (both tiers of engine and registry), \<open>typed_engine\<close> and \<open>typed_sandbox\<close> (what both engines
  and both sandboxes give to the log), \<open>guardrail_contract\<close> (both guardrails) and
  \<open>identity_verifier\<close> (both verifiers). Each is interpreted on the model's own definitions.

  \<^bold>\<open>Bounds and fuel.\<close> The JSON reader has fuel, as long as its input, which its lemmas show to be
  enough. The matcher repeats at most as often as there are characters left, and ends a repetition
  that consumes nothing, as Python does. The handler of a call makes at most six steps, a run of
  \<open>n\<close> proposed calls \<open>6 + 6 * n\<close> (steps between awaits, whether or not an await ever answers). The import of a module has as fuel the number of modules, 43, which bounds the rank
  of each. Everything else is structural recursion.

  \<^bold>\<open>Not modelled.\<close> YAML, pydantic's validation and the reading of files in \<open>load_ruleset\<close> (a parameter; the
  example rule set is given as the value it loads to); the text that pydantic gives a record and its reading (the
  parameter \<open>codec\<close> with the law \<open>record_codec\<close>; \<open>json_codec\<close> is a concrete instance of it, for witnesses and
  for the two scripts, and writes characters from 128 on as escapes, where pydantic writes them as they
  are); how pydantic-settings reads a float or a bool from text (a parameter of \<open>load_settings\<close>); the regular
  expressions of deny patterns, which users write (a parameter of the engines, instantiated for the pattern of the
  example rules); the SQL engine (tables are lists, whose order the results keep; SQLite leaves it open, and no
  property depends on it; a failing connection is an exception); logging; code points from 256 on; the limit of
  4300 digits of \<open>int\<close>. An append to the log writes its whole line or, if it raises, nothing. The scripted client
  stays the same during a run.

  In the theories of concurrent tasks an awaited part is answered in the step that asks it: the operations of a
  breaker backend are single steps, also those over Redis, which await several commands. An await that never
  answers, such as an approval that never comes (\<^verbatim>\<open>interceptor.py\<close> awaits the callback without a timeout), is a
  task that the schedule never lets go on. The properties are about every configuration of every schedule, so
  they cover such schedules; nothing is claimed of their ending. Tasks are interleaved at every await of the source,
  also at those that return at once, so each schedule of the event loop over parts that do not themselves yield
  is among those of the model. Outside \<open>LiveRules\<close> an engine is a function of its input.
\<close>

section \<open>Who reaches the sandbox\<close>

definition demo_stack ::
  "(execution_context \<Rightarrow> tool_request \<Rightarrow> policy_decision awaited) \<Rightarrow>
     (mem_backend, approval_queue, nat) interceptor" where
  "demo_stack engine = (sample_interceptor (1, Inr sample_ok) sample_out)\<lparr>policy_engine := engine\<rparr>"

definition deploy_state :: "(mem_backend, approval_queue, nat) istate" where
  "deploy_state =
     sample_state\<lparr>approval_state := set_decision ''c1'' True (approval_queue_init False)\<rparr>"

definition deploy_request :: tool_request where
  "deploy_request = sample_request ''deploy_tool'' ''deploy'' [(''environment'', PStr ''production'')]"

lemma demo_stack_admits:
  "fst (breaker_rejects (demo_stack engine) (ce_check_now sample_call_env) ctx req
          (breaker_state sample_state)) = Inr False"
  using sample_admits [of "(1, Inr sample_ok)" sample_out ctx req]
  by (simp add: demo_stack_def breaker_rejects_def)

lemma demo_stack_parts:
  "policy_engine (demo_stack engine) = engine" "0 < decision_timeout_s (demo_stack engine)"
  "breaker_state deploy_state = breaker_state sample_state"
  "approves (demo_stack engine) ctx deploy_request pending_approval (approval_state deploy_state)"
  "\<not> approves (demo_stack engine) ctx deploy_request pending_approval (approval_state sample_state)"
  by (simp_all add: demo_stack_def deploy_state_def approves_def sample_interceptor_def queue_call_eq
        deploy_request_def sample_request_def sample_state_def set_decision_def approval_queue_init_def
        answer_def)

text \<open>
  C2: The handler over the static engine, end to end: a handled call runs in the sandbox exactly when the
  breaker admits it, the permission hierarchy of the rule set holds for the caller and the request, and
  the callback has approved it if the rule lists its function; in every other case the sandbox stays
  as it was. A result that is returned says allowed, and carries a sandbox result, exactly then.
\<close>

theorem static_stack_executes_iff:
  assumes "policy_engine ic = static_engine env rs" and "0 < decision_timeout_s ic"
  shows "let runs = (fst (breaker_rejects ic (ce_check_now ce) ctx req (breaker_state st)) = Inr False \<and>
               (\<exists>rule. static_permits env rs ctx req rule \<and>
                  (function_name req \<in> set (requires_approval_functions rule) \<longrightarrow>
                     approves ic ctx req pending_approval (approval_state st))))
         in sandbox_state (snd (handle ic ce ctx req st)) =
              (if runs then snd (sandbox ic req ctx (sandbox_state st)) else sandbox_state st) \<and>
            (\<forall>res. fst (handle ic ce ctx req st) = Inr res \<longrightarrow>
               (ir_allowed res \<longleftrightarrow> runs) \<and> (ir_sandbox_result res \<noteq> None \<longleftrightarrow> runs))"
  using handle_returns(4,5) [of ic ce ctx req st]
  by (auto simp: Let_def handle_sandbox_state cleared_def static_granted [OF assms])

text \<open>The same deployment to production, approved in the first state, not yet decided in the second.\<close>

theorem static_stack_executes_iff_witness:
  "sandbox_state (snd (handle (demo_stack (static_engine sample_env example_ruleset)) sample_call_env
     (sample_context [''ProductionAdmin'']) deploy_request deploy_state)) = 1 \<and>
   sandbox_state (snd (handle (demo_stack (static_engine sample_env example_ruleset)) sample_call_env
     (sample_context [''ProductionAdmin'']) deploy_request sample_state)) = 0"
proof -
  let ?ic = "demo_stack (static_engine sample_env example_ruleset)"
  let ?ctx = "sample_context [''ProductionAdmin'']"
  have ev: "static_evaluate_tool_call sample_env example_ruleset ?ctx deploy_request = Inr pending_approval"
    by code_simp
  note parts = demo_stack_parts
  have granted: "granted ?ic ?ctx deploy_request ap \<longleftrightarrow> approves ?ic ?ctx deploy_request pending_approval ap" for ap
    using ev parts(2) [of "static_engine sample_env example_ruleset"]
    by (auto simp: granted_def parts(1) static_engine_def wait_for_def pending_approval_def)
  have out: "snd (sandbox ?ic deploy_request ?ctx n) = Suc n" for n
    by (simp add: demo_stack_def sample_interceptor_def)
  have "(\<exists>rule. static_permits sample_env example_ruleset ?ctx deploy_request rule \<and>
      (function_name deploy_request \<in> set (requires_approval_functions rule) \<longrightarrow>
         approves ?ic ?ctx deploy_request pending_approval ap)) \<longleftrightarrow>
      approves ?ic ?ctx deploy_request pending_approval ap" for ap
    using static_granted [of ?ic sample_env example_ruleset ?ctx deploy_request ap] granted [of ap] parts(1,2) by simp
  with static_stack_executes_iff [of ?ic sample_env example_ruleset sample_call_env ?ctx deploy_request, OF parts(1,2)]
  show ?thesis
    by (simp add: Let_def out parts(3-5) demo_stack_admits) (simp add: deploy_state_def sample_state_def)
qed

text \<open>
  C3: The handler over the database engine, end to end: the same, with the rules that are in the tables when
  the call is evaluated, and an active platform role on top; a store whose connection fails runs
  nothing.
\<close>

theorem db_stack_executes_iff:
  assumes "policy_engine ic = db_engine env conn" and "0 < decision_timeout_s ic"
  shows "let runs = (fst (breaker_rejects ic (ce_check_now ce) ctx req (breaker_state st)) = Inr False \<and>
               (\<exists>db. conn = Inr db \<and> db_permits env db ctx req \<and>
                  (db_requires_approval db (tool_name req) (function_name req) \<longrightarrow>
                     approves ic ctx req pending_approval (approval_state st))))
         in sandbox_state (snd (handle ic ce ctx req st)) =
              (if runs then snd (sandbox ic req ctx (sandbox_state st)) else sandbox_state st) \<and>
            (\<forall>res. fst (handle ic ce ctx req st) = Inr res \<longrightarrow>
               (ir_allowed res \<longleftrightarrow> runs) \<and> (ir_sandbox_result res \<noteq> None \<longleftrightarrow> runs))"
  using handle_returns(4,5) [of ic ce ctx req st]
  by (auto simp: Let_def handle_sandbox_state cleared_def db_granted [OF assms])

text \<open>The deployment over the seeded tables, approved and not yet decided.\<close>

theorem db_stack_executes_iff_witness:
  "sandbox_state (snd (handle (demo_stack (db_engine sample_env (Inr (seed_example empty_db)))) sample_call_env
     (sample_context [''ProductionAdmin'']) deploy_request deploy_state)) = 1 \<and>
   sandbox_state (snd (handle (demo_stack (db_engine sample_env (Inr (seed_example empty_db)))) sample_call_env
     (sample_context [''ProductionAdmin'']) deploy_request sample_state)) = 0"
proof -
  let ?ic = "demo_stack (db_engine sample_env (Inr (seed_example empty_db)))"
  let ?ctx = "sample_context [''ProductionAdmin'']"
  have ev: "db_evaluate sample_env (Inr (seed_example empty_db)) ?ctx deploy_request = Inr pending_approval"
    by code_simp
  then have permits: "db_permits sample_env (seed_example empty_db) ?ctx deploy_request"
    using db_evaluate_allowedD by (fastforce simp: pending_approval_def)
  have appr: "db_requires_approval (seed_example empty_db) (tool_name deploy_request) (function_name deploy_request)"
    by code_simp
  have out: "snd (sandbox ?ic deploy_request ?ctx n) = Suc n" for n
    by (simp add: demo_stack_def sample_interceptor_def)
  note parts = demo_stack_parts
  from db_stack_executes_iff [of ?ic sample_env "Inr (seed_example empty_db)" sample_call_env ?ctx deploy_request,
      OF parts(1,2)]
  show ?thesis
    by (simp add: Let_def out parts(3-5) demo_stack_admits permits appr) (simp add: deploy_state_def sample_state_def)
qed

text \<open>
  The example policy end to end: under \<^verbatim>\<open>configs/policy.example.yaml\<close> a deployment to production
  changes the sandbox only for a caller who has the role \<open>ProductionAdmin\<close> and only if the reviewer
  approved this call; the approval sees the request as it is.
\<close>

theorem production_deploy_guarded:
  assumes "policy_engine ic = static_engine env example_ruleset" and "0 < decision_timeout_s ic"
    and "approval_callback ic = Some cb"
    and "tool_name req = ''deploy_tool''"
    and "dict_get (parameters req) ''environment'' = PStr ''production''"
    and "sandbox_state (snd (handle ic ce ctx req st)) \<noteq> sandbox_state st"
  shows "''ProductionAdmin'' \<in> set (roles ctx) \<and>
         fst (cb ctx req pending_approval (approval_state st)) = Inr True"
proof -
  have "cleared ic ce ctx req st" using assms(6) by (simp add: handle_sandbox_state split: if_splits)
  then obtain rule where per: "static_permits env example_ruleset ctx req rule"
    and appr: "function_name req \<in> set (requires_approval_functions rule) \<longrightarrow>
      approves ic ctx req pending_approval (approval_state st)"
    by (auto simp: cleared_def static_granted [OF assms(1,2)])
  have rule: "rule = (simple_rule ''deploy_tool'' [''deploy''])
      \<lparr>visible_to_roles := [''DeployEngineer'', ''ProductionAdmin''],
       requires_role_for := [(''environment=production'', [''ProductionAdmin''])],
       requires_approval_functions := [''deploy'']\<rparr>"
    using per assms(4) by (auto simp: static_permits_def example_ruleset_def)
  have "gate_applies req ''environment=production''"
    using assms(5) by (simp add: gate_applies_def partition_at_def)
  then have "''ProductionAdmin'' \<in> set (roles ctx)"
    using per by (auto simp: static_permits_def rule_permits_def gates_open_def rule)
  moreover have "function_name req = ''deploy''"
    using per by (simp add: static_permits_def rule_permits_def rule simple_rule_def)
  ultimately show ?thesis using appr assms(3) by (simp add: rule approves_def)
qed

theorem production_deploy_guarded_witness:
  "''ProductionAdmin'' \<in> set (roles (sample_context [''ProductionAdmin''])) \<and>
   fst (queue_call (sample_context [''ProductionAdmin'']) deploy_request pending_approval
          (approval_state deploy_state)) = Inr True"
proof -
  let ?ic = "demo_stack (static_engine sample_env example_ruleset)"
  let ?ctx = "sample_context [''ProductionAdmin'']"
  have adm: "fst (breaker_rejects ?ic (ce_check_now sample_call_env) ?ctx deploy_request
      (breaker_state deploy_state)) = Inr False"
    using sample_admits [of "(1, Inr sample_ok)" sample_out ?ctx deploy_request]
    by (simp add: demo_stack_def breaker_rejects_def deploy_state_def)
  have ev: "static_evaluate_tool_call sample_env example_ruleset ?ctx deploy_request = Inr pending_approval"
    by code_simp
  have "approves ?ic ?ctx deploy_request pending_approval (approval_state deploy_state)"
    by (simp add: approves_def demo_stack_def sample_interceptor_def queue_call_eq deploy_state_def
          deploy_request_def sample_request_def)
  then have "cleared ?ic sample_call_env ?ctx deploy_request deploy_state"
    using adm ev by (simp add: cleared_def granted_def demo_stack_def static_engine_def wait_for_def)
  then have "sandbox_state (snd (handle ?ic sample_call_env ?ctx deploy_request deploy_state)) \<noteq>
      sandbox_state deploy_state"
    by (simp add: handle_sandbox_state demo_stack_def)
  with production_deploy_guarded [of ?ic sample_env queue_call deploy_request] show ?thesis
    by (simp add: demo_stack_def sample_interceptor_def deploy_request_def sample_request_def dict_get_def)
qed

section \<open>The whole growth-tier stack\<close>

lemma regex_passes:
  "inspect_input (regex_guardrail True) prompt ctx = Inr out \<Longrightarrow>
     find_injection_markers prompt = [] \<and> out = mask prompt"
  by (auto simp: regex_guardrail_def regex_inspect_input_def Let_def split: if_splits)

text \<open>
  C4: End to end over session tokens, the semantic guardrail and the database engine: if a run changes
  the sandbox, then its token spells out the session and the agent of the context with an expiry
  that has not passed and the keyed hash of these under the issuer's secret; the agent was below
  its limit; the prompt has no injection marker and is below the similarity threshold for every
  intent; and the tables permit one of the proposed calls to this caller.
\<close>

theorem growth_tier_run:
  assumes "identity_verifier (pl_gateway pl) = session_verifier iss"
    and "pl_guardrail pl = semantic_guardrail (regex_guardrail True) threshold"
    and "policy_engine (pl_interceptor pl) = db_engine env conn"
    and "0 < decision_timeout_s (pl_interceptor pl)"
    and "sandbox_state (snd (snd (run pl re prompt ctx token st))) \<noteq> sandbox_state st"
  shows "(\<exists>e n. py_int e = Some n \<and> re_now re \<le> of_int n \<and>
            token = token_text (session_id ctx) (agent_id ctx) e
              (sign (secret iss) (session_id ctx) (agent_id ctx) n)) \<and>
         count_of (pl_gateway pl) (agent_id ctx) < rate_limit_per_minute (pl_gateway pl) \<and>
         find_injection_markers (mask prompt) = [] \<and>
         (\<forall>(label, i) \<in> set INJECTION_INTENTS. jaccard (tokenize (mask prompt)) i < threshold) \<and>
         (\<exists>p \<in> set (scripted_tool_calls (pl_llm_client pl)). \<exists>db. conn = Inr db \<and>
            db_permits env db ctx (to_tool_request p))"
proof -
  note change = run_change [OF assms(5)]
  then have "session_verify iss token ctx (re_now re) = Inr True"
    by (simp add: assms(1) session_verifier_def)
  note token = session_verify_sound [OF this]
  obtain p where "semantic_inspect_input (regex_guardrail True) threshold (mask prompt) ctx = Inr p"
    using change by (auto simp: assms(2) semantic_guardrail_def)
  from semantic_passes [OF this] have prompt: "find_injection_markers (mask prompt) = []"
    "\<forall>(label, i) \<in> set INJECTION_INTENTS. jaccard (tokenize (mask prompt)) i < threshold"
    using regex_passes [of "mask prompt" ctx p] by blast+
  obtain i st' where "i < length (scripted_tool_calls (pl_llm_client pl))"
    "cleared (pl_interceptor pl) (re_call re i) ctx
       (to_tool_request (scripted_tool_calls (pl_llm_client pl) ! i)) st'"
    using change by blast
  then have "\<exists>p \<in> set (scripted_tool_calls (pl_llm_client pl)). \<exists>db. conn = Inr db \<and>
      db_permits env db ctx (to_tool_request p)"
    using nth_mem by (auto simp: cleared_def db_granted [OF assms(3,4)])
  with change token prompt show ?thesis by blast
qed

definition growth_pipeline :: "(mem_backend, approval_queue, nat) pipeline" where
  "growth_pipeline =
     \<lparr>pl_gateway = new_gateway (session_verifier sample_issuer),
      pl_guardrail = semantic_guardrail (regex_guardrail True) default_similarity_threshold,
      pl_llm_client = script_tool_call \<lparr>p_tool_name = ''search_tool'', p_function_name = ''query'',
        p_parameters = [], p_call_id = ''c1''\<rparr> new_llm_client,
      pl_interceptor = demo_stack (db_engine sample_env (Inr (seed_example empty_db)))\<rparr>"

definition growth_env :: run_env where
  "growth_env = \<lparr>re_now = 500, re_call = (\<lambda>i. sample_call_env)\<rparr>"

theorem growth_tier_run_witness:
  "\<exists>p \<in> set (scripted_tool_calls (pl_llm_client growth_pipeline)).
     db_permits sample_env (seed_example empty_db) (sample_context [''AgentExecutor'']) (to_tool_request p)"
proof -
  let ?ctx = "sample_context [''AgentExecutor'']"
  let ?req = "sample_request ''search_tool'' ''query'' []"
  let ?ic = "demo_stack (db_engine sample_env (Inr (seed_example empty_db)))"
  let ?token = "issue sample_issuer ?ctx 100"
  let ?c = "\<lparr>p_tool_name = ''search_tool'', p_function_name = ''query'', p_parameters = [],
    p_call_id = ''c1''\<rparr>"
  have "expiry_of sample_issuer 100 = 1000" by code_simp
  then have verified: "session_verify sample_issuer ?token ?ctx 500 = Inr True"
    using session_verify_issued [of ?ctx sample_issuer 100 500] by (simp add: sample_context_def)
  have hello: "mask ''hello'' = ''hello''" by code_simp
  have passes: "inspect_input (semantic_guardrail (regex_guardrail True) default_similarity_threshold)
      ''hello'' ?ctx = Inr ''hello''" by code_simp
  have adm: "admitted_prompt growth_pipeline growth_env ''hello'' ?ctx ?token = Inr ''hello''"
    using verified passes hello
    by (simp add: admitted_prompt_def growth_pipeline_def growth_env_def handle_inbound_eq
          new_gateway_def session_verifier_def count_of_def)
  have clear: "fst (breaker_rejects ?ic (ce_check_now sample_call_env) ?ctx ?req
      (breaker_state sample_state)) = Inr False"
    using sample_admits [of "(1, Inr sample_ok)" sample_out ?ctx ?req]
    by (simp add: demo_stack_def breaker_rejects_def)
  have "db_evaluate_tool_call sample_env (Inr (seed_example empty_db)) ?ctx ?req =
      Inr (mk_decision True ''all policy checks passed'')" by code_simp
  then have "cleared ?ic sample_call_env ?ctx ?req sample_state"
    using clear by (simp add: cleared_def granted_def demo_stack_def db_engine_def wait_for_def)
  then have moved: "sandbox_state (snd (handle ?ic sample_call_env ?ctx ?req sample_state)) \<noteq>
      sandbox_state sample_state"
    by (simp add: handle_sandbox_state demo_stack_def)
  have one: "scripted_tool_calls (pl_llm_client growth_pipeline) = [?c]" "to_tool_request ?c = ?req"
    by (simp_all add: growth_pipeline_def script_tool_call_def new_llm_client_def to_tool_request_def
          sample_request_def)
  have parts: "identity_verifier (pl_gateway growth_pipeline) = session_verifier sample_issuer"
    "pl_guardrail growth_pipeline = semantic_guardrail (regex_guardrail True) default_similarity_threshold"
    "policy_engine (pl_interceptor growth_pipeline) = db_engine sample_env (Inr (seed_example empty_db))"
    "0 < decision_timeout_s (pl_interceptor growth_pipeline)"
    by (simp_all add: growth_pipeline_def new_gateway_def demo_stack_def)
  have "snd (snd (run growth_pipeline growth_env ''hello'' ?ctx ?token sample_state)) =
      snd (handle ?ic sample_call_env ?ctx ?req sample_state)"
    using run_single [OF adm one(1)] one(2) by (simp add: growth_pipeline_def growth_env_def)
  with moved have "sandbox_state (snd (snd (run growth_pipeline growth_env ''hello'' ?ctx ?token sample_state))) \<noteq>
      sandbox_state sample_state" by simp
  from growth_tier_run [OF parts this] show ?thesis by blast
qed

end
